(* ===== verification/Prelude.thy ===== *)
theory Prelude
  imports Main "HOL-Library.Word" "HOL-Library.Monad_Syntax"
begin

text \<open>
  Shared vocabulary of the development: the fixed-width integers of the firmware, the two ways the
  AVR stores a multi-byte value (little endian in memory, most significant byte first on a wire),
  single-bit masks, and the generic facts on words and lists that the component theories use.
  The collection \<open>byte_simps\<close> holds the splitting and joining laws of multi-byte values.
\<close>

unbundle bit_operations_syntax

type_synonym u8 = "8 word"
type_synonym u16 = "16 word"
type_synonym u32 = "32 word"

text \<open>A byte-addressed memory with 16-bit addresses, such as the data or program memory of the AVR.\<close>

type_synonym mem = "u16 \<Rightarrow> u8"

named_theorems byte_simps \<open>splitting and joining multi-byte values\<close>

subsection \<open>Bytes of a 16-bit and a 32-bit value\<close>

definition lo8 :: "u16 \<Rightarrow> u8" where
  "lo8 x = ucast (x AND 0xFF)"

definition hi8 :: "u16 \<Rightarrow> u8" where
  "hi8 x = ucast (drop_bit 8 x)"

definition join16 :: "u8 \<Rightarrow> u8 \<Rightarrow> u16" where
  "join16 hi lo = push_bit 8 (ucast hi) OR ucast lo"

definition le16 :: "u16 \<Rightarrow> u8 list" where
  "le16 x = [lo8 x, hi8 x]"

definition byte32 :: "nat \<Rightarrow> u32 \<Rightarrow> u8" where
  "byte32 i x = ucast (drop_bit (8 * i) x)"

definition join32 :: "u8 \<Rightarrow> u8 \<Rightarrow> u8 \<Rightarrow> u8 \<Rightarrow> u32" where
  "join32 b3 b2 b1 b0 =
     push_bit 24 (ucast b3) OR push_bit 16 (ucast b2) OR push_bit 8 (ucast b1) OR ucast b0"

lemma bit_ucast_u8_u16: "bit (ucast (x :: u8) :: u16) n \<longleftrightarrow> n < 8 \<and> bit x n"
  by (auto simp: bit_ucast_iff dest: bit_imp_le_length)

lemma bit_ucast_u8_u32: "bit (ucast (x :: u8) :: u32) n \<longleftrightarrow> n < 8 \<and> bit x n"
  by (auto simp: bit_ucast_iff dest: bit_imp_le_length)

lemma bit_u8_ge: "8 \<le> n \<Longrightarrow> \<not> bit (x :: u8) n"
  using bit_imp_le_length [of x n] by auto

lemma mask_FF_u16: "(0xFF :: u16) = mask 8"
  by (simp add: mask_eq_exp_minus_1)

lemmas byte_bits = bit_simps bit_ucast_u8_u16 bit_ucast_u8_u32 bit_u8_ge mask_FF_u16

lemma lo8_join16 [byte_simps, simp]: "lo8 (join16 h l) = l"
  by (rule bit_word_eqI) (auto simp: lo8_def join16_def byte_bits)

lemma hi8_join16 [byte_simps, simp]: "hi8 (join16 h l) = h"
  by (rule bit_word_eqI) (auto simp: hi8_def join16_def byte_bits)

lemma join16_hi8_lo8 [byte_simps, simp]: "join16 (hi8 x) (lo8 x) = x"
  by (rule bit_word_eqI) (auto simp: hi8_def lo8_def join16_def byte_bits)

lemma join16_inject [simp]: "join16 h l = join16 h' l' \<longleftrightarrow> h = h' \<and> l = l'"
  by (metis hi8_join16 lo8_join16)

lemma unat_lo8: "unat (lo8 x) = unat x mod 256"
  by (simp add: lo8_def mask_FF_u16 unsigned_ucast_eq take_bit_eq_mod flip: take_bit_eq_mask)
    (simp add: unat_mod)

lemma unat_hi8: "unat (hi8 x) = unat x div 256"
proof -
  have "unat x < 65536"
    by (rule order.strict_trans2 [OF unsigned_less]) simp
  then have "unat x div 256 < 256" by (simp add: div_less_iff_less_mult)
  then show ?thesis
    by (simp add: hi8_def unsigned_ucast_eq drop_bit_eq_div take_bit_eq_mod unat_div)
qed

lemma unat_join16: "unat (join16 h l) = 256 * unat h + unat l"
  using unat_lo8 [of "join16 h l"] unat_hi8 [of "join16 h l"] by simp

lemma unat_of_nat_u16: "n < 65536 \<Longrightarrow> unat (of_nat n :: u16) = n"
  by (simp add: unat_of_nat)

lemma unat_of_nat_u8: "n < 256 \<Longrightarrow> unat (of_nat n :: u8) = n"
  by (simp add: unat_of_nat)

lemma unat_u8_lt [simp]: "unat (x :: u8) < 256"
  by (rule order.strict_trans2 [OF unsigned_less]) simp

lemma unat_u16_lt [simp]: "unat (x :: u16) < 65536"
  by (rule order.strict_trans2 [OF unsigned_less]) simp

lemma ucast_u16_of_nat: "unat (b :: u8) = n \<Longrightarrow> (ucast b :: u16) = of_nat n"
  by (auto simp: word_unat_eq_iff unat_of_nat unsigned_ucast_eq take_bit_eq_mod)

lemma length_le16 [simp]: "length (le16 x) = 2"
  by (simp add: le16_def)

lemma join32_bytes [byte_simps]:
  "join32 (byte32 3 x) (byte32 2 x) (byte32 1 x) (byte32 0 x) = x"
proof (rule bit_word_eqI)
  fix n
  assume n: "n < LENGTH(32)"
  consider "n < 8" | "8 \<le> n" "n < 16" | "16 \<le> n" "n < 24" | "24 \<le> n" "n < 32"
    using n by fastforce
  then show "bit (join32 (byte32 3 x) (byte32 2 x) (byte32 1 x) (byte32 0 x)) n = bit x n"
    by cases (auto simp: join32_def byte32_def byte_bits)
qed

lemma byte32_join32 [byte_simps, simp]:
  shows "byte32 0 (join32 b3 b2 b1 b0) = b0" and "byte32 1 (join32 b3 b2 b1 b0) = b1"
    and "byte32 2 (join32 b3 b2 b1 b0) = b2" and "byte32 3 (join32 b3 b2 b1 b0) = b3"
  by (rule bit_word_eqI, auto simp: join32_def byte32_def byte_bits)+

subsection \<open>Single-bit masks\<close>

text \<open>\<open>bv n\<close> is the C expression \<^verbatim>\<open>(1 << n)\<close> at 8 bits, and \<open>has x m\<close> the test
  \<^verbatim>\<open>(x & m) ? true : false\<close>.\<close>

definition bv :: "nat \<Rightarrow> u8" where
  "bv n = push_bit n 1"

definition has :: "u8 \<Rightarrow> u8 \<Rightarrow> bool" where
  "has x m \<longleftrightarrow> x AND m \<noteq> 0"

lemma bit_bv: "bit (bv n) k \<longleftrightarrow> k = n \<and> n < 8"
  by (auto simp: bv_def bit_simps)

lemma has_bv: "has x (bv n) \<longleftrightarrow> bit x n"
proof
  assume "has x (bv n)"
  then obtain k where "bit (x AND bv n) k"
    unfolding has_def using bit_eqI [of "x AND bv n" 0] by auto
  then show "bit x n" by (auto simp: bit_bv bit_simps)
next
  assume b: "bit x n"
  then have "n < 8" using bit_u8_ge [of n x] by (cases "n < 8") auto
  with b have "bit (x AND bv n) n" by (simp add: bit_bv bit_simps)
  then show "has x (bv n)" by (auto simp: has_def)
qed

lemma has_set [simp]: "n < 8 \<Longrightarrow> has (x OR bv n) (bv n)"
  by (simp add: has_bv bit_or_iff bit_bv)

lemma has_clear [simp]: "\<not> has (x AND NOT (bv n)) (bv n)"
  by (auto simp: has_bv bit_simps bit_bv)

subsection \<open>Lists\<close>

lemma nth_take_drop_Cons: "i < length xs \<Longrightarrow> take (Suc i) xs = take i xs @ [xs ! i]"
  by (rule take_Suc_conv_app_nth)

lemma length_concat_replicate: "length (concat (replicate n xs)) = n * length xs"
  by (induction n) auto

end
