(* ===== verification/ByteQueue.thy ===== *)
theory ByteQueue
  imports Prelude
begin

text \<open>
  The contract of a bounded FIFO. Three components provide it: the 256-byte circular buffer between
  the USART interrupt and \<^verbatim>\<open>Serial_Task\<close> (theory \<open>JoystickSerial\<close>), the generic \<^verbatim>\<open>RingBuffer_t\<close> of the LUFA
  library (theory \<open>RingBuffer\<close>) and, with bits as elements, the buffer of the card reader (theory \<open>BitBuffer\<close>). The laws say what
  an insertion and a removal do to the queued elements as long as there is room, respectively as long
  as the queue is not empty; the facts proved inside the locale are what a client that inserts and
  removes many bytes relies on.
\<close>

locale bounded_queue =
  fixes invar :: "'q \<Rightarrow> bool"
    and content :: "'q \<Rightarrow> 'a list"
    and cap :: "'q \<Rightarrow> nat"
    and put :: "'a \<Rightarrow> 'q \<Rightarrow> 'q"
    and front :: "'q \<Rightarrow> 'a"
    and advance :: "'q \<Rightarrow> 'q"
  assumes put_content:
      "invar q \<Longrightarrow> length (content q) < cap q \<Longrightarrow> content (put x q) = content q @ [x]"
    and put_invar: "invar q \<Longrightarrow> length (content q) < cap q \<Longrightarrow> invar (put x q)"
    and put_cap: "cap (put x q) = cap q"
    and advance_content:
      "invar q \<Longrightarrow> content q \<noteq> [] \<Longrightarrow> content q = front q # content (advance q)"
    and advance_invar: "invar q \<Longrightarrow> content q \<noteq> [] \<Longrightarrow> invar (advance q)"
    and advance_cap: "cap (advance q) = cap q"
begin

lemma put_all_invar_content:
  "invar q \<Longrightarrow> length (content q) + length xs \<le> cap q \<Longrightarrow>
     invar (fold put xs q) \<and> content (fold put xs q) = content q @ xs"
proof (induction xs arbitrary: q)
  case Nil
  then show ?case by simp
next
  case (Cons x xs)
  then have room: "length (content q) < cap q" by simp
  with Cons.prems have "invar (put x q)" "content (put x q) = content q @ [x]"
    by (auto simp: put_invar put_content)
  with Cons.prems Cons.IH [of "put x q"] show ?case by (simp add: put_cap)
qed

lemma advance_n_content:
  "invar q \<Longrightarrow> n \<le> length (content q) \<Longrightarrow>
     invar ((advance ^^ n) q) \<and> content ((advance ^^ n) q) = drop n (content q)"
proof (induction n)
  case 0
  then show ?case by simp
next
  case (Suc n)
  then have inv: "invar ((advance ^^ n) q)" and c: "content ((advance ^^ n) q) = drop n (content q)"
    by auto
  from Suc.prems c have ne: "content ((advance ^^ n) q) \<noteq> []" by simp
  from advance_content [OF inv ne] have "content (advance ((advance ^^ n) q)) = tl (drop n (content q))"
    using c by (metis list.sel(3))
  then show ?case using advance_invar [OF inv ne] by (simp add: drop_Suc tl_drop)
qed

lemma advance_n_cap: "cap ((advance ^^ n) q) = cap q"
  by (induction n) (auto simp: advance_cap)

lemma front_nth:
  assumes "invar q" and "n < length (content q)"
  shows "front ((advance ^^ n) q) = content q ! n"
proof -
  from assms have inv: "invar ((advance ^^ n) q)" and c: "content ((advance ^^ n) q) = drop n (content q)"
    using advance_n_content [of q n] by auto
  have ne: "content ((advance ^^ n) q) \<noteq> []" using assms(2) c by simp
  from advance_content [OF inv ne] have "front ((advance ^^ n) q) = hd (drop n (content q))"
    using c by (metis list.sel(1))
  then show ?thesis using assms(2) by (simp add: hd_drop_conv_nth)
qed

text \<open>First in, first out: from an empty queue, the bytes come out in the order they went in.\<close>

lemma fifo:
  assumes "invar q" and "content q = []" and "length xs \<le> cap q" and "n < length xs"
  shows "front ((advance ^^ n) (fold put xs q)) = xs ! n"
  using put_all_invar_content [of q xs] front_nth [of "fold put xs q" n] assms by simp

end

end
