(* ===== verification/JoystickSerial.thy ===== *)
theory JoystickSerial
  imports ByteQueue
begin

text \<open>
  The serial side of \<^verbatim>\<open>Joystick.c\<close>: the globals of the file, the 256-byte circular buffer that the
  USART interrupt fills, and \<^verbatim>\<open>Serial_Task\<close>, which decodes lines of fourteen hexadecimal digits
  into the controller state. The state is the record \<open>joystick\<close>; \<^verbatim>\<open>Serial_Task\<close>'s two static
  locals \<^verbatim>\<open>l\<close> and \<^verbatim>\<open>b\<close> are its fields \<open>Serial_l\<close> and \<open>Serial_b\<close>. The write
  \<^verbatim>\<open>b[l/2] |= ...\<close> is not guarded in the source, so the decoder returns a value of \<open>ub + joystick\<close>:
  \<open>Inl (OutOfBounds i)\<close> when the code writes the element \<open>i\<close> of the seven-element array.
\<close>

subsection \<open>State\<close>

record joystick =
  target :: u8
  buttons :: u16
  HAT2 :: u8
  LX2 :: u8
  LY2 :: u8
  RX2 :: u8
  RY2 :: u8
  buffer :: "u8 list"
  buffer_head :: u8
  buffer_tail :: u8
  Serial_l :: u8
  Serial_b :: "u8 list"

datatype ub = OutOfBounds nat

definition RELEASE :: u8 where
  "RELEASE = 6"

definition joystick_init :: joystick where
  "joystick_init = \<lparr>target = RELEASE, buttons = 0, HAT2 = 0, LX2 = 0, LY2 = 0, RX2 = 0, RY2 = 0,
     buffer = replicate 256 0, buffer_head = 0, buffer_tail = 0,
     Serial_l = 0, Serial_b = replicate 7 0\<rparr>"

subsection \<open>The receive interrupt's effect on the buffer\<close>

text \<open>The test \<^verbatim>\<open>buffer_head == (buffer_tail - 1)\<close>: both operands are promoted to \<^verbatim>\<open>int\<close>, so the
  subtraction does not wrap at 8 bits.\<close>

definition rx_overrun :: "joystick \<Rightarrow> bool" where
  "rx_overrun s \<longleftrightarrow> uint (buffer_head s) = uint (buffer_tail s) - 1"

definition rx_store :: "u8 \<Rightarrow> joystick \<Rightarrow> joystick" where
  "rx_store c s = s\<lparr>buffer := (buffer s)[unat (buffer_head s) := c],
                    buffer_head := buffer_head s + 1\<rparr>"

subsection \<open>The line decoder\<close>

definition hex_val :: "u8 \<Rightarrow> u8" where
  "hex_val c =
     (if 0x30 \<le> c \<and> c \<le> 0x39 then c - 0x30
      else if 0x61 \<le> c \<and> c \<le> 0x66 then (c - 0x61) + 0xa
      else if 0x41 \<le> c \<and> c \<le> 0x46 then (c - 0x41) + 0xa
      else 0xff)"

definition Serial_char :: "u8 \<Rightarrow> joystick \<Rightarrow> ub + joystick" where
  "Serial_char c s =
     (if c = 0x0D \<or> c = 0x0A then
        (let s = (if Serial_l s = 14
                  then s\<lparr>HAT2 := Serial_b s ! 0,
                         buttons := push_bit 8 (ucast (Serial_b s ! 1)) OR ucast (Serial_b s ! 2),
                         LX2 := Serial_b s ! 3, LY2 := Serial_b s ! 4,
                         RX2 := Serial_b s ! 5, RY2 := Serial_b s ! 6\<rparr>
                  else s)
         in Inr (s\<lparr>Serial_l := 0, Serial_b := replicate 7 0\<rparr>))
      else
        (let val = hex_val c in
         if val = 0xff then Inr s
         else
           (let i = unat (Serial_l s) div 2 in
            if i < length (Serial_b s)
            then Inr (s\<lparr>Serial_b := (Serial_b s)[i := Serial_b s ! i OR
                                     push_bit (4 * ((unat (Serial_l s) + 1) mod 2)) val],
                        Serial_l := Serial_l s + 1\<rparr>)
            else Inl (OutOfBounds i))))"

definition Serial_step :: "joystick \<Rightarrow> ub + joystick" where
  "Serial_step s =
     (case Serial_char (buffer s ! unat (buffer_tail s)) s of
        Inl e \<Rightarrow> Inl e
      | Inr s \<Rightarrow> Inr (s\<lparr>buffer_tail := buffer_tail s + 1\<rparr>))"

lemma Serial_char_queue:
  "Serial_char c s = Inr t \<Longrightarrow>
     buffer t = buffer s \<and> buffer_head t = buffer_head s \<and> buffer_tail t = buffer_tail s"
  by (auto simp: Serial_char_def Let_def split: if_splits)

lemma Serial_step_queue:
  "Serial_step s = Inr t \<Longrightarrow>
     buffer t = buffer s \<and> buffer_head t = buffer_head s \<and> buffer_tail t = buffer_tail s + 1"
  by (auto simp: Serial_step_def split: sum.splits dest: Serial_char_queue)

lemma unat_pred_less: "(x :: u8) \<noteq> 0 \<Longrightarrow> unat (x - 1) < unat x"
  by (metis unat_gt_0 unat_minus_one diff_less zero_less_one)

function Serial_Task :: "joystick \<Rightarrow> ub + joystick" where
  "Serial_Task s =
     (if buffer_tail s \<noteq> buffer_head s
      then (case Serial_step s of Inl e \<Rightarrow> Inl e | Inr s' \<Rightarrow> Serial_Task s')
      else Inr s)"
  by pat_completeness auto
termination
proof (relation "measure (\<lambda>s. unat (buffer_head s - buffer_tail s))")
  show "wf (measure (\<lambda>s. unat (buffer_head s - buffer_tail s)))" by simp
  fix s s'
  assume ne: "buffer_tail s \<noteq> buffer_head s" and st: "Serial_step s = Inr s'"
  from Serial_step_queue [OF st]
  have "buffer_head s' - buffer_tail s' = (buffer_head s - buffer_tail s) - 1" by simp
  then show "(s', s) \<in> measure (\<lambda>s. unat (buffer_head s - buffer_tail s))"
    using ne unat_pred_less [of "buffer_head s - buffer_tail s"] by simp
qed

declare Serial_Task.simps [simp del]

subsection \<open>The circular buffer is a bounded FIFO\<close>

definition pending :: "joystick \<Rightarrow> u8 list" where
  "pending s = map (\<lambda>i. buffer s ! ((unat (buffer_tail s) + i) mod 256))
                 [0..<unat (buffer_head s - buffer_tail s)]"

definition buffer_ok :: "joystick \<Rightarrow> bool" where
  "buffer_ok s \<longleftrightarrow> length (buffer s) = 256"

definition rx_front :: "joystick \<Rightarrow> u8" where
  "rx_front s = buffer s ! unat (buffer_tail s)"

definition rx_advance :: "joystick \<Rightarrow> joystick" where
  "rx_advance s = s\<lparr>buffer_tail := buffer_tail s + 1\<rparr>"

lemma unat_u8_less [simp]: "unat (x :: u8) < 256"
  by (rule order.strict_trans2 [OF unsigned_less]) simp

lemma unat_add_diff_u8: "(unat a + unat (b - a)) mod 256 = unat (b :: u8)"
proof -
  have "unat (a + (b - a)) = (unat a + unat (b - a)) mod 256"
    by (subst unat_word_ariths) simp
  then show ?thesis by simp
qed

lemma unat_u8_plus1: "unat (x + 1 :: u8) = (if unat x = 255 then 0 else unat x + 1)"
proof -
  have "unat (x + 1) = (unat x + 1) mod 256" by (subst unat_word_ariths) simp
  then show ?thesis using unat_u8_less [of x] by (auto simp: mod_Suc)
qed

lemma length_pending [simp]: "length (pending s) = unat (buffer_head s - buffer_tail s)"
  by (simp add: pending_def)

lemma pending_empty: "pending s = [] \<longleftrightarrow> buffer_tail s = buffer_head s"
proof -
  have "pending s = [] \<longleftrightarrow> buffer_head s - buffer_tail s = 0"
    by (simp add: pending_def unat_eq_0)
  then show ?thesis by auto
qed

lemma nth_pending:
  "i < unat (buffer_head s - buffer_tail s) \<Longrightarrow>
     pending s ! i = buffer s ! ((unat (buffer_tail s) + i) mod 256)"
  by (simp add: pending_def)

lemma queue_index_inj:
  assumes "i < 256" and "j < 256" and "((t::nat) + i) mod 256 = (t + j) mod 256"
  shows "i = j"
proof -
  have "(int t + int i) mod 256 = (int t + int j) mod 256"
    using assms(3) by (metis of_nat_add of_nat_mod of_nat_numeral)
  then have "int i mod 256 = int j mod 256" by (simp add: mod_add_cong mod_diff_cong mod_eq_dvd_iff)
  then show ?thesis using assms(1,2) by simp
qed

lemma pending_rx_store:
  assumes ok: "buffer_ok s" and room: "length (pending s) < 255"
  shows "pending (rx_store c s) = pending s @ [c]"
proof (rule nth_equalityI)
  let ?n = "unat (buffer_head s - buffer_tail s)"
  have n': "unat (buffer_head s + 1 - buffer_tail s) = ?n + 1"
    using room unat_u8_plus1 [of "buffer_head s - buffer_tail s"] by (simp add: algebra_simps)
  show "length (pending (rx_store c s)) = length (pending s @ [c])"
    using n' by (simp add: rx_store_def)
  fix i
  assume "i < length (pending (rx_store c s))"
  then have i: "i < ?n + 1" using n' by (simp add: rx_store_def)
  have head: "(unat (buffer_tail s) + ?n) mod 256 = unat (buffer_head s)"
    by (rule unat_add_diff_u8)
  have nth: "pending (rx_store c s) ! i =
      (buffer s)[unat (buffer_head s) := c] ! ((unat (buffer_tail s) + i) mod 256)"
    using i n' by (simp add: nth_pending rx_store_def)
  show "pending (rx_store c s) ! i = (pending s @ [c]) ! i"
  proof (cases "i = ?n")
    case True
    then show ?thesis using nth head ok by (simp add: buffer_ok_def nth_append)
  next
    case False
    with i have i': "i < ?n" by simp
    have "(unat (buffer_tail s) + i) mod 256 \<noteq> unat (buffer_head s)"
      using queue_index_inj [of i ?n "unat (buffer_tail s)"] i' room head by force
    then show ?thesis using nth i' by (simp add: nth_append nth_pending)
  qed
qed

lemma pending_rx_advance:
  assumes "pending s \<noteq> []"
  shows "pending s = rx_front s # pending (rx_advance s)"
proof (rule nth_equalityI)
  let ?n = "unat (buffer_head s - buffer_tail s)"
  have pos: "0 < ?n" using assms by (metis length_greater_0_conv length_pending)
  have n': "unat (buffer_head s - (buffer_tail s + 1)) = ?n - 1"
    using pos unat_minus_one [of "buffer_head s - buffer_tail s"]
    by (cases "buffer_head s = buffer_tail s") (auto simp: algebra_simps)
  show "length (pending s) = length (rx_front s # pending (rx_advance s))"
    using pos n' by (simp add: rx_advance_def)
  fix i
  assume "i < length (pending s)"
  then have i: "i < ?n" by simp
  show "pending s ! i = (rx_front s # pending (rx_advance s)) ! i"
  proof (cases i)
    case 0
    then show ?thesis using i by (simp add: nth_pending rx_front_def)
  next
    case (Suc j)
    have "(unat (buffer_tail s + 1) + j) mod 256 = (unat (buffer_tail s) + i) mod 256"
      using Suc by (auto simp: unat_u8_plus1)
    then show ?thesis using i n' Suc by (simp add: nth_pending rx_advance_def)
  qed
qed

interpretation usart: bounded_queue buffer_ok pending "\<lambda>_. 255" rx_store rx_front rx_advance
proof unfold_locales
  fix q :: joystick and x :: u8
  assume inv: "buffer_ok q"
  show "length (pending q) < 255 \<Longrightarrow> pending (rx_store x q) = pending q @ [x]"
    using inv by (rule pending_rx_store)
  show "buffer_ok (rx_store x q)" using inv by (simp add: buffer_ok_def rx_store_def)
  show "pending q \<noteq> [] \<Longrightarrow> pending q = rx_front q # pending (rx_advance q)"
    by (rule pending_rx_advance)
  show "buffer_ok (rx_advance q)" using inv by (simp add: buffer_ok_def rx_advance_def)
qed simp_all

subsection \<open>Specification of the line protocol\<close>

text \<open>
  What the decoder promises, without buffers and bit operations: the state is the controller state
  shown to the console and the digits of the current line. A line feed or carriage return ends the
  line and, if the line had exactly fourteen digits, replaces the controller state by the seven
  bytes they spell; a hexadecimal digit is appended; any other byte is skipped. A fifteenth digit
  has no specified effect.
\<close>

record pad =
  pad_HAT :: u8
  pad_Button :: u16
  pad_LX :: u8
  pad_LY :: u8
  pad_RX :: u8
  pad_RY :: u8

definition pad_of :: "joystick \<Rightarrow> pad" where
  "pad_of s = \<lparr>pad_HAT = HAT2 s, pad_Button = buttons s, pad_LX = LX2 s, pad_LY = LY2 s,
               pad_RX = RX2 s, pad_RY = RY2 s\<rparr>"

definition digit_at :: "u8 list \<Rightarrow> nat \<Rightarrow> u8" where
  "digit_at ds i = (if i < length ds then ds ! i else 0)"

definition pack :: "u8 list \<Rightarrow> u8 list" where
  "pack ds = map (\<lambda>i. push_bit 4 (digit_at ds (2 * i)) OR digit_at ds (2 * i + 1)) [0..<7]"

definition pad_of_bytes :: "u8 list \<Rightarrow> pad" where
  "pad_of_bytes bs = \<lparr>pad_HAT = bs ! 0, pad_Button = join16 (bs ! 1) (bs ! 2), pad_LX = bs ! 3,
                      pad_LY = bs ! 4, pad_RX = bs ! 5, pad_RY = bs ! 6\<rparr>"

definition line_spec :: "u8 \<Rightarrow> pad \<times> u8 list \<Rightarrow> (pad \<times> u8 list) option" where
  "line_spec c = (\<lambda>(p, ds).
     if c = 0x0D \<or> c = 0x0A
     then Some (if length ds = 14 then pad_of_bytes (pack ds) else p, [])
     else if hex_val c = 0xff then Some (p, ds)
     else if length ds < 14 then Some (p, ds @ [hex_val c])
     else None)"

definition line_rel :: "pad \<times> u8 list \<Rightarrow> joystick \<Rightarrow> bool" where
  "line_rel = (\<lambda>(p, ds) s.
     pad_of s = p \<and> unat (Serial_l s) = length ds \<and> length ds \<le> 14 \<and> Serial_b s = pack ds)"

lemma length_pack [simp]: "length (pack ds) = 7"
  by (simp add: pack_def)

lemma nth_pack:
  "i < 7 \<Longrightarrow> pack ds ! i = push_bit 4 (digit_at ds (2 * i)) OR digit_at ds (2 * i + 1)"
  by (simp add: pack_def del: upt_Suc)

lemma pack_Nil: "pack [] = replicate 7 0"
  by (rule nth_equalityI) (auto simp: nth_pack digit_at_def)

lemma digit_at_snoc: "digit_at (ds @ [d]) i = (if i = length ds then d else digit_at ds i)"
  by (auto simp: digit_at_def nth_append)

text \<open>Writing one more digit into the packed array is the \<^verbatim>\<open>|=\<close> of the source.\<close>

lemma pack_snoc:
  assumes "length ds < 14"
  shows "pack (ds @ [d]) = (pack ds)[length ds div 2 :=
           pack ds ! (length ds div 2) OR push_bit (4 * ((length ds + 1) mod 2)) d]"
proof (rule nth_equalityI)
  show "length (pack (ds @ [d])) = length ((pack ds)[length ds div 2 :=
          pack ds ! (length ds div 2) OR push_bit (4 * ((length ds + 1) mod 2)) d])"
    by simp
  fix i
  assume "i < length (pack (ds @ [d]))"
  then have i: "i < 7" by simp
  show "pack (ds @ [d]) ! i = (pack ds)[length ds div 2 :=
          pack ds ! (length ds div 2) OR push_bit (4 * ((length ds + 1) mod 2)) d] ! i"
  proof (cases "i = length ds div 2")
    case True
    then consider (even) "length ds = 2 * i" | (odd) "length ds = 2 * i + 1" by linarith
    then show ?thesis
    proof cases
      case even
      then have "(length ds + 1) mod 2 = 1" by simp
      then show ?thesis using i even by (simp add: nth_pack digit_at_def nth_append)
    next
      case odd
      then have "(length ds + 1) mod 2 = 0" by simp
      then show ?thesis using i odd by (simp add: nth_pack digit_at_def nth_append)
    qed
  next
    case False
    then have "2 * i \<noteq> length ds" "2 * i + 1 \<noteq> length ds" by auto
    then show ?thesis using i False by (simp add: nth_pack digit_at_snoc)
  qed
qed

lemma pack_index_bound: "length ds < 14 \<longleftrightarrow> length ds div 2 < 7"
  by linarith

lemma Serial_char_refines:
  assumes rel: "line_rel (p, ds) s"
  shows "case Serial_char c s of
           Inr t \<Rightarrow> \<exists>a. line_spec c (p, ds) = Some a \<and> line_rel a t
         | Inl e \<Rightarrow> line_spec c (p, ds) = None \<and> e = OutOfBounds 7"
proof -
  from rel have pad: "pad_of s = p" and l: "unat (Serial_l s) = length ds"
    and len: "length ds \<le> 14" and b: "Serial_b s = pack ds"
    by (auto simp: line_rel_def)
  have l14: "Serial_l s = 14 \<longleftrightarrow> length ds = 14"
    using l by (simp add: word_unat_eq_iff)
  have l1: "length ds < 14 \<Longrightarrow> unat (Serial_l s + 1) = length ds + 1"
    using l unat_u8_plus1 [of "Serial_l s"] by simp
  show ?thesis
  proof (cases "c = 0x0D \<or> c = 0x0A")
    case True
    then show ?thesis
      using pad len l14 b
      by (auto simp: Serial_char_def line_spec_def line_rel_def pad_of_def pad_of_bytes_def
          join16_def pack_Nil)
  next
    case eol: False
    show ?thesis
    proof (cases "hex_val c = 0xff \<or> 14 \<le> length ds")
      case True
      then show ?thesis
        using eol rel l b len
        by (auto simp: Serial_char_def line_spec_def Let_def)
    next
      case False
      then have "length ds < 14" "hex_val c \<noteq> 0xff" by auto
      then show ?thesis
        using eol pad l l1 b
        by (auto simp: Serial_char_def line_spec_def line_rel_def Let_def pad_of_def pack_snoc)
    qed
  qed
qed

subsection \<open>Whole runs of the decoder\<close>

fun Serial_chars :: "u8 list \<Rightarrow> joystick \<Rightarrow> ub + joystick" where
  "Serial_chars [] s = Inr s"
| "Serial_chars (c # cs) s =
     (case Serial_char c s of Inl e \<Rightarrow> Inl e | Inr t \<Rightarrow> Serial_chars cs t)"

fun line_run :: "u8 list \<Rightarrow> pad \<times> u8 list \<Rightarrow> (pad \<times> u8 list) option" where
  "line_run [] a = Some a"
| "line_run (c # cs) a = Option.bind (line_spec c a) (line_run cs)"

lemma line_run_append: "line_run (xs @ ys) a = Option.bind (line_run xs a) (line_run ys)"
  by (induction xs arbitrary: a) (auto split: bind_splits)

lemma Serial_chars_refines:
  "line_rel a s \<Longrightarrow>
     (case Serial_chars cs s of
        Inr t \<Rightarrow> \<exists>a'. line_run cs a = Some a' \<and> line_rel a' t
      | Inl e \<Rightarrow> line_run cs a = None \<and> e = OutOfBounds 7)"
proof (induction cs arbitrary: a s)
  case Nil
  then show ?case by simp
next
  case (Cons c cs)
  obtain p ds where a: "a = (p, ds)" by (cases a)
  note step = Serial_char_refines [OF Cons.prems [unfolded a], of c]
  show ?case
  proof (cases "Serial_char c s")
    case (Inl e)
    with step show ?thesis by (simp add: a)
  next
    case (Inr t)
    with step obtain a' where "line_spec c a = Some a'" and "line_rel a' t" by (auto simp: a)
    with Cons.IH [of a' t] Inr show ?thesis by (auto split: sum.splits)
  qed
qed

lemma Serial_char_tail:
  "Serial_char c (s\<lparr>buffer_tail := i\<rparr>) =
     (case Serial_char c s of Inl e \<Rightarrow> Inl e | Inr t \<Rightarrow> Inr (t\<lparr>buffer_tail := i\<rparr>))"
  by (auto simp: Serial_char_def Let_def)

lemma Serial_chars_tail:
  "Serial_chars cs (s\<lparr>buffer_tail := i\<rparr>) =
     (case Serial_chars cs s of Inl e \<Rightarrow> Inl e | Inr t \<Rightarrow> Inr (t\<lparr>buffer_tail := i\<rparr>))"
  by (induction cs arbitrary: s) (auto simp: Serial_char_tail split: sum.splits)

lemma pending_cong:
  "buffer t = buffer s \<Longrightarrow> buffer_head t = buffer_head s \<Longrightarrow> buffer_tail t = buffer_tail s \<Longrightarrow>
     pending t = pending s"
  by (simp add: pending_def)

lemma Serial_chars_head: "Serial_chars cs s = Inr t \<Longrightarrow> buffer_head t = buffer_head s"
  by (induction cs arbitrary: s) (auto split: sum.splits dest: Serial_char_queue)

text \<open>One call of \<^verbatim>\<open>Serial_Task\<close> decodes exactly the queued bytes, in order, and leaves the queue
  empty: its \<^verbatim>\<open>while\<close> loop is a pass over the queue's abstraction.\<close>

lemma Serial_Task_pending:
  "Serial_Task s =
     (case Serial_chars (pending s) s of
        Inl e \<Rightarrow> Inl e | Inr t \<Rightarrow> Inr (t\<lparr>buffer_tail := buffer_head s\<rparr>))"
proof (induction s rule: Serial_Task.induct)
  case (1 s)
  show ?case
  proof (cases "buffer_tail s = buffer_head s")
    case True
    then have "pending s = []" by (simp add: pending_empty)
    then show ?thesis using True by (simp add: Serial_Task.simps [of s])
  next
    case False
    then have p: "pending s = rx_front s # pending (rx_advance s)"
      using pending_rx_advance pending_empty by blast
    show ?thesis
    proof (cases "Serial_char (rx_front s) s")
      case (Inl e)
      then show ?thesis using False p
        by (simp add: Serial_Task.simps [of s] Serial_step_def rx_front_def)
    next
      case (Inr t)
      let ?t = "t\<lparr>buffer_tail := buffer_tail t + 1\<rparr>"
      have q: "buffer t = buffer s" "buffer_head t = buffer_head s" "buffer_tail t = buffer_tail s"
        using Serial_char_queue [OF Inr] by auto
      have st: "Serial_step s = Inr ?t"
        using Inr by (simp add: Serial_step_def rx_front_def)
      have "pending ?t = pending (rx_advance s)"
        by (rule pending_cong) (simp_all add: q rx_advance_def)
      with 1 [OF False st] False st Inr p q show ?thesis
        by (simp add: Serial_Task.simps [of s] Serial_chars_tail split: sum.splits)
    qed
  qed
qed

subsection \<open>The host's encoding\<close>

text \<open>\<^verbatim>\<open>bridge.py\<close> packs the state with \<^verbatim>\<open>struct.pack('>BHBBBB', ...)\<close> and sends
  \<^verbatim>\<open>binascii.hexlify(rawbytes) + b'\n'\<close>.\<close>

definition hex_char :: "u8 \<Rightarrow> u8" where
  "hex_char d = (if d < 10 then 0x30 + d else 0x61 + (d - 10))"

definition nibbles :: "u8 list \<Rightarrow> u8 list" where
  "nibbles bs = concat (map (\<lambda>x. [drop_bit 4 x, x AND 0xF]) bs)"

definition hexlify :: "u8 list \<Rightarrow> u8 list" where
  "hexlify bs = map hex_char (nibbles bs)"

definition pad_bytes :: "pad \<Rightarrow> u8 list" where
  "pad_bytes p = [pad_HAT p, hi8 (pad_Button p), lo8 (pad_Button p), pad_LX p, pad_LY p,
                  pad_RX p, pad_RY p]"

definition bridge_message :: "pad \<Rightarrow> u8 list" where
  "bridge_message p = hexlify (pad_bytes p) @ [0x0A]"

lemma u8_less_16_cases:
  assumes "(d :: u8) < 16"
  shows "d \<in> {0, 1, 2, 3, 4, 5, 6, 7, 8, 9, 10, 11, 12, 13, 14, 15}"
proof -
  have "unat d < 16" using assms by (simp add: word_less_nat_alt)
  then have "unat d \<in> {0, 1, 2, 3, 4, 5, 6, 7, 8, 9, 10, 11, 12, 13, 14, 15}"
    unfolding insert_iff empty_iff by presburger
  then show ?thesis by (elim insertE emptyE) (simp_all add: word_unat_eq_iff)
qed

lemma hex_val_hex_char:
  assumes "d < 16"
  shows "hex_val (hex_char d) = d" and "hex_char d \<noteq> 0x0D" and "hex_char d \<noteq> 0x0A" and "d \<noteq> 0xff"
proof -
  from u8_less_16_cases [OF assms]
  have "hex_val (hex_char d) = d \<and> hex_char d \<noteq> 0x0D \<and> hex_char d \<noteq> 0x0A \<and> d \<noteq> 0xff"
    by (elim insertE emptyE) (simp_all add: hex_val_def hex_char_def)
  then show "hex_val (hex_char d) = d" and "hex_char d \<noteq> 0x0D" and "hex_char d \<noteq> 0x0A"
    and "d \<noteq> 0xff" by auto
qed

lemma line_run_digits:
  "\<forall>d \<in> set ds. d < 16 \<Longrightarrow> length es + length ds \<le> 14 \<Longrightarrow>
     line_run (map hex_char ds) (p, es) = Some (p, es @ ds)"
proof (induction ds arbitrary: es)
  case Nil
  then show ?case by simp
next
  case (Cons d ds)
  then show ?case
    using hex_val_hex_char [of d] by (simp add: line_spec_def)
qed

lemma unat_drop_bit4_less: "unat (drop_bit 4 (x :: u8)) < 16"
  using unat_u8_less [of x] by (simp add: drop_bit_eq_div unat_div div_less_iff_less_mult)

lemma nibble_less: "drop_bit 4 x < (16 :: u8)" "x AND 0xF < (16 :: u8)"
proof -
  show "drop_bit 4 x < (16 :: u8)"
    using unat_drop_bit4_less [of x] by (simp add: word_less_nat_alt)
  have "x AND 0xF \<le> (0xF :: u8)" by (rule word_and_le1)
  then show "x AND 0xF < (16 :: u8)" by (rule order.strict_trans1) simp
qed

lemma nibbles_less: "d \<in> set (nibbles bs) \<Longrightarrow> d < 16"
  by (auto simp: nibbles_def nibble_less)

lemma length_nibbles: "length (nibbles bs) = 2 * length bs"
  by (induction bs) (auto simp: nibbles_def)

lemma nth_nibbles:
  "i < length bs \<Longrightarrow> nibbles bs ! (2 * i) = drop_bit 4 (bs ! i) \<and>
     nibbles bs ! (2 * i + 1) = bs ! i AND 0xF"
proof (induction bs arbitrary: i)
  case Nil
  then show ?case by simp
next
  case (Cons x bs)
  then show ?case by (cases i) (auto simp: nibbles_def)
qed

lemma nibble_join: "push_bit 4 (drop_bit 4 x) OR (x AND 0xF) = (x :: u8)"
proof -
  have m: "(0xF :: u8) = mask 4" by (simp add: mask_eq_exp_minus_1)
  show ?thesis
    unfolding m by (rule bit_word_eqI) (auto simp: bit_simps)
qed

lemma pack_nibbles:
  assumes "length bs = 7"
  shows "pack (nibbles bs) = bs"
proof (rule nth_equalityI)
  fix i
  assume "i < length (pack (nibbles bs))"
  then have "i < 7" by simp
  with assms nth_nibbles [of i bs] show "pack (nibbles bs) ! i = bs ! i"
    by (simp add: nth_pack digit_at_def length_nibbles nibble_join)
qed (simp add: assms)

lemma pad_of_bytes_pad_bytes: "pad_of_bytes (pad_bytes p) = p"
  by (simp add: pad_of_bytes_def pad_bytes_def)

lemma line_run_message: "line_run (bridge_message p) (q, []) = Some (p, [])"
proof -
  have "line_run (hexlify (pad_bytes p)) (q, []) = Some (q, nibbles (pad_bytes p))"
    unfolding hexlify_def
    by (subst line_run_digits) (auto dest: nibbles_less simp: length_nibbles pad_bytes_def)
  moreover have "pack (nibbles (pad_bytes p)) = pad_bytes p"
    by (rule pack_nibbles) (simp add: pad_bytes_def)
  moreover have "length (nibbles (pad_bytes p)) = 14"
    by (simp add: length_nibbles pad_bytes_def)
  ultimately show ?thesis
    by (simp add: bridge_message_def line_run_append line_spec_def pad_of_bytes_pad_bytes)
qed

subsection \<open>Interrupt and task interleaved\<close>

text \<open>
  The interrupt runs between any two iterations of \<^verbatim>\<open>Serial_Task\<close>'s loop. \<open>serial_exec rs cs s\<close>
  says that from power-up the bytes \<open>rs\<close> were received, the bytes \<open>cs\<close> decoded, and the globals
  are \<open>s\<close>. The interrupt is taken only while a byte of the buffer is free, which the bridge
  ensures by waiting for the firmware's \<^verbatim>\<open>U\<close> before it sends the next message.
\<close>

inductive serial_exec :: "u8 list \<Rightarrow> u8 list \<Rightarrow> joystick \<Rightarrow> bool" where
  power_up: "serial_exec [] [] joystick_init"
| receive: "serial_exec rs cs s \<Longrightarrow> length (pending s) < 255 \<Longrightarrow>
     serial_exec (rs @ [c]) cs (rx_store c s)"
| decode: "serial_exec rs cs s \<Longrightarrow> buffer_tail s \<noteq> buffer_head s \<Longrightarrow> Serial_step s = Inr t \<Longrightarrow>
     serial_exec rs (cs @ [rx_front s]) t"

definition pad0 :: pad where
  "pad0 = \<lparr>pad_HAT = 0, pad_Button = 0, pad_LX = 0, pad_LY = 0, pad_RX = 0, pad_RY = 0\<rparr>"

lemma line_rel_init: "line_rel (pad0, []) joystick_init"
  by (simp add: line_rel_def pad_of_def pad0_def joystick_init_def pack_Nil)

lemma line_rel_queue [simp]:
  "line_rel a (s\<lparr>buffer_tail := i\<rparr>) = line_rel a s" "line_rel a (rx_store c s) = line_rel a s"
  by (auto simp: line_rel_def pad_of_def rx_store_def split: prod.splits)

lemma Serial_step_cases:
  assumes "Serial_step s = Inr t"
  obtains u where "Serial_char (rx_front s) s = Inr u" "t = u\<lparr>buffer_tail := buffer_tail s + 1\<rparr>"
    "buffer u = buffer s" "buffer_head u = buffer_head s" "buffer_tail u = buffer_tail s"
  using assms by (auto simp: Serial_step_def rx_front_def split: sum.splits dest: Serial_char_queue)

lemma serial_exec_inv:
  "serial_exec rs cs s \<Longrightarrow>
     buffer_ok s \<and> rs = cs @ pending s \<and> (\<exists>a. line_run cs (pad0, []) = Some a \<and> line_rel a s)"
proof (induction rule: serial_exec.induct)
  case power_up
  show ?case
    by (simp add: buffer_ok_def pending_def line_rel_init) (simp add: joystick_init_def)
next
  case (receive rs cs s c)
  then show ?case by (auto simp: usart.put_content usart.put_invar)
next
  case (decode rs cs s t)
  then obtain a where ok: "buffer_ok s" and rs: "rs = cs @ pending s"
    and a: "line_run cs (pad0, []) = Some a" "line_rel a s" by auto
  from decode.hyps(3) obtain u where u: "Serial_char (rx_front s) s = Inr u"
    "t = u\<lparr>buffer_tail := buffer_tail s + 1\<rparr>"
    "buffer u = buffer s" "buffer_head u = buffer_head s" "buffer_tail u = buffer_tail s"
    by (rule Serial_step_cases)
  have p: "pending s = rx_front s # pending (rx_advance s)"
    using decode.hyps(2) pending_rx_advance pending_empty by blast
  have "pending t = pending (rx_advance s)"
    by (rule pending_cong) (simp_all add: u rx_advance_def)
  moreover have "\<exists>a'. line_spec (rx_front s) a = Some a' \<and> line_rel a' t"
    using Serial_char_refines [of "fst a" "snd a" s "rx_front s"] a(2) u(1,2) by auto
  ultimately show ?case using ok rs p a(1) u by (auto simp: buffer_ok_def line_run_append)
qed

inductive_cases serial_exec_NilE: "serial_exec [] cs s"

lemma joystick_init_queue [simp]:
  "buffer_head joystick_init = 0" "buffer_tail joystick_init = 0" "length (buffer joystick_init) = 256"
  by (simp_all add: joystick_init_def)

lemma buffer_ok_init: "buffer_ok joystick_init" "pending joystick_init = []"
  by (simp_all add: buffer_ok_def pending_def)

lemma u8_diff_255: "(a :: u8) - b = 255 \<longleftrightarrow> a + 1 = b"
proof
  assume "a - b = 255"
  then have "a - b + (b + 1) = 255 + (b + 1)" by (rule arg_cong)
  then show "a + 1 = b" by simp
next
  assume "a + 1 = b"
  then have "a - b = a - (a + 1)" by (rule arg_cong [OF sym])
  then show "a - b = 255" by simp
qed

lemma rx_full_iff: "length (pending s) = 255 \<longleftrightarrow> buffer_head s + 1 = buffer_tail s"
proof -
  have "length (pending s) = 255 \<longleftrightarrow> buffer_head s - buffer_tail s = 255"
    by (simp add: word_unat_eq_iff)
  then show ?thesis by (simp only: u8_diff_255)
qed

lemma rx_store_full: "length (pending s) = 255 \<Longrightarrow> pending (rx_store c s) = []"
  by (simp only: rx_full_iff pending_empty) (simp add: rx_store_def)

lemma rx_overrun_iff: "rx_overrun s \<longleftrightarrow> buffer_head s + 1 = buffer_tail s \<and> buffer_tail s \<noteq> 0"
proof -
  have aux: "h + 1 = t \<longleftrightarrow> (if h = 255 then 0 else h + 1) = t \<and> t \<noteq> 0" if "t < 256" for h t :: nat
    using that by auto
  have "rx_overrun s \<longleftrightarrow> unat (buffer_head s) + 1 = unat (buffer_tail s)"
    unfolding rx_overrun_def uint_nat by linarith
  also have "\<dots> \<longleftrightarrow> unat (buffer_head s + 1) = unat (buffer_tail s) \<and> unat (buffer_tail s) \<noteq> 0"
    unfolding unat_u8_plus1 using aux [OF unat_u8_less] .
  finally show ?thesis by (simp only: word_unat_eq_iff [symmetric] unat_eq_0)
qed

lemma line_run_overlong:
  assumes "length ds = 15" and "\<forall>d \<in> set ds. d < 16"
  shows "line_run (map hex_char ds @ cs) (q, []) = None"
proof -
  obtain es d where ds: "ds = es @ [d]" using assms(1) by (cases ds rule: rev_cases) auto
  have "line_run (map hex_char es) (q, []) = Some (q, es)"
    using line_run_digits [of es "[]" q] assms ds by simp
  then show ?thesis
    using assms ds hex_val_hex_char [of d] by (simp add: line_run_append line_spec_def)
qed

lemma message_decoded:
  assumes "buffer_ok s" and "pending s = []" and "line_rel (q, []) s"
  shows "\<exists>t. Serial_Task (fold rx_store (bridge_message p) s) = Inr t \<and>
             pad_of t = p \<and> line_rel (p, []) t \<and> pending t = []"
proof -
  let ?s = "fold rx_store (bridge_message p) s"
  have len: "length (bridge_message p) = 15"
    by (simp add: bridge_message_def hexlify_def length_nibbles pad_bytes_def)
  have pend: "pending ?s = bridge_message p"
    using usart.put_all_invar_content [of s "bridge_message p"] assms(1,2) len by simp
  have "line_rel (q, []) (fold rx_store cs s)" for cs
    using assms(3) by (induction cs arbitrary: s) auto
  from Serial_chars_refines [OF this [of "bridge_message p"], of "bridge_message p"] obtain u
    where u: "Serial_chars (bridge_message p) ?s = Inr u" "line_rel (p, []) u"
    by (auto simp: line_run_message split: sum.splits)
  let ?t = "u\<lparr>buffer_tail := buffer_head ?s\<rparr>"
  have "Serial_Task ?s = Inr ?t" using u pend by (simp add: Serial_Task_pending)
  moreover have "buffer_head ?t = buffer_head ?s"
    using u(1) by (auto intro: Serial_chars_head)
  ultimately show ?thesis using u(2) by (auto simp: line_rel_def pad_of_def pending_empty)
qed

lemma rx_store_head: "buffer_head (fold rx_store cs s) = buffer_head s + of_nat (length cs)"
  by (induction cs arbitrary: s) (simp_all add: rx_store_def)

lemma rx_store_tail: "buffer_tail (fold rx_store cs s) = buffer_tail s"
  by (induction cs arbitrary: s) (simp_all add: rx_store_def)

lemma no_overrun:
  assumes "pending s = []" and "length cs < 255"
  shows "\<not> rx_overrun (fold rx_store cs s)"
proof -
  have "buffer_head s = buffer_tail s" using assms(1) by (simp add: pending_empty)
  moreover have "of_nat (length cs) + 1 \<noteq> (0 :: u8)"
  proof
    assume "of_nat (length cs) + 1 = (0 :: u8)"
    then have "of_nat (length cs + 1) = (0 :: u8)" by (simp only: of_nat_add of_nat_1)
    then have "unat (of_nat (length cs + 1) :: u8) = 0" by (simp only: unat_0)
    moreover have "(length cs + 1) mod 256 = length cs + 1" using assms(2) by (intro mod_less) simp
    ultimately show False by (simp only: unat_of_nat) simp
  qed
  ultimately show ?thesis by (simp add: rx_overrun_iff rx_store_head rx_store_tail add.assoc)
qed

subsection \<open>Properties\<close>

text \<open>C6: A controller state sent by the bridge arrives unchanged. If the receive buffer is empty and
  the decoder is at the start of a line, then after the interrupt has stored the bytes of the
  message for the state \<open>p\<close> and \<^verbatim>\<open>Serial_Task\<close> has run, the six globals hold exactly \<open>p\<close>, the
  decoder is again at the start of a line and the buffer is empty again.\<close>

theorem serial_roundtrip:
  assumes "buffer_ok s" and "pending s = []" and "line_rel (q, []) s"
  shows "\<exists>t. Serial_Task (fold rx_store (bridge_message p) s) = Inr t \<and>
             pad_of t = p \<and> line_rel (p, []) t \<and> pending t = []"
  using assms by (rule message_decoded)

theorem serial_roundtrip_witness:
  "buffer_ok joystick_init \<and> pending joystick_init = [] \<and> line_rel (pad0, []) joystick_init \<and>
   (\<exists>t. Serial_Task (fold rx_store (bridge_message
          \<lparr>pad_HAT = 8, pad_Button = 0x2004, pad_LX = 0x80, pad_LY = 0x80, pad_RX = 0xFF, pad_RY = 0\<rparr>)
          joystick_init) = Inr t \<and> buttons t = 0x2004 \<and> RX2 t = 0xFF)"
  using serial_roundtrip [OF buffer_ok_init line_rel_init, of
      "\<lparr>pad_HAT = 8, pad_Button = 0x2004, pad_LX = 0x80, pad_LY = 0x80, pad_RX = 0xFF, pad_RY = 0\<rparr>"]
    buffer_ok_init line_rel_init
  by (auto simp: pad_of_def)

text \<open>C8: \<^verbatim>\<open>Serial_Task\<close> implements the line protocol. From any state that represents the abstract
  state \<open>a\<close>, it either returns in a state that represents what the specification computes from
  \<open>a\<close> and the queued bytes, with the queue empty, or, exactly when the specification gives no
  result, it has written \<^verbatim>\<open>b[7]\<close>.\<close>

theorem Serial_Task_refines:
  assumes "line_rel a s"
  shows "case Serial_Task s of
           Inr t \<Rightarrow> pending t = [] \<and> (\<exists>a'. line_run (pending s) a = Some a' \<and> line_rel a' t)
         | Inl e \<Rightarrow> line_run (pending s) a = None \<and> e = OutOfBounds 7"
proof (cases "Serial_chars (pending s) s")
  case (Inl e)
  then show ?thesis
    using Serial_chars_refines [OF assms, of "pending s"] by (simp add: Serial_Task_pending)
next
  case (Inr t)
  then have "pending (t\<lparr>buffer_tail := buffer_head s\<rparr>) = []"
    using Serial_chars_head by (simp add: pending_empty)
  with Inr show ?thesis
    using Serial_chars_refines [OF assms, of "pending s"] by (simp add: Serial_Task_pending)
qed

theorem Serial_Task_refines_witness:
  "line_rel (pad0, []) joystick_init \<and> (\<exists>t. Serial_Task joystick_init = Inr t \<and> pending t = [])"
  using Serial_Task_refines [OF line_rel_init] line_rel_init
  by (simp add: Serial_Task.simps [of joystick_init])

text \<open>A line of more than fourteen hexadecimal digits makes \<^verbatim>\<open>Serial_Task\<close> write past the end
  of its seven-byte array: whatever follows, the fifteenth digit is stored to \<^verbatim>\<open>b[7]\<close>.\<close>

theorem Serial_Task_overlong_line:
  assumes "line_rel (q, []) s" and "pending s = map hex_char ds @ cs"
    and "length ds = 15" and "\<forall>d \<in> set ds. d < 16"
  shows "Serial_Task s = Inl (OutOfBounds 7)"
proof -
  have "line_run (pending s) (q, []) = None"
    unfolding assms(2) by (rule line_run_overlong [OF assms(3,4)])
  with Serial_chars_refines [OF assms(1), of "pending s"] show ?thesis
    by (simp add: Serial_Task_pending split: sum.splits)
qed

theorem Serial_Task_overlong_line_witness:
  "Serial_Task (fold rx_store (map hex_char (replicate 15 1)) joystick_init) = Inl (OutOfBounds 7)"
proof -
  let ?ds = "replicate 15 1 :: u8 list"
  have rel: "line_rel (pad0, []) (fold rx_store cs joystick_init)" for cs
    by (induction cs rule: rev_induct) (auto simp: line_rel_init)
  have "length ?ds = 15" by simp
  moreover from this have "pending (fold rx_store (map hex_char ?ds) joystick_init) = map hex_char ?ds"
    using usart.put_all_invar_content [of joystick_init "map hex_char ?ds"] buffer_ok_init
    by (simp del: replicate.simps)
  ultimately show ?thesis
    using Serial_Task_overlong_line [OF rel, of "map hex_char ?ds" ?ds "[]"]
    by (simp del: replicate.simps)
qed

text \<open>C27: The overrun report is incomplete. The interrupt reports an overrun exactly when the buffer
  is full and the tail index is not zero; but storing into a full buffer always drops all 255
  queued bytes, also when the tail index is zero.\<close>

theorem rx_overrun_report:
  "(rx_overrun s \<longleftrightarrow> length (pending s) = 255 \<and> buffer_tail s \<noteq> 0) \<and>
   (length (pending s) = 255 \<longrightarrow> pending (rx_store c s) = [])"
  using rx_full_iff rx_overrun_iff rx_store_full by blast

theorem rx_overrun_report_witness:
  "length (pending (joystick_init\<lparr>buffer_head := 255\<rparr>)) = 255 \<and>
   \<not> rx_overrun (joystick_init\<lparr>buffer_head := 255\<rparr>) \<and>
   pending (rx_store 0x30 (joystick_init\<lparr>buffer_head := 255\<rparr>)) = []"
  using rx_overrun_report [of "joystick_init\<lparr>buffer_head := 255\<rparr>" "0x30"] by simp

text \<open>C7: However the interrupt and the decoding loop interleave, as long as every byte finds room
  in the buffer: the bytes received are the bytes decoded followed by the queued ones, and the six
  globals are what the line protocol computes from the decoded bytes.\<close>

theorem serial_exec_sound:
  assumes "serial_exec rs cs s"
  shows "rs = cs @ pending s \<and> (\<exists>ds. line_run cs (pad0, []) = Some (pad_of s, ds) \<and> length ds \<le> 14)"
  using serial_exec_inv [OF assms] by (auto simp: line_rel_def)

theorem serial_exec_sound_witness:
  "serial_exec ([] @ [0x0A]) [] (rx_store 0x0A joystick_init) \<and>
   [0x0A] = [] @ pending (rx_store 0x0A joystick_init)"
proof -
  have "serial_exec ([] @ [0x0A]) [] (rx_store 0x0A joystick_init)"
    by (rule serial_exec.receive [OF serial_exec.power_up]) (simp add: buffer_ok_init)
  with serial_exec_sound [OF this] show ?thesis by simp
qed

end
