(* ===== verification/StdDescriptors.thy ===== *)
theory StdDescriptors
  imports Prelude
begin

text \<open>
  The standard USB descriptors of \<^verbatim>\<open>LUFA/Drivers/USB/Core/StdDescriptors.h\<close>, the HID class
  descriptor of \<^verbatim>\<open>Class/Common/HIDClassCommon.h\<close> and the report item macros of
  \<^verbatim>\<open>Class/Common/HIDReportData.h\<close>. Each packed C struct is a record, and a function
  \<open>bytes_of_...\<close> gives the bytes the struct occupies in the flash memory of the AVR, which
  stores 16-bit values little endian. Field names carry a short prefix where the C structs reuse
  a name.
\<close>

subsection \<open>Macros\<close>

definition NO_DESCRIPTOR :: u8 where "NO_DESCRIPTOR = 0"
definition LANGUAGE_ID_ENG :: u16 where "LANGUAGE_ID_ENG = 0x0409"

definition USB_CONFIG_POWER_MA :: "u16 \<Rightarrow> u8" where
  "USB_CONFIG_POWER_MA mA = ucast (drop_bit 1 mA)"

definition VERSION_BCD :: "u16 \<Rightarrow> u16 \<Rightarrow> u16 \<Rightarrow> u16" where
  "VERSION_BCD Major Minor Revision =
     push_bit 8 (Major AND 0xFF) OR push_bit 4 (Minor AND 0x0F) OR (Revision AND 0x0F)"

definition DTYPE_Device :: u8 where "DTYPE_Device = 0x01"
definition DTYPE_Configuration :: u8 where "DTYPE_Configuration = 0x02"
definition DTYPE_String :: u8 where "DTYPE_String = 0x03"
definition DTYPE_Interface :: u8 where "DTYPE_Interface = 0x04"
definition DTYPE_Endpoint :: u8 where "DTYPE_Endpoint = 0x05"
definition DTYPE_HID :: u8 where "DTYPE_HID = 0x21"
definition DTYPE_Report :: u8 where "DTYPE_Report = 0x22"

lemmas dtype_defs = NO_DESCRIPTOR_def DTYPE_Device_def DTYPE_Configuration_def DTYPE_String_def
  DTYPE_Interface_def DTYPE_Endpoint_def DTYPE_HID_def DTYPE_Report_def

subsection \<open>Structures\<close>

record USB_Descriptor_Header_t =
  Size :: u8
  Type :: u8

definition bytes_of_Header :: "USB_Descriptor_Header_t \<Rightarrow> u8 list" where
  "bytes_of_Header h = [Size h, Type h]"

record USB_Descriptor_Device_t =
  Dev_Header :: USB_Descriptor_Header_t
  USBSpecification :: u16
  Dev_Class :: u8
  Dev_SubClass :: u8
  Dev_Protocol :: u8
  Endpoint0Size :: u8
  VendorID :: u16
  ProductID :: u16
  ReleaseNumber :: u16
  ManufacturerStrIndex :: u8
  ProductStrIndex :: u8
  SerialNumStrIndex :: u8
  NumberOfConfigurations :: u8

definition bytes_of_Device :: "USB_Descriptor_Device_t \<Rightarrow> u8 list" where
  "bytes_of_Device d = bytes_of_Header (Dev_Header d) @ le16 (USBSpecification d) @
     [Dev_Class d, Dev_SubClass d, Dev_Protocol d, Endpoint0Size d] @
     le16 (VendorID d) @ le16 (ProductID d) @ le16 (ReleaseNumber d) @
     [ManufacturerStrIndex d, ProductStrIndex d, SerialNumStrIndex d, NumberOfConfigurations d]"

record USB_Descriptor_Configuration_Header_t =
  Cfg_Header :: USB_Descriptor_Header_t
  TotalConfigurationSize :: u16
  TotalInterfaces :: u8
  ConfigurationNumber :: u8
  ConfigurationStrIndex :: u8
  ConfigAttributes :: u8
  MaxPowerConsumption :: u8

definition bytes_of_Configuration_Header :: "USB_Descriptor_Configuration_Header_t \<Rightarrow> u8 list" where
  "bytes_of_Configuration_Header c = bytes_of_Header (Cfg_Header c) @ le16 (TotalConfigurationSize c) @
     [TotalInterfaces c, ConfigurationNumber c, ConfigurationStrIndex c, ConfigAttributes c,
      MaxPowerConsumption c]"

record USB_Descriptor_Interface_t =
  If_Header :: USB_Descriptor_Header_t
  InterfaceNumber :: u8
  AlternateSetting :: u8
  TotalEndpoints :: u8
  If_Class :: u8
  If_SubClass :: u8
  If_Protocol :: u8
  InterfaceStrIndex :: u8

definition bytes_of_Interface :: "USB_Descriptor_Interface_t \<Rightarrow> u8 list" where
  "bytes_of_Interface i = bytes_of_Header (If_Header i) @
     [InterfaceNumber i, AlternateSetting i, TotalEndpoints i, If_Class i, If_SubClass i,
      If_Protocol i, InterfaceStrIndex i]"

record USB_Descriptor_Endpoint_t =
  Ep_Header :: USB_Descriptor_Header_t
  EndpointAddress :: u8
  Attributes :: u8
  EndpointSize :: u16
  PollingIntervalMS :: u8

definition bytes_of_Endpoint :: "USB_Descriptor_Endpoint_t \<Rightarrow> u8 list" where
  "bytes_of_Endpoint e = bytes_of_Header (Ep_Header e) @ [EndpointAddress e, Attributes e] @
     le16 (EndpointSize e) @ [PollingIntervalMS e]"

text \<open>A string descriptor has a flexible array of 16-bit characters; a descriptor initialised from a
  wide string literal also stores the terminating zero, which \<open>Size\<close> does not count.\<close>

record USB_Descriptor_String_t =
  Str_Header :: USB_Descriptor_Header_t
  UnicodeString :: "u16 list"

definition bytes_of_String :: "USB_Descriptor_String_t \<Rightarrow> u8 list" where
  "bytes_of_String s = bytes_of_Header (Str_Header s) @ concat (map le16 (UnicodeString s))"

definition USB_STRING_DESCRIPTOR :: "u16 list \<Rightarrow> USB_Descriptor_String_t" where
  "USB_STRING_DESCRIPTOR cs =
     \<lparr>Str_Header = \<lparr>Size = of_nat (2 + (2 * length (cs @ [0]) - 2)), Type = DTYPE_String\<rparr>,
      UnicodeString = cs @ [0]\<rparr>"

definition USB_STRING_DESCRIPTOR_ARRAY :: "u16 \<Rightarrow> USB_Descriptor_String_t" where
  "USB_STRING_DESCRIPTOR_ARRAY c =
     \<lparr>Str_Header = \<lparr>Size = 2 + 2, Type = DTYPE_String\<rparr>, UnicodeString = [c]\<rparr>"

record USB_HID_Descriptor_HID_t =
  Hid_Header :: USB_Descriptor_Header_t
  HIDSpec :: u16
  CountryCode :: u8
  TotalReportDescriptors :: u8
  HIDReportType :: u8
  HIDReportLength :: u16

definition bytes_of_HID :: "USB_HID_Descriptor_HID_t \<Rightarrow> u8 list" where
  "bytes_of_HID h = bytes_of_Header (Hid_Header h) @ le16 (HIDSpec h) @
     [CountryCode h, TotalReportDescriptors h, HIDReportType h] @ le16 (HIDReportLength h)"

lemmas bytes_of_defs = bytes_of_Header_def bytes_of_Device_def bytes_of_Configuration_Header_def
  bytes_of_Interface_def bytes_of_Endpoint_def bytes_of_HID_def

lemma sizeof_descriptors [simp]:
  shows "length (bytes_of_Header h) = 2" and "length (bytes_of_Device d) = 18"
    and "length (bytes_of_Configuration_Header c) = 9" and "length (bytes_of_Interface i) = 9"
    and "length (bytes_of_Endpoint e) = 7" and "length (bytes_of_HID r) = 9"
  by (simp_all add: bytes_of_defs)

lemma length_concat_le16 [simp]: "length (concat (map le16 cs)) = 2 * length cs"
  by (induction cs) auto

lemma sizeof_String: "length (bytes_of_String s) = 2 + 2 * length (UnicodeString s)"
  by (simp add: bytes_of_String_def)

subsection \<open>Report descriptor items\<close>

text \<open>\<open>HID_RI_ENTRY\<close> is the macro \<^verbatim>\<open>_HID_RI_ENTRY\<close>: a prefix byte with type, tag and data size,
  then the data, least significant byte first.\<close>

definition HID_RI_DATA_BITS :: "nat \<Rightarrow> u8" where
  "HID_RI_DATA_BITS bits = (if bits = 8 then 1 else if bits = 16 then 2 else if bits = 32 then 3 else 0)"

definition HID_RI_ENCODE :: "nat \<Rightarrow> u32 \<Rightarrow> u8 list" where
  "HID_RI_ENCODE bits d =
     (if bits = 8 then [byte32 0 d]
      else if bits = 16 then [byte32 0 d, byte32 1 d]
      else if bits = 32 then [byte32 0 d, byte32 1 d, byte32 2 d, byte32 3 d]
      else [])"

definition HID_RI_ENTRY :: "u8 \<Rightarrow> u8 \<Rightarrow> nat \<Rightarrow> u32 \<Rightarrow> u8 list" where
  "HID_RI_ENTRY ty tag bits d = (ty OR tag OR HID_RI_DATA_BITS bits) # HID_RI_ENCODE bits d"

definition HID_RI_TYPE_MAIN :: u8 where "HID_RI_TYPE_MAIN = 0x00"
definition HID_RI_TYPE_GLOBAL :: u8 where "HID_RI_TYPE_GLOBAL = 0x04"
definition HID_RI_TYPE_LOCAL :: u8 where "HID_RI_TYPE_LOCAL = 0x08"

definition HID_RI_INPUT where "HID_RI_INPUT = HID_RI_ENTRY HID_RI_TYPE_MAIN 0x80"
definition HID_RI_OUTPUT where "HID_RI_OUTPUT = HID_RI_ENTRY HID_RI_TYPE_MAIN 0x90"
definition HID_RI_COLLECTION where "HID_RI_COLLECTION = HID_RI_ENTRY HID_RI_TYPE_MAIN 0xA0"
definition HID_RI_FEATURE where "HID_RI_FEATURE = HID_RI_ENTRY HID_RI_TYPE_MAIN 0xB0"
definition HID_RI_END_COLLECTION where "HID_RI_END_COLLECTION = HID_RI_ENTRY HID_RI_TYPE_MAIN 0xC0"
definition HID_RI_USAGE_PAGE where "HID_RI_USAGE_PAGE = HID_RI_ENTRY HID_RI_TYPE_GLOBAL 0x00"
definition HID_RI_LOGICAL_MINIMUM where "HID_RI_LOGICAL_MINIMUM = HID_RI_ENTRY HID_RI_TYPE_GLOBAL 0x10"
definition HID_RI_LOGICAL_MAXIMUM where "HID_RI_LOGICAL_MAXIMUM = HID_RI_ENTRY HID_RI_TYPE_GLOBAL 0x20"
definition HID_RI_PHYSICAL_MINIMUM where "HID_RI_PHYSICAL_MINIMUM = HID_RI_ENTRY HID_RI_TYPE_GLOBAL 0x30"
definition HID_RI_PHYSICAL_MAXIMUM where "HID_RI_PHYSICAL_MAXIMUM = HID_RI_ENTRY HID_RI_TYPE_GLOBAL 0x40"
definition HID_RI_UNIT_EXPONENT where "HID_RI_UNIT_EXPONENT = HID_RI_ENTRY HID_RI_TYPE_GLOBAL 0x50"
definition HID_RI_UNIT where "HID_RI_UNIT = HID_RI_ENTRY HID_RI_TYPE_GLOBAL 0x60"
definition HID_RI_REPORT_SIZE where "HID_RI_REPORT_SIZE = HID_RI_ENTRY HID_RI_TYPE_GLOBAL 0x70"
definition HID_RI_REPORT_ID where "HID_RI_REPORT_ID = HID_RI_ENTRY HID_RI_TYPE_GLOBAL 0x80"
definition HID_RI_REPORT_COUNT where "HID_RI_REPORT_COUNT = HID_RI_ENTRY HID_RI_TYPE_GLOBAL 0x90"
definition HID_RI_PUSH where "HID_RI_PUSH = HID_RI_ENTRY HID_RI_TYPE_GLOBAL 0xA0"
definition HID_RI_POP where "HID_RI_POP = HID_RI_ENTRY HID_RI_TYPE_GLOBAL 0xB0"
definition HID_RI_USAGE where "HID_RI_USAGE = HID_RI_ENTRY HID_RI_TYPE_LOCAL 0x00"
definition HID_RI_USAGE_MINIMUM where "HID_RI_USAGE_MINIMUM = HID_RI_ENTRY HID_RI_TYPE_LOCAL 0x10"
definition HID_RI_USAGE_MAXIMUM where "HID_RI_USAGE_MAXIMUM = HID_RI_ENTRY HID_RI_TYPE_LOCAL 0x20"

lemmas hid_ri_type_defs = HID_RI_TYPE_MAIN_def HID_RI_TYPE_GLOBAL_def HID_RI_TYPE_LOCAL_def

lemmas hid_ri_defs = HID_RI_INPUT_def HID_RI_OUTPUT_def HID_RI_COLLECTION_def HID_RI_FEATURE_def
  HID_RI_END_COLLECTION_def HID_RI_USAGE_PAGE_def HID_RI_LOGICAL_MINIMUM_def
  HID_RI_LOGICAL_MAXIMUM_def HID_RI_PHYSICAL_MINIMUM_def HID_RI_PHYSICAL_MAXIMUM_def
  HID_RI_UNIT_EXPONENT_def HID_RI_UNIT_def HID_RI_REPORT_SIZE_def HID_RI_REPORT_ID_def
  HID_RI_REPORT_COUNT_def HID_RI_PUSH_def HID_RI_POP_def HID_RI_USAGE_def
  HID_RI_USAGE_MINIMUM_def HID_RI_USAGE_MAXIMUM_def

end
