(* ===== verification/Descriptors.thy ===== *)
theory Descriptors
  imports StdDescriptors
begin

text \<open>
  The descriptors of the firmware (\<^verbatim>\<open>Descriptors.c\<close>, \<^verbatim>\<open>Descriptors.h\<close>): the HID report
  descriptor of the pad, the device and configuration descriptors, the strings, and the callback
  \<^verbatim>\<open>CALLBACK_USB_GetDescriptor\<close> that hands them to the USB stack. An address in flash is an object
  with an offset (\<open>flash_ptr\<close>); \<open>flash_at\<close> gives the bytes of the object from that address on.
\<close>

subsection \<open>Constants\<close>

definition STRING_ID_Language :: u8 where "STRING_ID_Language = 0"
definition STRING_ID_Manufacturer :: u8 where "STRING_ID_Manufacturer = 1"
definition STRING_ID_Product :: u8 where "STRING_ID_Product = 2"
definition INTERFACE_ID_Joystick :: u8 where "INTERFACE_ID_Joystick = 0"

definition ENDPOINT_DIR_IN :: u8 where "ENDPOINT_DIR_IN = 0x80"
definition ENDPOINT_DIR_OUT :: u8 where "ENDPOINT_DIR_OUT = 0x00"
definition EP_TYPE_CONTROL :: u8 where "EP_TYPE_CONTROL = 0x00"
definition EP_TYPE_INTERRUPT :: u8 where "EP_TYPE_INTERRUPT = 0x03"

definition JOYSTICK_IN_EPADDR :: u8 where "JOYSTICK_IN_EPADDR = ENDPOINT_DIR_IN OR 1"
definition JOYSTICK_OUT_EPADDR :: u8 where "JOYSTICK_OUT_EPADDR = ENDPOINT_DIR_OUT OR 2"
definition JOYSTICK_EPSIZE :: u16 where "JOYSTICK_EPSIZE = 64"
definition FIXED_CONTROL_ENDPOINT_SIZE :: u8 where "FIXED_CONTROL_ENDPOINT_SIZE = 64"
definition FIXED_NUM_CONFIGURATIONS :: u8 where "FIXED_NUM_CONFIGURATIONS = 1"

lemmas string_id_defs = STRING_ID_Language_def STRING_ID_Manufacturer_def STRING_ID_Product_def

lemmas ep_defs = ENDPOINT_DIR_IN_def ENDPOINT_DIR_OUT_def EP_TYPE_CONTROL_def EP_TYPE_INTERRUPT_def
  JOYSTICK_IN_EPADDR_def JOYSTICK_OUT_EPADDR_def JOYSTICK_EPSIZE_def
  FIXED_CONTROL_ENDPOINT_SIZE_def FIXED_NUM_CONFIGURATIONS_def INTERFACE_ID_Joystick_def

subsection \<open>The report descriptor\<close>

definition JoystickReport :: "u8 list" where
  "JoystickReport =
     HID_RI_USAGE_PAGE 8 1 @
     HID_RI_USAGE 8 5 @
     HID_RI_COLLECTION 8 1 @
     \<comment> \<open>buttons\<close>
     HID_RI_LOGICAL_MINIMUM 8 0 @
     HID_RI_LOGICAL_MAXIMUM 8 1 @
     HID_RI_PHYSICAL_MINIMUM 8 0 @
     HID_RI_PHYSICAL_MAXIMUM 8 1 @
     HID_RI_REPORT_SIZE 8 1 @
     HID_RI_REPORT_COUNT 8 14 @
     HID_RI_USAGE_PAGE 8 9 @
     HID_RI_USAGE_MINIMUM 8 1 @
     HID_RI_USAGE_MAXIMUM 8 14 @
     HID_RI_INPUT 8 2 @
     HID_RI_REPORT_COUNT 8 2 @
     HID_RI_INPUT 8 1 @
     \<comment> \<open>HAT switch\<close>
     HID_RI_USAGE_PAGE 8 1 @
     HID_RI_LOGICAL_MAXIMUM 8 7 @
     HID_RI_PHYSICAL_MAXIMUM 16 315 @
     HID_RI_REPORT_SIZE 8 4 @
     HID_RI_REPORT_COUNT 8 1 @
     HID_RI_UNIT 8 20 @
     HID_RI_USAGE 8 57 @
     HID_RI_INPUT 8 66 @
     HID_RI_UNIT 8 0 @
     HID_RI_REPORT_COUNT 8 1 @
     HID_RI_INPUT 8 1 @
     \<comment> \<open>sticks\<close>
     HID_RI_LOGICAL_MAXIMUM 16 255 @
     HID_RI_PHYSICAL_MAXIMUM 16 255 @
     HID_RI_USAGE 8 48 @
     HID_RI_USAGE 8 49 @
     HID_RI_USAGE 8 50 @
     HID_RI_USAGE 8 53 @
     HID_RI_REPORT_SIZE 8 8 @
     HID_RI_REPORT_COUNT 8 4 @
     HID_RI_INPUT 8 2 @
     \<comment> \<open>vendor byte\<close>
     HID_RI_REPORT_SIZE 8 8 @
     HID_RI_REPORT_COUNT 8 1 @
     HID_RI_INPUT 8 1 @
     HID_RI_END_COLLECTION 0 0"

lemma JoystickReport_bytes:
  "JoystickReport =
     [0x05, 1, 0x09, 5, 0xA1, 1,
      0x15, 0, 0x25, 1, 0x35, 0, 0x45, 1, 0x75, 1, 0x95, 14, 0x05, 9, 0x19, 1, 0x29, 14, 0x81, 2,
      0x95, 2, 0x81, 1,
      0x05, 1, 0x25, 7, 0x46, 0x3B, 1, 0x75, 4, 0x95, 1, 0x65, 20, 0x09, 57, 0x81, 66,
      0x65, 0, 0x95, 1, 0x81, 1,
      0x26, 0xFF, 0, 0x46, 0xFF, 0, 0x09, 48, 0x09, 49, 0x09, 50, 0x09, 53, 0x75, 8, 0x95, 4,
      0x81, 2, 0x75, 8, 0x95, 1, 0x81, 1, 0xC0]"
  by (simp add: JoystickReport_def hid_ri_defs hid_ri_type_defs HID_RI_ENTRY_def HID_RI_ENCODE_def
      HID_RI_DATA_BITS_def byte32_def)

lemma sizeof_JoystickReport: "length JoystickReport = 80"
  by (simp add: JoystickReport_bytes)

subsection \<open>Device, configuration and string descriptors\<close>

definition DeviceDescriptor :: USB_Descriptor_Device_t where
  "DeviceDescriptor =
     \<lparr>Dev_Header = \<lparr>Size = 18, Type = DTYPE_Device\<rparr>,
      USBSpecification = VERSION_BCD 2 0 0,
      Dev_Class = 0, Dev_SubClass = 0, Dev_Protocol = 0,
      Endpoint0Size = FIXED_CONTROL_ENDPOINT_SIZE,
      VendorID = 0x0F0D, ProductID = 0x00C1, ReleaseNumber = VERSION_BCD 5 7 2,
      ManufacturerStrIndex = STRING_ID_Manufacturer, ProductStrIndex = STRING_ID_Product,
      SerialNumStrIndex = NO_DESCRIPTOR, NumberOfConfigurations = FIXED_NUM_CONFIGURATIONS\<rparr>"

record USB_Descriptor_Configuration_t =
  Config :: USB_Descriptor_Configuration_Header_t
  HID_Interface :: USB_Descriptor_Interface_t
  HID_JoystickHID :: USB_HID_Descriptor_HID_t
  HID_ReportOUTEndpoint :: USB_Descriptor_Endpoint_t
  HID_ReportINEndpoint :: USB_Descriptor_Endpoint_t

definition bytes_of_Configuration :: "USB_Descriptor_Configuration_t \<Rightarrow> u8 list" where
  "bytes_of_Configuration c = bytes_of_Configuration_Header (Config c) @
     bytes_of_Interface (HID_Interface c) @ bytes_of_HID (HID_JoystickHID c) @
     bytes_of_Endpoint (HID_ReportOUTEndpoint c) @ bytes_of_Endpoint (HID_ReportINEndpoint c)"

definition ConfigurationDescriptor :: USB_Descriptor_Configuration_t where
  "ConfigurationDescriptor =
     \<lparr>Config =
        \<lparr>Cfg_Header = \<lparr>Size = 9, Type = DTYPE_Configuration\<rparr>,
         TotalConfigurationSize = 9 + 9 + 9 + 7 + 7, TotalInterfaces = 1,
         ConfigurationNumber = 1, ConfigurationStrIndex = NO_DESCRIPTOR,
         ConfigAttributes = 0x80, MaxPowerConsumption = USB_CONFIG_POWER_MA 250\<rparr>,
      HID_Interface =
        \<lparr>If_Header = \<lparr>Size = 9, Type = DTYPE_Interface\<rparr>,
         InterfaceNumber = INTERFACE_ID_Joystick, AlternateSetting = 0, TotalEndpoints = 2,
         If_Class = 3, If_SubClass = 0, If_Protocol = 0, InterfaceStrIndex = NO_DESCRIPTOR\<rparr>,
      HID_JoystickHID =
        \<lparr>Hid_Header = \<lparr>Size = 9, Type = DTYPE_HID\<rparr>,
         HIDSpec = VERSION_BCD 1 1 1, CountryCode = 0, TotalReportDescriptors = 1,
         HIDReportType = DTYPE_Report, HIDReportLength = of_nat (length JoystickReport)\<rparr>,
      HID_ReportOUTEndpoint =
        \<lparr>Ep_Header = \<lparr>Size = 7, Type = DTYPE_Endpoint\<rparr>,
         EndpointAddress = JOYSTICK_OUT_EPADDR, Attributes = EP_TYPE_INTERRUPT OR 0 OR 0,
         EndpointSize = JOYSTICK_EPSIZE, PollingIntervalMS = 5\<rparr>,
      HID_ReportINEndpoint =
        \<lparr>Ep_Header = \<lparr>Size = 7, Type = DTYPE_Endpoint\<rparr>,
         EndpointAddress = JOYSTICK_IN_EPADDR, Attributes = EP_TYPE_INTERRUPT OR 0 OR 0,
         EndpointSize = JOYSTICK_EPSIZE, PollingIntervalMS = 5\<rparr>\<rparr>"

definition wide :: "string \<Rightarrow> u16 list" where
  "wide s = map (\<lambda>c. of_nat (of_char c)) s"

definition LanguageString :: USB_Descriptor_String_t where
  "LanguageString = USB_STRING_DESCRIPTOR_ARRAY LANGUAGE_ID_ENG"
definition ManufacturerString :: USB_Descriptor_String_t where
  "ManufacturerString = USB_STRING_DESCRIPTOR (wide ''HORI CO.,LTD.'')"
definition ProductString :: USB_Descriptor_String_t where
  "ProductString = USB_STRING_DESCRIPTOR (wide ''HORIPAD S'')"

subsection \<open>The descriptor callback\<close>

datatype flash_object =
    DeviceDescriptor_obj | ConfigurationDescriptor_obj | LanguageString_obj
  | ManufacturerString_obj | ProductString_obj | JoystickReport_obj

type_synonym flash_ptr = "(flash_object \<times> nat) option"

fun flash_bytes :: "flash_object \<Rightarrow> u8 list" where
  "flash_bytes DeviceDescriptor_obj = bytes_of_Device DeviceDescriptor"
| "flash_bytes ConfigurationDescriptor_obj = bytes_of_Configuration ConfigurationDescriptor"
| "flash_bytes LanguageString_obj = bytes_of_String LanguageString"
| "flash_bytes ManufacturerString_obj = bytes_of_String ManufacturerString"
| "flash_bytes ProductString_obj = bytes_of_String ProductString"
| "flash_bytes JoystickReport_obj = JoystickReport"

fun flash_at :: "flash_ptr \<Rightarrow> u8 list" where
  "flash_at None = []"
| "flash_at (Some (ob, off)) = drop off (flash_bytes ob)"

definition CALLBACK_USB_GetDescriptor :: "u16 \<Rightarrow> u16 \<Rightarrow> u16 \<times> flash_ptr" where
  "CALLBACK_USB_GetDescriptor wValue wIndex =
     (let DescriptorType = hi8 wValue; DescriptorNumber = lo8 wValue in
      if DescriptorType = DTYPE_Device then (18, Some (DeviceDescriptor_obj, 0))
      else if DescriptorType = DTYPE_Configuration then (9 + 9 + 9 + 7 + 7, Some (ConfigurationDescriptor_obj, 0))
      else if DescriptorType = DTYPE_String then
        (if DescriptorNumber = STRING_ID_Language
         then (ucast (Size (Str_Header LanguageString)), Some (LanguageString_obj, 0))
         else if DescriptorNumber = STRING_ID_Manufacturer
         then (ucast (Size (Str_Header ManufacturerString)), Some (ManufacturerString_obj, 0))
         else if DescriptorNumber = STRING_ID_Product
         then (ucast (Size (Str_Header ProductString)), Some (ProductString_obj, 0))
         else (ucast NO_DESCRIPTOR, None))
      else if DescriptorType = DTYPE_HID then (9, Some (ConfigurationDescriptor_obj, 9 + 9))
      else if DescriptorType = DTYPE_Report then (of_nat (length JoystickReport), Some (JoystickReport_obj, 0))
      else (ucast NO_DESCRIPTOR, None))"

lemma ConfigurationDescriptor_bytes:
  "bytes_of_Configuration ConfigurationDescriptor =
     [9, 2, 41, 0, 1, 1, 0, 0x80, 125,
      9, 4, 0, 0, 2, 3, 0, 0, 0,
      9, 0x21, 0x11, 0x01, 0, 1, 0x22, 0x50, 0,
      7, 5, 0x02, 3, 64, 0, 5,
      7, 5, 0x81, 3, 64, 0, 5]"
  by (simp add: bytes_of_Configuration_def ConfigurationDescriptor_def bytes_of_defs le16_def lo8_def
      hi8_def dtype_defs ep_defs VERSION_BCD_def USB_CONFIG_POWER_MA_def sizeof_JoystickReport)

lemma DeviceDescriptor_bytes:
  "bytes_of_Device DeviceDescriptor =
     [18, 1, 0x00, 0x02, 0, 0, 0, 64, 0x0D, 0x0F, 0xC1, 0x00, 0x72, 0x05, 1, 2, 0, 1]"
  by (simp add: DeviceDescriptor_def bytes_of_defs le16_def lo8_def hi8_def dtype_defs ep_defs
      string_id_defs VERSION_BCD_def)

lemma string_sizes [simp]:
  "Size (Str_Header LanguageString) = 4"
  "Size (Str_Header ManufacturerString) = 28"
  "Size (Str_Header ProductString) = 20"
  by (simp_all add: LanguageString_def ManufacturerString_def ProductString_def
      USB_STRING_DESCRIPTOR_def USB_STRING_DESCRIPTOR_ARRAY_def wide_def)

lemma string_lengths:
  "length (bytes_of_String LanguageString) = 4"
  "length (bytes_of_String ManufacturerString) = 30"
  "length (bytes_of_String ProductString) = 22"
  by (simp_all add: sizeof_String LanguageString_def ManufacturerString_def ProductString_def
      USB_STRING_DESCRIPTOR_def USB_STRING_DESCRIPTOR_ARRAY_def wide_def)

lemma sizeof_Configuration: "length (bytes_of_Configuration c) = 41"
  by (simp add: bytes_of_Configuration_def)

subsection \<open>What the callback serves\<close>

lemma flash_at_simps [simp]:
  "flash_at (Some (DeviceDescriptor_obj, 0)) = bytes_of_Device DeviceDescriptor"
  "flash_at (Some (ConfigurationDescriptor_obj, n)) = drop n (bytes_of_Configuration ConfigurationDescriptor)"
  "flash_at (Some (JoystickReport_obj, 0)) = JoystickReport"
  by simp_all

lemma string_header_bytes:
  "take 2 (bytes_of_String LanguageString) = [4, 3]"
  "take 2 (bytes_of_String ManufacturerString) = [28, 3]"
  "take 2 (bytes_of_String ProductString) = [20, 3]"
  by (simp_all add: bytes_of_String_def bytes_of_Header_def LanguageString_def ManufacturerString_def
      ProductString_def USB_STRING_DESCRIPTOR_def USB_STRING_DESCRIPTOR_ARRAY_def wide_def dtype_defs)

lemma nth_take_2: "take 2 xs = [a, b] \<Longrightarrow> xs ! 0 = a \<and> xs ! 1 = b"
  by (cases xs; cases "tl xs") auto

lemmas string_header_nth = string_header_bytes [THEN nth_take_2]



end
