(* ===== verification/HIDParser.thy ===== *)
theory HIDParser
  imports StdDescriptors
begin

text \<open>
  The HID report descriptor parser of LUFA (\<^verbatim>\<open>Class/Common/HIDParser.c\<close> and \<^verbatim>\<open>.h\<close>), the code a
  host uses to find the buttons and axes in the reports a device sends. The record \<open>HID_ReportInfo_t\<close>
  is the parser output; \<open>hid_parser\<close> collects the local variables of \<^verbatim>\<open>USB_ProcessHIDReport\<close>.
  Pointers into arrays are indices. Two arrays with a fill count are lists of their live entries:
  \<open>StateTable\<close> (current entry first) and \<open>UsageList\<close>. The fields \<open>Value\<close> and \<open>PreviousValue\<close> of a
  new item are never written by the parser: \<open>None\<close> stands for that indeterminate content. Accesses
  outside an object end with \<open>UB\<close>.
\<close>

subsection \<open>Types\<close>

record HID_MinMax_t =
  Minimum :: u32
  Maximum :: u32

record HID_Unit_t =
  Unit_Type :: u32
  Exponent :: u8

record HID_Usage_t =
  Page :: u16
  Usage :: u16

record HID_CollectionPath_t =
  Coll_Type :: u8
  Coll_Usage :: HID_Usage_t
  Parent :: "nat option"

record HID_ReportItem_Attributes_t =
  BitSize :: u8
  Attr_Usage :: HID_Usage_t
  Attr_Unit :: HID_Unit_t
  Logical :: HID_MinMax_t
  Physical :: HID_MinMax_t

record HID_ReportItem_t =
  BitOffset :: u16
  ItemType :: u8
  ItemFlags :: u16
  Item_ReportID :: u8
  CollectionPath :: "nat option"
  Item_Attributes :: HID_ReportItem_Attributes_t
  Value :: "u32 option"
  PreviousValue :: "u32 option"

record HID_ReportSizeInfo_t =
  Size_ReportID :: u8
  ReportSizeBits :: "u16 list"

record HID_ReportInfo_t =
  TotalReportItems :: u8
  ReportItems :: "HID_ReportItem_t list"
  CollectionPaths :: "HID_CollectionPath_t list"
  TotalDeviceReports :: u8
  ReportIDSizes :: "HID_ReportSizeInfo_t list"
  LargestReportSizeBits :: u16
  UsingReportIDs :: bool

record HID_StateTable_t =
  St_Attributes :: HID_ReportItem_Attributes_t
  ReportCount :: u8
  St_ReportID :: u8

record hid_parser =
  StateTable :: "HID_StateTable_t list"
  CurrCollectionPath :: "nat option"
  CurrReportIDInfo :: nat
  UsageList :: "u16 list"
  UsageMinMax :: HID_MinMax_t
  ParserData :: HID_ReportInfo_t

datatype hid_ub = BufferOverrun | MemcpyOverrun | Uninitialised

subsection \<open>Constants\<close>

definition HID_STATETABLE_STACK_DEPTH :: nat where "HID_STATETABLE_STACK_DEPTH = 2"
definition HID_USAGE_STACK_DEPTH :: nat where "HID_USAGE_STACK_DEPTH = 8"
definition HID_MAX_COLLECTIONS :: nat where "HID_MAX_COLLECTIONS = 10"
definition HID_MAX_REPORTITEMS :: nat where "HID_MAX_REPORTITEMS = 20"
definition HID_MAX_REPORT_IDS :: nat where "HID_MAX_REPORT_IDS = 10"

lemmas hid_size_defs [simp] = HID_STATETABLE_STACK_DEPTH_def HID_USAGE_STACK_DEPTH_def
  HID_MAX_COLLECTIONS_def HID_MAX_REPORTITEMS_def HID_MAX_REPORT_IDS_def

datatype HID_Parse_ErrorCodes =
    HID_PARSE_Successful | HID_PARSE_HIDStackOverflow | HID_PARSE_HIDStackUnderflow
  | HID_PARSE_InsufficientReportItems | HID_PARSE_UnexpectedEndCollection
  | HID_PARSE_InsufficientCollectionPaths | HID_PARSE_UsageListOverflow
  | HID_PARSE_InsufficientReportIDItems | HID_PARSE_NoUnfilteredReportItems

definition HID_REPORT_ITEM_In :: u8 where "HID_REPORT_ITEM_In = 0"
definition HID_REPORT_ITEM_Out :: u8 where "HID_REPORT_ITEM_Out = 1"
definition HID_REPORT_ITEM_Feature :: u8 where "HID_REPORT_ITEM_Feature = 2"

text \<open>Sizes of the packed structures, in bytes.\<close>

definition sizeof_HID_ReportItem_Attributes_t :: nat where
  "sizeof_HID_ReportItem_Attributes_t = 1 + (2 + 2) + (4 + 1) + (4 + 4) + (4 + 4)"
definition sizeof_HID_ReportItem_t :: nat where
  "sizeof_HID_ReportItem_t = 2 + 1 + 2 + 1 + 2 + sizeof_HID_ReportItem_Attributes_t + 4 + 4"
definition sizeof_HID_StateTable_t :: nat where
  "sizeof_HID_StateTable_t = sizeof_HID_ReportItem_Attributes_t + 1 + 1"

text \<open>The label of a report item in the \<^verbatim>\<open>switch\<close> of the parser: the item with no data.\<close>

definition item_label :: "(nat \<Rightarrow> u32 \<Rightarrow> u8 list) \<Rightarrow> u8" where
  "item_label m = hd (m 0 0)"

lemma item_label_simps [simp]:
  "item_label HID_RI_INPUT = 0x80" "item_label HID_RI_OUTPUT = 0x90"
  "item_label HID_RI_COLLECTION = 0xA0" "item_label HID_RI_FEATURE = 0xB0"
  "item_label HID_RI_END_COLLECTION = 0xC0" "item_label HID_RI_USAGE_PAGE = 0x04"
  "item_label HID_RI_LOGICAL_MINIMUM = 0x14" "item_label HID_RI_LOGICAL_MAXIMUM = 0x24"
  "item_label HID_RI_PHYSICAL_MINIMUM = 0x34" "item_label HID_RI_PHYSICAL_MAXIMUM = 0x44"
  "item_label HID_RI_UNIT_EXPONENT = 0x54" "item_label HID_RI_UNIT = 0x64"
  "item_label HID_RI_REPORT_SIZE = 0x74" "item_label HID_RI_REPORT_ID = 0x84"
  "item_label HID_RI_REPORT_COUNT = 0x94" "item_label HID_RI_PUSH = 0xA4"
  "item_label HID_RI_POP = 0xB4" "item_label HID_RI_USAGE = 0x08"
  "item_label HID_RI_USAGE_MINIMUM = 0x18" "item_label HID_RI_USAGE_MAXIMUM = 0x28"
  by (simp_all add: item_label_def hid_ri_defs hid_ri_type_defs HID_RI_ENTRY_def HID_RI_DATA_BITS_def)

subsection \<open>Initial state\<close>

definition zero_MinMax :: HID_MinMax_t where "zero_MinMax = \<lparr>Minimum = 0, Maximum = 0\<rparr>"

definition zero_Attributes :: HID_ReportItem_Attributes_t where
  "zero_Attributes = \<lparr>BitSize = 0, Attr_Usage = \<lparr>Page = 0, Usage = 0\<rparr>,
     Attr_Unit = \<lparr>Unit_Type = 0, Exponent = 0\<rparr>, Logical = zero_MinMax, Physical = zero_MinMax\<rparr>"

definition zero_ReportItem :: HID_ReportItem_t where
  "zero_ReportItem = \<lparr>BitOffset = 0, ItemType = 0, ItemFlags = 0, Item_ReportID = 0,
     CollectionPath = None, Item_Attributes = zero_Attributes, Value = Some 0, PreviousValue = Some 0\<rparr>"

definition zero_Collection :: HID_CollectionPath_t where
  "zero_Collection = \<lparr>Coll_Type = 0, Coll_Usage = \<lparr>Page = 0, Usage = 0\<rparr>, Parent = None\<rparr>"

definition zero_SizeInfo :: HID_ReportSizeInfo_t where
  "zero_SizeInfo = \<lparr>Size_ReportID = 0, ReportSizeBits = [0, 0, 0]\<rparr>"

definition hid_init :: hid_parser where
  "hid_init = \<lparr>StateTable = [\<lparr>St_Attributes = zero_Attributes, ReportCount = 0, St_ReportID = 0\<rparr>],
     CurrCollectionPath = None, CurrReportIDInfo = 0, UsageList = [], UsageMinMax = zero_MinMax,
     ParserData = \<lparr>TotalReportItems = 0, ReportItems = replicate HID_MAX_REPORTITEMS zero_ReportItem,
       CollectionPaths = replicate HID_MAX_COLLECTIONS zero_Collection, TotalDeviceReports = 1,
       ReportIDSizes = replicate HID_MAX_REPORT_IDS zero_SizeInfo, LargestReportSizeBits = 0,
       UsingReportIDs = False\<rparr>\<rparr>"

subsection \<open>Reading one item\<close>

text \<open>The prefix byte and its data. The size count is a 16-bit variable and wraps when the data of the
  last item is missing; the bytes themselves are then read from behind the descriptor.\<close>

definition fetch_item :: "u8 list \<Rightarrow> u16 \<Rightarrow> hid_ub + (u8 \<times> u32 \<times> u8 list \<times> u16)" where
  "fetch_item ReportData ReportSize =
     (case ReportData of
        [] \<Rightarrow> Inl BufferOverrun
      | HIDReportItem # ReportData \<Rightarrow>
          (let ReportSize = ReportSize - 1; bits = HIDReportItem AND 0x03 in
           if bits = 0x03 then
             (case ReportData of
                b0 # b1 # b2 # b3 # rest \<Rightarrow> Inr (HIDReportItem, join32 b3 b2 b1 b0, rest, ReportSize - 4)
              | _ \<Rightarrow> Inl BufferOverrun)
           else if bits = 0x02 then
             (case ReportData of
                b0 # b1 # rest \<Rightarrow> Inr (HIDReportItem, ucast (join16 b1 b0), rest, ReportSize - 2)
              | _ \<Rightarrow> Inl BufferOverrun)
           else if bits = 0x01 then
             (case ReportData of
                b0 # rest \<Rightarrow> Inr (HIDReportItem, ucast b0, rest, ReportSize - 1)
              | _ \<Rightarrow> Inl BufferOverrun)
           else Inr (HIDReportItem, 0, ReportData, ReportSize)))"

subsection \<open>Processing one item\<close>

datatype 'a outcome = Next 'a | Return HID_Parse_ErrorCodes 'a | UB hid_ub

definition upd_state :: "(HID_StateTable_t \<Rightarrow> HID_StateTable_t) \<Rightarrow> hid_parser \<Rightarrow> hid_parser" where
  "upd_state f p = p\<lparr>StateTable := f (hd (StateTable p)) # tl (StateTable p)\<rparr>"

definition upd_attr ::
  "(HID_ReportItem_Attributes_t \<Rightarrow> HID_ReportItem_Attributes_t) \<Rightarrow> hid_parser \<Rightarrow> hid_parser" where
  "upd_attr f = upd_state (\<lambda>s. s\<lparr>St_Attributes := f (St_Attributes s)\<rparr>)"

definition hid_push :: "hid_parser \<Rightarrow> hid_parser outcome" where
  "hid_push p =
     (if length (StateTable p) = HID_STATETABLE_STACK_DEPTH
      then Return HID_PARSE_HIDStackOverflow p
      else if length (StateTable p) * sizeof_HID_StateTable_t + sizeof_HID_ReportItem_t
                > HID_STATETABLE_STACK_DEPTH * sizeof_HID_StateTable_t
      then UB MemcpyOverrun
      else Next (p\<lparr>StateTable := hd (StateTable p) # StateTable p\<rparr>))"

definition hid_pop :: "hid_parser \<Rightarrow> hid_parser outcome" where
  "hid_pop p =
     (if length (StateTable p) = 1 then Return HID_PARSE_HIDStackUnderflow p
      else Next (p\<lparr>StateTable := tl (StateTable p)\<rparr>))"

definition hid_usage_page :: "u8 \<Rightarrow> u32 \<Rightarrow> hid_parser \<Rightarrow> hid_parser" where
  "hid_usage_page HIDReportItem d p =
     (let p1 = (if HIDReportItem AND 0x03 = 0x03
                then upd_attr (\<lambda>a. a\<lparr>Attr_Usage := (Attr_Usage a)\<lparr>Page := ucast (drop_bit 16 d)\<rparr>\<rparr>) p
                else p)
      in upd_attr (\<lambda>a. a\<lparr>Attr_Usage := (Attr_Usage a)\<lparr>Page := ucast d\<rparr>\<rparr>) p1)"

text \<open>The search for a report ID among the first \<open>TotalDeviceReports\<close> entries.\<close>

fun find_report_id :: "u8 \<Rightarrow> nat \<Rightarrow> HID_ReportSizeInfo_t list \<Rightarrow> nat option" where
  "find_report_id i k [] = None"
| "find_report_id i k (s # ss) = (if Size_ReportID s = i then Some k else find_report_id i (Suc k) ss)"

definition hid_report_id :: "u32 \<Rightarrow> hid_parser \<Rightarrow> hid_parser outcome" where
  "hid_report_id d p0 =
     (let p = upd_state (\<lambda>s. s\<lparr>St_ReportID := ucast d\<rparr>) p0;
          rid = St_ReportID (hd (StateTable p));
          info = ParserData p;
          total = unat (TotalDeviceReports info);
          finish = (\<lambda>p k. Next (p\<lparr>CurrReportIDInfo := k,
             ParserData := (ParserData p)\<lparr>UsingReportIDs := True,
               ReportIDSizes := (ReportIDSizes (ParserData p))
                 [k := (ReportIDSizes (ParserData p) ! k)\<lparr>Size_ReportID := rid\<rparr>]\<rparr>\<rparr>))
      in if UsingReportIDs info then
           (case find_report_id rid 0 (take total (ReportIDSizes info)) of
              Some k \<Rightarrow> finish p k
            | None \<Rightarrow>
                if total = HID_MAX_REPORT_IDS then Return HID_PARSE_InsufficientReportIDItems p
                else finish (p\<lparr>ParserData := info\<lparr>TotalDeviceReports := TotalDeviceReports info + 1,
                       ReportIDSizes := (ReportIDSizes info)[total := zero_SizeInfo]\<rparr>\<rparr>) total)
         else finish p (CurrReportIDInfo p))"

definition hid_usage :: "u32 \<Rightarrow> hid_parser \<Rightarrow> hid_parser outcome" where
  "hid_usage d p =
     (if length (UsageList p) = HID_USAGE_STACK_DEPTH then Return HID_PARSE_UsageListOverflow p
      else Next (p\<lparr>UsageList := UsageList p @ [ucast d]\<rparr>))"

text \<open>The next usage for a collection or an item: first from the list, then from the range.\<close>

definition next_usage :: "u16 \<Rightarrow> hid_parser \<Rightarrow> u16 \<times> hid_parser" where
  "next_usage old p =
     (case UsageList p of
        u # us \<Rightarrow> (u, p\<lparr>UsageList := us\<rparr>)
      | [] \<Rightarrow>
          if Minimum (UsageMinMax p) \<le> Maximum (UsageMinMax p)
          then (ucast (Minimum (UsageMinMax p)),
                p\<lparr>UsageMinMax := (UsageMinMax p)\<lparr>Minimum := Minimum (UsageMinMax p) + 1\<rparr>\<rparr>)
          else (old, p))"

fun find_free_path :: "nat \<Rightarrow> HID_CollectionPath_t list \<Rightarrow> nat option" where
  "find_free_path k [] = None"
| "find_free_path k (c # cs) = (if Parent c = None then Some k else find_free_path (Suc k) cs)"

definition hid_collection :: "u32 \<Rightarrow> hid_parser \<Rightarrow> hid_parser outcome" where
  "hid_collection d p =
     (let paths = CollectionPaths (ParserData p);
          fill = (\<lambda>k c.
            (let (u, p') = next_usage (Usage (Coll_Usage c)) p;
                 c' = c\<lparr>Coll_Type := ucast d,
                   Coll_Usage := \<lparr>Page = Page (Attr_Usage (St_Attributes (hd (StateTable p)))), Usage = u\<rparr>\<rparr>
             in Next (p'\<lparr>CurrCollectionPath := Some k,
                  ParserData := (ParserData p')\<lparr>CollectionPaths := paths[k := c']\<rparr>\<rparr>)))
      in case CurrCollectionPath p of
           None \<Rightarrow> fill 0 (paths ! 0)
         | Some parent \<Rightarrow>
             (case find_free_path 1 (drop 1 paths) of
                None \<Rightarrow> Return HID_PARSE_InsufficientCollectionPaths p
              | Some k \<Rightarrow> fill k ((paths ! k)\<lparr>Parent := Some parent\<rparr>)))"

definition hid_end_collection :: "hid_parser \<Rightarrow> hid_parser outcome" where
  "hid_end_collection p =
     (case CurrCollectionPath p of
        None \<Rightarrow> Return HID_PARSE_UnexpectedEndCollection p
      | Some k \<Rightarrow> Next (p\<lparr>CurrCollectionPath := Parent (CollectionPaths (ParserData p) ! k)\<rparr>))"

definition item_type :: "u8 \<Rightarrow> u8" where
  "item_type tag =
     (if tag = item_label HID_RI_INPUT then HID_REPORT_ITEM_In
      else if tag = item_label HID_RI_OUTPUT then HID_REPORT_ITEM_Out
      else HID_REPORT_ITEM_Feature)"

text \<open>One iteration of the loop over \<open>ReportCount\<close>. The filter callback belongs to the application:
  the parameter \<open>filt\<close>.\<close>

definition hid_add_item ::
  "(HID_ReportItem_t \<Rightarrow> bool) \<Rightarrow> u8 \<Rightarrow> u32 \<Rightarrow> hid_parser \<Rightarrow> hid_parser outcome" where
  "hid_add_item filt tag d p =
     (let st = hd (StateTable p);
          attrs = St_Attributes st;
          (u, p1) = next_usage (Usage (Attr_Usage attrs)) p;
          ty = item_type tag;
          info = ParserData p1;
          k = CurrReportIDInfo p1;
          sizes = ReportIDSizes info ! k;
          off = ReportSizeBits sizes ! unat ty;
          item = \<lparr>BitOffset = off, ItemType = ty, ItemFlags = ucast d, Item_ReportID = St_ReportID st,
                  CollectionPath = CurrCollectionPath p1,
                  Item_Attributes = attrs\<lparr>Attr_Usage := (Attr_Usage attrs)\<lparr>Usage := u\<rparr>\<rparr>,
                  Value = None, PreviousValue = None\<rparr>;
          bits = off + ucast (BitSize attrs);
          info1 = info\<lparr>ReportIDSizes := (ReportIDSizes info)[k := sizes\<lparr>ReportSizeBits :=
                         (ReportSizeBits sizes)[unat ty := bits]\<rparr>],
                       LargestReportSizeBits :=
                         (if LargestReportSizeBits info > bits then LargestReportSizeBits info else bits)\<rparr>
      in if unat (TotalReportItems info1) = HID_MAX_REPORTITEMS
         then Return HID_PARSE_InsufficientReportItems (p1\<lparr>ParserData := info1\<rparr>)
         else
           (let info2 = info1\<lparr>ReportItems := (ReportItems info1)[unat (TotalReportItems info1) := item]\<rparr>;
                info3 = (if d AND 1 = 0 \<and> filt item
                         then info2\<lparr>TotalReportItems := TotalReportItems info2 + 1\<rparr> else info2)
            in Next (p1\<lparr>ParserData := info3\<rparr>)))"

fun hid_add_items ::
  "(HID_ReportItem_t \<Rightarrow> bool) \<Rightarrow> u8 \<Rightarrow> u32 \<Rightarrow> nat \<Rightarrow> hid_parser \<Rightarrow> hid_parser outcome" where
  "hid_add_items filt tag d 0 p = Next p"
| "hid_add_items filt tag d (Suc n) p =
     (case hid_add_item filt tag d p of
        Next p' \<Rightarrow> hid_add_items filt tag d n p'
      | r \<Rightarrow> r)"

definition hid_switch ::
  "(HID_ReportItem_t \<Rightarrow> bool) \<Rightarrow> u8 \<Rightarrow> u32 \<Rightarrow> hid_parser \<Rightarrow> hid_parser outcome" where
  "hid_switch filt HIDReportItem d p =
     (let tag = HIDReportItem AND 0xFC in
      if tag = item_label HID_RI_PUSH then hid_push p
      else if tag = item_label HID_RI_POP then hid_pop p
      else if tag = item_label HID_RI_USAGE_PAGE then Next (hid_usage_page HIDReportItem d p)
      else if tag = item_label HID_RI_LOGICAL_MINIMUM
      then Next (upd_attr (\<lambda>a. a\<lparr>Logical := (Logical a)\<lparr>Minimum := d\<rparr>\<rparr>) p)
      else if tag = item_label HID_RI_LOGICAL_MAXIMUM
      then Next (upd_attr (\<lambda>a. a\<lparr>Logical := (Logical a)\<lparr>Maximum := d\<rparr>\<rparr>) p)
      else if tag = item_label HID_RI_PHYSICAL_MINIMUM
      then Next (upd_attr (\<lambda>a. a\<lparr>Physical := (Physical a)\<lparr>Minimum := d\<rparr>\<rparr>) p)
      else if tag = item_label HID_RI_PHYSICAL_MAXIMUM
      then Next (upd_attr (\<lambda>a. a\<lparr>Physical := (Physical a)\<lparr>Maximum := d\<rparr>\<rparr>) p)
      else if tag = item_label HID_RI_UNIT_EXPONENT
      then Next (upd_attr (\<lambda>a. a\<lparr>Attr_Unit := (Attr_Unit a)\<lparr>Exponent := ucast d\<rparr>\<rparr>) p)
      else if tag = item_label HID_RI_UNIT
      then Next (upd_attr (\<lambda>a. a\<lparr>Attr_Unit := (Attr_Unit a)\<lparr>Unit_Type := d\<rparr>\<rparr>) p)
      else if tag = item_label HID_RI_REPORT_SIZE then Next (upd_attr (\<lambda>a. a\<lparr>BitSize := ucast d\<rparr>) p)
      else if tag = item_label HID_RI_REPORT_COUNT then Next (upd_state (\<lambda>s. s\<lparr>ReportCount := ucast d\<rparr>) p)
      else if tag = item_label HID_RI_REPORT_ID then hid_report_id d p
      else if tag = item_label HID_RI_USAGE then hid_usage d p
      else if tag = item_label HID_RI_USAGE_MINIMUM
      then Next (p\<lparr>UsageMinMax := (UsageMinMax p)\<lparr>Minimum := d\<rparr>\<rparr>)
      else if tag = item_label HID_RI_USAGE_MAXIMUM
      then Next (p\<lparr>UsageMinMax := (UsageMinMax p)\<lparr>Maximum := d\<rparr>\<rparr>)
      else if tag = item_label HID_RI_COLLECTION then hid_collection d p
      else if tag = item_label HID_RI_END_COLLECTION then hid_end_collection p
      else if tag = item_label HID_RI_INPUT \<or> tag = item_label HID_RI_OUTPUT \<or> tag = item_label HID_RI_FEATURE
      then hid_add_items filt tag d (unat (ReportCount (hd (StateTable p)))) p
      else Next p)"

definition hid_reset_locals :: "u8 \<Rightarrow> hid_parser \<Rightarrow> hid_parser" where
  "hid_reset_locals HIDReportItem p =
     (if HIDReportItem AND 0x0C = HID_RI_TYPE_MAIN
      then p\<lparr>UsageMinMax := zero_MinMax, UsageList := []\<rparr> else p)"

subsection \<open>The parser\<close>

definition hid_finish :: "hid_parser \<Rightarrow> HID_Parse_ErrorCodes \<times> HID_ReportInfo_t" where
  "hid_finish p =
     (if TotalReportItems (ParserData p) = 0 then HID_PARSE_NoUnfilteredReportItems
      else HID_PARSE_Successful, ParserData p)"

lemma fetch_item_shorter:
  "fetch_item xs n = Inr (i, d, ys, m) \<Longrightarrow> length ys < length xs"
  by (auto simp: fetch_item_def Let_def split: list.splits if_splits)

function hid_loop :: "(HID_ReportItem_t \<Rightarrow> bool) \<Rightarrow> u8 list \<Rightarrow> u16 \<Rightarrow> hid_parser \<Rightarrow>
    hid_ub + (HID_Parse_ErrorCodes \<times> HID_ReportInfo_t)" where
  "hid_loop filt ReportData ReportSize p =
     (if ReportSize = 0 then Inr (hid_finish p)
      else case fetch_item ReportData ReportSize of
             Inl e \<Rightarrow> Inl e
           | Inr (HIDReportItem, d, ReportData', ReportSize') \<Rightarrow>
               (case hid_switch filt HIDReportItem d p of
                  UB e \<Rightarrow> Inl e
                | Return code p' \<Rightarrow> Inr (code, ParserData p')
                | Next p' \<Rightarrow> hid_loop filt ReportData' ReportSize' (hid_reset_locals HIDReportItem p')))"
  by pat_completeness auto

termination
  by (relation "measure (\<lambda>(filt, xs, n, p). length xs)") (auto dest: fetch_item_shorter)

declare hid_loop.simps [simp del]

definition USB_ProcessHIDReport :: "(HID_ReportItem_t \<Rightarrow> bool) \<Rightarrow> u8 list \<Rightarrow> u16 \<Rightarrow>
    hid_ub + (HID_Parse_ErrorCodes \<times> HID_ReportInfo_t)" where
  "USB_ProcessHIDReport filt ReportData ReportSize = hid_loop filt ReportData ReportSize hid_init"

subsection \<open>Reading and writing item values in a report\<close>

text \<open>The loops over the bits of an item; \<open>n\<close> is \<^verbatim>\<open>DataBitsRem\<close>.\<close>

fun get_bits :: "nat \<Rightarrow> u8 list \<Rightarrow> u16 \<Rightarrow> u32 \<Rightarrow> u32 \<Rightarrow> hid_ub + u32" where
  "get_bits 0 ReportData CurrentBit BitMask v = Inr v"
| "get_bits (Suc n) ReportData CurrentBit BitMask v =
     (if unat CurrentBit div 8 < length ReportData
      then get_bits n ReportData (CurrentBit + 1) (push_bit 1 BitMask)
             (if ReportData ! (unat CurrentBit div 8) AND push_bit (unat CurrentBit mod 8) 1 \<noteq> 0
              then v OR BitMask else v)
      else Inl BufferOverrun)"

definition USB_GetHIDReportItemInfo ::
  "u8 list \<Rightarrow> HID_ReportItem_t option \<Rightarrow> hid_ub + (bool \<times> HID_ReportItem_t option)" where
  "USB_GetHIDReportItemInfo ReportData ReportItem =
     (case ReportItem of
        None \<Rightarrow> Inr (False, None)
      | Some it \<Rightarrow>
          (let go = (\<lambda>dat. case get_bits (unat (BitSize (Item_Attributes it))) dat (BitOffset it) 1 0 of
                 Inl e \<Rightarrow> Inl e
               | Inr v \<Rightarrow> Inr (True, Some (it\<lparr>PreviousValue := Value it, Value := Some v\<rparr>)))
           in if Item_ReportID it \<noteq> 0 then
                (case ReportData of
                   [] \<Rightarrow> Inl BufferOverrun
                 | b # rest \<Rightarrow> if Item_ReportID it \<noteq> b then Inr (False, Some it) else go rest)
              else go ReportData))"

fun set_bits :: "nat \<Rightarrow> u32 \<Rightarrow> u8 list \<Rightarrow> u16 \<Rightarrow> u32 \<Rightarrow> hid_ub + u8 list" where
  "set_bits 0 v ReportData CurrentBit BitMask = Inr ReportData"
| "set_bits (Suc n) v ReportData CurrentBit BitMask =
     (if v AND BitMask \<noteq> 0 then
        if unat CurrentBit div 8 < length ReportData
        then set_bits n v
               (ReportData[unat CurrentBit div 8 :=
                  ReportData ! (unat CurrentBit div 8) OR push_bit (unat CurrentBit mod 8) 1])
               (CurrentBit + 1) (push_bit 1 BitMask)
        else Inl BufferOverrun
      else set_bits n v ReportData (CurrentBit + 1) (push_bit 1 BitMask))"

definition USB_SetHIDReportItemInfo ::
  "u8 list \<Rightarrow> HID_ReportItem_t option \<Rightarrow> hid_ub + (u8 list \<times> HID_ReportItem_t option)" where
  "USB_SetHIDReportItemInfo ReportData ReportItem =
     (case ReportItem of
        None \<Rightarrow> Inr (ReportData, None)
      | Some it \<Rightarrow>
          (case Value it of
             None \<Rightarrow> Inl Uninitialised
           | Some v \<Rightarrow>
               (let it' = it\<lparr>PreviousValue := Some v\<rparr>;
                    n = unat (BitSize (Item_Attributes it))
                in if Item_ReportID it \<noteq> 0 then
                     (case ReportData of
                        [] \<Rightarrow> Inl BufferOverrun
                      | b # rest \<Rightarrow>
                          (case set_bits n v rest (BitOffset it) 1 of
                             Inl e \<Rightarrow> Inl e
                           | Inr rest' \<Rightarrow> Inr (Item_ReportID it # rest', Some it')))
                   else
                     (case set_bits n v ReportData (BitOffset it) 1 of
                        Inl e \<Rightarrow> Inl e
                      | Inr dat \<Rightarrow> Inr (dat, Some it')))))"

fun report_size_of :: "u8 \<Rightarrow> u8 \<Rightarrow> HID_ReportSizeInfo_t list \<Rightarrow> u16" where
  "report_size_of ReportID ReportType [] = 0"
| "report_size_of ReportID ReportType (s # ss) =
     (if Size_ReportID s = ReportID
      then (let bits = ReportSizeBits s ! unat ReportType in bits div 8 + (if bits mod 8 \<noteq> 0 then 1 else 0))
      else report_size_of ReportID ReportType ss)"

definition USB_GetHIDReportSize :: "HID_ReportInfo_t \<Rightarrow> u8 \<Rightarrow> u8 \<Rightarrow> u16" where
  "USB_GetHIDReportSize info ReportID ReportType =
     report_size_of ReportID ReportType (take HID_MAX_REPORT_IDS (ReportIDSizes info))"

subsection \<open>Item values are bit fields of the report\<close>

text \<open>Bit \<open>k\<close> of a report, and the number made of \<open>n\<close> bits from bit \<open>k\<close> on.\<close>

definition dbit :: "u8 list \<Rightarrow> nat \<Rightarrow> bool" where
  "dbit bs k \<longleftrightarrow> bit (bs ! (k div 8)) (k mod 8)"

definition field :: "u8 list \<Rightarrow> nat \<Rightarrow> nat \<Rightarrow> u32" where
  "field bs k n = horner_sum of_bool 2 (map (\<lambda>j. dbit bs (k + j)) [0..<n])"

lemma bit_field: "bit (field bs k n) j \<longleftrightarrow> j < n \<and> j < 32 \<and> dbit bs (k + j)"
  by (auto simp: field_def bit_horner_sum_bit_word_iff)

lemma unat_u16_Suc: "unat x + 1 < 65536 \<Longrightarrow> unat (x + 1 :: u16) = unat x + 1"
  by (simp add: unat_word_ariths)

text \<open>The value of \<^verbatim>\<open>BitMask\<close> after \<open>k\<close> iterations, and byte \<open>k div 8\<close> with bit \<open>k\<close> of the report set.\<close>

definition mask_at :: "nat \<Rightarrow> u32" where
  "mask_at k = push_bit k 1"

definition set_dbit :: "u8 list \<Rightarrow> nat \<Rightarrow> u8 list" where
  "set_dbit bs k = bs[k div 8 := bs ! (k div 8) OR push_bit (k mod 8) 1]"

lemma mask_at_0: "mask_at 0 = 1" and mask_at_Suc: "push_bit 1 (mask_at k) = mask_at (Suc k)"
  by (simp_all add: mask_at_def mult.commute)

lemma bit_mask_at: "bit (mask_at k) j \<longleftrightarrow> j = k \<and> k < 32"
  by (auto simp: mask_at_def bit_simps)

lemma and_mask_at: "v AND mask_at k \<noteq> 0 \<longleftrightarrow> bit v k"
  by (simp add: mask_at_def bit_iff_and_push_bit_not_eq_0)

lemma get_bits_step:
  "unat off div 8 < length bs \<Longrightarrow>
   get_bits (Suc n) bs off (mask_at k) v =
     get_bits n bs (off + 1) (mask_at (Suc k)) (if dbit bs (unat off) then v OR mask_at k else v)"
  by (simp only: get_bits.simps if_True mask_at_Suc dbit_def bit_iff_and_push_bit_not_eq_0)

lemma set_bits_step:
  "unat off div 8 < length bs \<Longrightarrow>
   set_bits (Suc n) v bs off (mask_at k) =
     set_bits n v (if bit v k then set_dbit bs (unat off) else bs) (off + 1) (mask_at (Suc k))"
  by (simp only: set_bits.simps mask_at_Suc and_mask_at set_dbit_def if_True split: if_split) simp

lemma get_bits_field:
  assumes "unat off + n \<le> 8 * length bs" and "unat off + n < 65536"
  shows "\<exists>w. get_bits n bs off (mask_at k) v = Inr w \<and>
    (\<forall>j. bit w j \<longleftrightarrow> bit v j \<or> (k \<le> j \<and> j < k + n \<and> j < 32 \<and> dbit bs (unat off + (j - k))))"
  using assms
proof (induction n arbitrary: off k v)
  case 0
  then show ?case by auto
next
  case (Suc n)
  let ?v = "if dbit bs (unat off) then v OR mask_at k else v"
  have off: "unat (off + 1) = unat off + 1" using Suc.prems by (intro unat_u16_Suc) simp
  have in_range: "unat off div 8 < length bs"
    using Suc.prems by (simp add: div_less_iff_less_mult)
  obtain w where w: "get_bits n bs (off + 1) (mask_at (Suc k)) ?v = Inr w"
    and bits: "\<forall>j. bit w j \<longleftrightarrow> bit ?v j \<or>
      (Suc k \<le> j \<and> j < Suc k + n \<and> j < 32 \<and> dbit bs (unat off + 1 + (j - Suc k)))"
    using Suc.IH [of "off + 1" "Suc k" ?v] Suc.prems off by auto
  have "bit w j \<longleftrightarrow> bit v j \<or> (k \<le> j \<and> j < k + Suc n \<and> j < 32 \<and> dbit bs (unat off + (j - k)))" for j
  proof (cases "j = k")
    case True
    then show ?thesis using bits by (auto simp: bit_or_iff bit_mask_at)
  next
    case False
    then have "bit ?v j = bit v j" by (auto simp: bit_or_iff bit_mask_at)
    moreover have "unat off + 1 + (j - Suc k) = unat off + (j - k)" if "Suc k \<le> j" using that by simp
    ultimately show ?thesis using bits False by (cases "Suc k \<le> j") auto
  qed
  then show ?case using w by (simp only: get_bits_step [OF in_range]) blast
qed

lemma get_bits_eq_field:
  assumes "unat off + n \<le> 8 * length bs" and "unat off + n < 65536"
  shows "get_bits n bs off 1 0 = Inr (field bs (unat off) n)"
proof -
  obtain w where w: "get_bits n bs off (mask_at 0) 0 = Inr w"
    and bits: "\<forall>j. bit w j \<longleftrightarrow> j < n \<and> j < 32 \<and> dbit bs (unat off + j)"
    using get_bits_field [OF assms, of 0 0] by auto
  have "w = field bs (unat off) n" by (rule bit_word_eqI) (simp add: bits bit_field)
  then show ?thesis using w by (simp add: mask_at_0)
qed

lemma length_set_dbit [simp]: "length (set_dbit bs k) = length bs"
  by (simp add: set_dbit_def)

lemma dbit_set_dbit:
  assumes "k div 8 < length bs"
  shows "dbit (set_dbit bs k) i \<longleftrightarrow> dbit bs i \<or> i = k"
proof (cases "i div 8 = k div 8")
  case True
  have "i = k \<longleftrightarrow> i mod 8 = k mod 8"
    using True div_mult_mod_eq [of i 8] div_mult_mod_eq [of k 8] by metis
  moreover have "dbit (set_dbit bs k) i \<longleftrightarrow> dbit bs i \<or> bit (bv (k mod 8)) (i mod 8)"
    using True assms by (simp add: dbit_def set_dbit_def bv_def bit_or_iff)
  ultimately show ?thesis by (simp add: bit_bv)
next
  case False
  then show ?thesis by (auto simp: dbit_def set_dbit_def)
qed

lemma set_bits_spec:
  assumes "unat off + n \<le> 8 * length bs" and "unat off + n < 65536"
  shows "\<exists>bs'. set_bits n v bs off (mask_at k) = Inr bs' \<and> length bs' = length bs \<and>
    (\<forall>i. dbit bs' i \<longleftrightarrow> dbit bs i \<or> (unat off \<le> i \<and> i < unat off + n \<and> bit v (k + (i - unat off))))"
  using assms
proof (induction n arbitrary: off k bs)
  case 0
  then show ?case by auto
next
  case (Suc n)
  let ?bs = "if bit v k then set_dbit bs (unat off) else bs"
  have off: "unat (off + 1) = unat off + 1" using Suc.prems by (intro unat_u16_Suc) simp
  have in_range: "unat off div 8 < length bs"
    using Suc.prems by (simp add: div_less_iff_less_mult)
  have same: "length ?bs = length bs" by simp
  obtain bs' where b': "set_bits n v ?bs (off + 1) (mask_at (Suc k)) = Inr bs'"
    and len: "length bs' = length bs"
    and bits: "\<forall>i. dbit bs' i \<longleftrightarrow> dbit ?bs i \<or>
       (unat off + 1 \<le> i \<and> i < unat off + 1 + n \<and> bit v (Suc k + (i - (unat off + 1))))"
    using Suc.IH [of "off + 1" ?bs "Suc k"] Suc.prems unfolding off same by auto
  have "dbit bs' i \<longleftrightarrow> dbit bs i \<or> (unat off \<le> i \<and> i < unat off + Suc n \<and> bit v (k + (i - unat off)))" for i
  proof (cases "i = unat off")
    case True
    then show ?thesis using bits in_range by (auto simp: dbit_set_dbit)
  next
    case False
    then have "dbit ?bs i = dbit bs i" using in_range by (auto simp: dbit_set_dbit)
    moreover have "Suc k + (i - (unat off + 1)) = k + (i - unat off)" if "unat off + 1 \<le> i" using that by simp
    ultimately show ?thesis using bits False by (cases "unat off + 1 \<le> i") auto
  qed
  then show ?case using b' len by (simp only: set_bits_step [OF in_range]) blast
qed

text \<open>The part of a report that item offsets count from, and the condition that an item lies in it.\<close>

definition payload :: "HID_ReportItem_t \<Rightarrow> u8 list \<Rightarrow> u8 list" where
  "payload it bs = (if Item_ReportID it \<noteq> 0 then tl bs else bs)"

definition item_fits :: "HID_ReportItem_t \<Rightarrow> u8 list \<Rightarrow> bool" where
  "item_fits it bs \<longleftrightarrow> (Item_ReportID it \<noteq> 0 \<longrightarrow> bs \<noteq> []) \<and>
     unat (BitOffset it) + unat (BitSize (Item_Attributes it)) \<le> 8 * length (payload it bs) \<and>
     unat (BitOffset it) + unat (BitSize (Item_Attributes it)) < 65536"

lemma GetHIDReportItemInfo_eq:
  assumes "item_fits it bs" and "Item_ReportID it \<noteq> 0 \<longrightarrow> hd bs = Item_ReportID it"
  shows "USB_GetHIDReportItemInfo bs (Some it) =
    Inr (True, Some (it\<lparr>PreviousValue := Value it,
      Value := Some (field (payload it bs) (unat (BitOffset it)) (unat (BitSize (Item_Attributes it))))\<rparr>))"
  using assms get_bits_eq_field [of "BitOffset it" "unat (BitSize (Item_Attributes it))" "payload it bs"]
  by (cases bs) (auto simp: USB_GetHIDReportItemInfo_def item_fits_def payload_def split: if_splits)

lemma SetHIDReportItemInfo_eq:
  assumes "item_fits it bs" and "Value it = Some v"
  shows "\<exists>bs'. USB_SetHIDReportItemInfo bs (Some it) = Inr (bs', Some (it\<lparr>PreviousValue := Some v\<rparr>)) \<and>
    length bs' = length bs \<and> (Item_ReportID it \<noteq> 0 \<longrightarrow> hd bs' = Item_ReportID it) \<and>
    (\<forall>i. dbit (payload it bs') i \<longleftrightarrow> dbit (payload it bs) i \<or>
       (unat (BitOffset it) \<le> i \<and> i < unat (BitOffset it) + unat (BitSize (Item_Attributes it)) \<and>
        bit v (i - unat (BitOffset it))))"
proof -
  let ?n = "unat (BitSize (Item_Attributes it))"
  obtain ds where s: "set_bits ?n v (payload it bs) (BitOffset it) 1 = Inr ds"
    and len: "length ds = length (payload it bs)"
    and bits: "\<forall>i. dbit ds i \<longleftrightarrow> dbit (payload it bs) i \<or>
       (unat (BitOffset it) \<le> i \<and> i < unat (BitOffset it) + ?n \<and> bit v (i - unat (BitOffset it)))"
    using set_bits_spec [of "BitOffset it" ?n "payload it bs" v 0] assms(1)
    by (auto simp: item_fits_def mask_at_0)
  let ?bs = "if Item_ReportID it \<noteq> 0 then Item_ReportID it # ds else ds"
  have p: "payload it ?bs = ds" by (simp add: payload_def)
  have "USB_SetHIDReportItemInfo bs (Some it) = Inr (?bs, Some (it\<lparr>PreviousValue := Some v\<rparr>))"
    using s assms by (cases bs) (auto simp: USB_SetHIDReportItemInfo_def item_fits_def payload_def)
  moreover have "length ?bs = length bs"
    using len assms(1) by (cases bs) (auto simp: item_fits_def payload_def)
  ultimately show ?thesis using bits p by (intro exI [of _ ?bs]) auto
qed

text \<open>C23: Writing an item value into a report and reading it back gives the low \<open>BitSize\<close> bits of the
  value, for any item that lies inside the report buffer and whose bits are clear beforehand;
  all other bits of the report keep their value, with or without a report ID byte.\<close>

theorem report_item_roundtrip:
  assumes "item_fits it bs" and "Value it = Some v"
    and "\<forall>j < unat (BitSize (Item_Attributes it)). \<not> dbit (payload it bs) (unat (BitOffset it) + j)"
  shows "\<exists>bs' it'. USB_SetHIDReportItemInfo bs (Some it) = Inr (bs', Some it') \<and>
    USB_GetHIDReportItemInfo bs' (Some it') =
      Inr (True, Some (it\<lparr>PreviousValue := Some v,
                          Value := Some (take_bit (unat (BitSize (Item_Attributes it))) v)\<rparr>)) \<and>
    length bs' = length bs \<and>
    (\<forall>i. \<not> (unat (BitOffset it) \<le> i \<and> i < unat (BitOffset it) + unat (BitSize (Item_Attributes it))) \<longrightarrow>
       dbit (payload it bs') i = dbit (payload it bs) i)"
proof -
  let ?n = "unat (BitSize (Item_Attributes it))" and ?o = "unat (BitOffset it)"
  let ?it = "it\<lparr>PreviousValue := Some v\<rparr>"
  obtain bs' where s: "USB_SetHIDReportItemInfo bs (Some it) = Inr (bs', Some ?it)"
    and len: "length bs' = length bs" and hd: "Item_ReportID it \<noteq> 0 \<longrightarrow> hd bs' = Item_ReportID it"
    and bits: "\<forall>i. dbit (payload it bs') i \<longleftrightarrow> dbit (payload it bs) i \<or>
       (?o \<le> i \<and> i < ?o + ?n \<and> bit v (i - ?o))"
    using SetHIDReportItemInfo_eq [OF assms(1,2)] by auto
  have pl: "payload ?it bs' = payload it bs'" by (simp add: payload_def)
  have fits: "item_fits ?it bs'"
    using assms(1) len by (auto simp: item_fits_def payload_def split: if_splits)
  have "field (payload it bs') ?o ?n = take_bit ?n v"
    using bits assms(3) by (intro bit_word_eqI) (auto simp: bit_field bit_take_bit_iff)
  then have "USB_GetHIDReportItemInfo bs' (Some ?it) =
      Inr (True, Some (it\<lparr>PreviousValue := Some v, Value := Some (take_bit ?n v)\<rparr>))"
    using GetHIDReportItemInfo_eq [OF fits] hd pl assms(2) by simp
  then show ?thesis using s len bits by blast
qed

theorem report_item_roundtrip_witness:
  "\<exists>bs' it'. USB_SetHIDReportItemInfo [0, 0xF0] (Some (zero_ReportItem\<lparr>BitOffset := 6, Value := Some 0x35,
       Item_Attributes := zero_Attributes\<lparr>BitSize := 4\<rparr>\<rparr>)) = Inr (bs', Some it') \<and>
     (case USB_GetHIDReportItemInfo bs' (Some it') of
        Inr (True, Some it'') \<Rightarrow> Value it'' = Some 5
      | _ \<Rightarrow> False)"
proof -
  let ?it = "zero_ReportItem\<lparr>BitOffset := 6, Value := Some 0x35,
     Item_Attributes := zero_Attributes\<lparr>BitSize := 4\<rparr>\<rparr>"
  have clear: "\<not> dbit [0, 0xF0] (6 + j)" if "j < 4" for j
  proof -
    from that have "j = 0 \<or> j = 1 \<or> j = 2 \<or> j = 3" by arith
    then show ?thesis by (auto simp: dbit_def)
  qed
  have "(take_bit 4 0x35 :: u32) = 5" by simp
  then show ?thesis
    using report_item_roundtrip [of ?it "[0, 0xF0]" "0x35"] clear
    by (auto simp: item_fits_def payload_def zero_ReportItem_def zero_Attributes_def)
qed

subsection \<open>The parser stays inside its tables\<close>

definition info_ok :: "HID_ReportInfo_t \<Rightarrow> bool" where
  "info_ok d \<longleftrightarrow> length (ReportItems d) = 20 \<and> length (CollectionPaths d) = 10 \<and>
     length (ReportIDSizes d) = 10 \<and> unat (TotalReportItems d) \<le> 20 \<and>
     1 \<le> unat (TotalDeviceReports d) \<and> unat (TotalDeviceReports d) \<le> 10 \<and>
     (\<forall>s \<in> set (ReportIDSizes d). length (ReportSizeBits s) = 3) \<and>
     (\<forall>c \<in> set (CollectionPaths d). \<forall>k. Parent c = Some k \<longrightarrow> k < 10)"

definition hid_inv :: "hid_parser \<Rightarrow> bool" where
  "hid_inv p \<longleftrightarrow> length (StateTable p) = 1 \<and> length (UsageList p) \<le> 8 \<and>
     CurrReportIDInfo p < unat (TotalDeviceReports (ParserData p)) \<and>
     (\<forall>k. CurrCollectionPath p = Some k \<longrightarrow> k < 10) \<and> info_ok (ParserData p)"

definition ok_outcome :: "hid_parser outcome \<Rightarrow> bool" where
  "ok_outcome r = (case r of Next p \<Rightarrow> hid_inv p | Return c p \<Rightarrow> info_ok (ParserData p) | UB e \<Rightarrow> False)"

lemma ok_outcome_simps [simp]:
  "ok_outcome (Next p) = hid_inv p" "ok_outcome (Return c p) = info_ok (ParserData p)"
  "\<not> ok_outcome (UB e)"
  by (simp_all add: ok_outcome_def)

lemma hid_inv_info: "hid_inv p \<Longrightarrow> info_ok (ParserData p)"
  by (simp add: hid_inv_def)

lemma hid_init_inv: "hid_inv hid_init"
  by (simp add: hid_inv_def info_ok_def hid_init_def zero_SizeInfo_def zero_Collection_def)

lemma hid_push_overruns: "hid_inv p \<Longrightarrow> hid_push p = UB MemcpyOverrun"
  by (simp add: hid_push_def hid_inv_def sizeof_HID_StateTable_t_def sizeof_HID_ReportItem_t_def
      sizeof_HID_ReportItem_Attributes_t_def)

lemma upd_state_inv [simp]: "hid_inv p \<Longrightarrow> hid_inv (upd_state f p)"
  by (simp add: hid_inv_def upd_state_def)

lemma upd_attr_inv [simp]: "hid_inv p \<Longrightarrow> hid_inv (upd_attr f p)"
  by (simp add: upd_attr_def)

lemma usage_page_inv: "hid_inv p \<Longrightarrow> hid_inv (hid_usage_page i d p)"
  by (simp add: hid_usage_page_def Let_def)

lemma pop_ok: "hid_inv p \<Longrightarrow> ok_outcome (hid_pop p)"
  by (simp add: hid_pop_def hid_inv_def)

lemma usage_ok: "hid_inv p \<Longrightarrow> ok_outcome (hid_usage d p)"
  by (auto simp: hid_usage_def hid_inv_def)

lemma end_collection_ok: "hid_inv p \<Longrightarrow> ok_outcome (hid_end_collection p)"
  by (auto simp: hid_end_collection_def hid_inv_def info_ok_def split: option.splits)

lemma next_usage_inv: "hid_inv p \<Longrightarrow> hid_inv (snd (next_usage old p))"
  by (auto simp: next_usage_def hid_inv_def split: list.splits)

lemma next_usage_same [simp]:
  "CurrCollectionPath (snd (next_usage old p)) = CurrCollectionPath p"
  "CurrReportIDInfo (snd (next_usage old p)) = CurrReportIDInfo p"
  "StateTable (snd (next_usage old p)) = StateTable p"
  "ParserData (snd (next_usage old p)) = ParserData p"
  by (simp_all add: next_usage_def split: list.splits)

lemma find_free_path_less: "find_free_path k cs = Some j \<Longrightarrow> j < k + length cs"
  by (induction k cs rule: find_free_path.induct) (auto split: if_splits)

lemma find_report_id_less: "find_report_id i k ss = Some j \<Longrightarrow> j < k + length ss"
  by (induction i k ss rule: find_report_id.induct) (auto split: if_splits)

lemma set_list_update_cases: "x \<in> set (xs[i := y]) \<Longrightarrow> x = y \<or> x \<in> set xs"
  using set_update_subset_insert by fastforce

lemma collection_fill_inv:
  assumes "hid_inv p" and "k < 10" and "\<And>j. Parent c = Some j \<Longrightarrow> j < 10"
  shows "hid_inv ((snd (next_usage old p))\<lparr>CurrCollectionPath := Some k,
    ParserData := (ParserData p)\<lparr>CollectionPaths := (CollectionPaths (ParserData p))[k := c]\<rparr>\<rparr>)"
  using assms next_usage_inv [OF assms(1), of old]
  by (auto simp: hid_inv_def info_ok_def dest!: set_list_update_cases)

lemma collection_ok: "hid_inv p \<Longrightarrow> ok_outcome (hid_collection d p)"
proof -
  assume inv: "hid_inv p"
  have par: "j < 10" if "Parent (CollectionPaths (ParserData p) ! k) = Some j" "k < 10" for j k
    using inv that by (auto simp: hid_inv_def info_ok_def)
  have len: "length (CollectionPaths (ParserData p)) = 10" using inv by (simp add: hid_inv_def info_ok_def)
  show ?thesis
    using inv par len find_free_path_less [of 1 "drop 1 (CollectionPaths (ParserData p))"]
    by (auto simp: hid_collection_def Let_def case_prod_beta hid_inv_def [of p] info_ok_def [of "ParserData p"]
        split: option.splits intro!: collection_fill_inv)
qed

lemma report_id_ok: "hid_inv p \<Longrightarrow> ok_outcome (hid_report_id d p)"
proof -
  assume inv: "hid_inv p"
  let ?info = "ParserData p"
  have u: "unat (TotalDeviceReports ?info + 1) = unat (TotalDeviceReports ?info) + 1"
    if "unat (TotalDeviceReports ?info) \<noteq> 10"
    using inv that by (simp add: hid_inv_def info_ok_def unat_word_ariths)
  have sizes: "length (ReportSizeBits (ReportIDSizes ?info ! k)) = 3" if "k < 10" for k
    using inv that by (auto simp: hid_inv_def info_ok_def)
  let ?find = "find_report_id (ucast d) 0 (take (unat (TotalDeviceReports ?info)) (ReportIDSizes ?info))"
  show ?thesis
  proof (cases ?find)
    case None
    then show ?thesis using inv u sizes
      by (auto simp: hid_report_id_def Let_def upd_state_def hid_inv_def info_ok_def zero_SizeInfo_def
          nth_list_update dest!: set_list_update_cases)
  next
    case (Some k)
    then have "k < unat (TotalDeviceReports ?info)" using find_report_id_less [OF Some] by simp
    then show ?thesis using inv sizes Some
      by (auto simp: hid_report_id_def Let_def upd_state_def hid_inv_def info_ok_def
          dest!: set_list_update_cases)
  qed
qed

lemma item_type_less: "unat (item_type tag) < 3"
  by (simp add: item_type_def HID_REPORT_ITEM_In_def HID_REPORT_ITEM_Out_def HID_REPORT_ITEM_Feature_def)

lemma add_item_ok: "hid_inv p \<Longrightarrow> ok_outcome (hid_add_item filt tag d p)"
proof -
  assume inv: "hid_inv p"
  have inv': "hid_inv (snd (next_usage u p))" for u using inv by (rule next_usage_inv)
  have u: "unat (TotalReportItems (ParserData p) + 1) = unat (TotalReportItems (ParserData p)) + 1"
    if "unat (TotalReportItems (ParserData p)) \<noteq> 20"
    using inv that by (simp add: hid_inv_def info_ok_def unat_word_ariths)
  have sizes: "length (ReportSizeBits (ReportIDSizes (ParserData p) ! CurrReportIDInfo p)) = 3"
    using inv by (auto simp: hid_inv_def info_ok_def)
  show ?thesis
    using inv inv' u sizes
    by (auto simp: hid_add_item_def Let_def case_prod_beta hid_inv_def info_ok_def
        dest!: set_list_update_cases split: if_splits)
qed

lemma add_items_ok: "hid_inv p \<Longrightarrow> ok_outcome (hid_add_items filt tag d n p)"
proof (induction n arbitrary: p)
  case 0
  then show ?case by simp
next
  case (Suc n)
  then show ?case using add_item_ok [OF Suc.prems, of filt tag d] by (auto split: outcome.splits)
qed

lemmas item_ok = usage_page_inv pop_ok usage_ok end_collection_ok collection_ok report_id_ok add_items_ok

lemma range_inv [simp]: "hid_inv p \<Longrightarrow> hid_inv (p\<lparr>UsageMinMax := m\<rparr>)"
  by (simp add: hid_inv_def)

lemma switch_ok:
  "hid_inv p \<Longrightarrow> i AND 0xFC \<noteq> item_label HID_RI_PUSH \<Longrightarrow> ok_outcome (hid_switch filt i d p)"
  by (simp add: hid_switch_def Let_def item_ok)

lemma reset_locals_inv: "hid_inv p \<Longrightarrow> hid_inv (hid_reset_locals i p)"
  by (simp add: hid_reset_locals_def hid_inv_def)

text \<open>A descriptor as the sequence of its items, if its last item is complete.\<close>

function item_seq :: "u8 list \<Rightarrow> (u8 \<times> u32) list option" where
  "item_seq bs =
     (if bs = [] then Some []
      else case fetch_item bs 0 of
             Inl e \<Rightarrow> None
           | Inr (i, d, rest, n) \<Rightarrow> map_option (Cons (i, d)) (item_seq rest))"
  by pat_completeness auto

termination
  by (relation "measure length") (auto dest: fetch_item_shorter)

declare item_seq.simps [simp del]

lemma fetch_item_size:
  "fetch_item bs m = Inr (i, d, rest, k) \<Longrightarrow>
   fetch_item bs n = Inr (i, d, rest, n - of_nat (length bs - length rest))"
  by (auto simp: fetch_item_def Let_def split: list.splits if_splits)

lemma hid_loop_ok:
  assumes "item_seq bs = Some is" and "\<forall>(i, d) \<in> set is. i AND 0xFC \<noteq> item_label HID_RI_PUSH"
    and "length bs < 65536" and "hid_inv p"
  shows "\<exists>code info. hid_loop filt bs (of_nat (length bs)) p = Inr (code, info) \<and> info_ok info"
  using assms
proof (induction bs arbitrary: "is" p rule: item_seq.induct)
  case (1 bs)
  show ?case
  proof (cases "bs = []")
    case True
    then show ?thesis using "1.prems"
      by (subst hid_loop.simps) (simp add: hid_finish_def hid_inv_info)
  next
    case False
    then obtain i d rest n where f0: "fetch_item bs 0 = Inr (i, d, rest, n)"
      using "1.prems"(1) by (subst (asm) item_seq.simps) (auto split: sum.splits)
    have shorter: "length rest < length bs" by (rule fetch_item_shorter [OF f0])
    have f: "fetch_item bs (of_nat (length bs)) = Inr (i, d, rest, of_nat (length rest))"
      using fetch_item_size [OF f0, of "of_nat (length bs)"] shorter by (simp add: of_nat_diff)
    obtain is' where is': "item_seq rest = Some is'" and "is": "is = (i, d) # is'"
      using "1.prems"(1) False f0 by (subst (asm) item_seq.simps) auto
    have nz: "(of_nat (length bs) :: u16) \<noteq> 0"
      using unat_of_nat_u16 [OF "1.prems"(3)] False by auto
    have sw: "ok_outcome (hid_switch filt i d p)"
      using "1.prems"(2,4) "is" by (intro switch_ok) auto
    have IH: "\<exists>code info. hid_loop filt rest (of_nat (length rest)) p' = Inr (code, info) \<and> info_ok info"
      if "hid_inv p'" for p'
      using "1.IH" [OF False f0 refl refl refl is'] "1.prems"(2,3) shorter "is" that by simp
    show ?thesis using sw nz f IH reset_locals_inv
      by (subst hid_loop.simps) (auto split: outcome.splits)
  qed
qed





subsection \<open>Layout of the items of a report\<close>

definition size_bits :: "u8 \<Rightarrow> hid_parser \<Rightarrow> u16" where
  "size_bits ty p = ReportSizeBits (ReportIDSizes (ParserData p) ! CurrReportIDInfo p) ! unat ty"

lemma add_item_layout:
  assumes "hid_inv p" and "hid_add_item filt tag d p = Next p'"
  shows "size_bits (item_type tag) p' =
      size_bits (item_type tag) p + ucast (BitSize (St_Attributes (hd (StateTable p)))) \<and>
    BitOffset (ReportItems (ParserData p') ! unat (TotalReportItems (ParserData p))) =
      size_bits (item_type tag) p \<and>
    StateTable p' = StateTable p"
proof -
  have len: "length (ReportItems (ParserData p)) = 20" "unat (TotalReportItems (ParserData p)) \<le> 20"
    "CurrReportIDInfo p < length (ReportIDSizes (ParserData p))"
    "length (ReportSizeBits (ReportIDSizes (ParserData p) ! CurrReportIDInfo p)) = 3"
    using assms(1) by (auto simp: hid_inv_def info_ok_def)
  show ?thesis
    using assms(2) len item_type_less [of tag]
    by (auto simp: hid_add_item_def Let_def case_prod_beta size_bits_def split: if_splits)
qed

text \<open>An INPUT, OUTPUT or FEATURE item that the parser accepts reserves \<open>ReportCount\<close> times \<open>BitSize\<close>
  bits in the report of its type, counted modulo the 16-bit width of the size field.\<close>

theorem add_items_layout:
  assumes "hid_inv p" and "hid_add_items filt tag d n p = Next p'"
  shows "size_bits (item_type tag) p' =
    size_bits (item_type tag) p + of_nat n * ucast (BitSize (St_Attributes (hd (StateTable p))))"
  using assms
proof (induction n arbitrary: p)
  case 0
  then show ?case by simp
next
  case (Suc n)
  then obtain q where q: "hid_add_item filt tag d p = Next q" and rest: "hid_add_items filt tag d n q = Next p'"
    by (auto split: outcome.splits)
  have "hid_inv q" using add_item_ok [OF Suc.prems(1), of filt tag d] q by simp
  from Suc.IH [OF this rest] add_item_layout [OF Suc.prems(1) q] show ?case
    by (simp add: algebra_simps)
qed

theorem add_items_layout_witness:
  "\<exists>p'. hid_add_items (\<lambda>_. True) 0x80 2 3 (upd_attr (\<lambda>a. a\<lparr>BitSize := 5\<rparr>) hid_init) = Next p' \<and>
     size_bits HID_REPORT_ITEM_In p' = 15"
proof -
  let ?p = "upd_attr (\<lambda>a. a\<lparr>BitSize := 5\<rparr>) hid_init"
  have "\<exists>p'. hid_add_items (\<lambda>_. True) 0x80 2 3 ?p = Next p'"
    by (simp add: numeral_3_eq_3 hid_add_item_def hid_init_def upd_attr_def upd_state_def next_usage_def
        zero_Attributes_def zero_MinMax_def Let_def split: if_splits)
  then obtain p' where p': "hid_add_items (\<lambda>_. True) 0x80 2 3 ?p = Next p'" by blast
  have ty: "item_type 0x80 = HID_REPORT_ITEM_In" by (simp add: item_type_def)
  have "size_bits HID_REPORT_ITEM_In ?p = 0" "BitSize (St_Attributes (hd (StateTable ?p))) = 5"
    by (simp_all add: size_bits_def hid_init_def upd_attr_def upd_state_def zero_SizeInfo_def
        HID_REPORT_ITEM_In_def)
  then show ?thesis using add_items_layout [OF _ p'] ty p' hid_init_inv by simp
qed

end
