(* ===== verification/PadReport.thy ===== *)
theory PadReport
  imports Descriptors HIDParser
begin

text \<open>
  The input report of the pad (\<^verbatim>\<open>USB_JoystickReport_Input_t\<close> of \<^verbatim>\<open>Joystick.h\<close>) against its report
  descriptor (\<open>JoystickReport\<close>): what a host that parses the descriptor reads out of the bytes the
  firmware sends. The parser is the one of LUFA, with a filter that accepts every item.
\<close>

subsection \<open>The report structures\<close>

record USB_JoystickReport_Input_t =
  Button :: u16
  HAT :: u8
  LX :: u8
  LY :: u8
  RX :: u8
  RY :: u8
  VendorSpec :: u8

definition bytes_of_Input :: "USB_JoystickReport_Input_t \<Rightarrow> u8 list" where
  "bytes_of_Input r = le16 (Button r) @ [HAT r, LX r, LY r, RX r, RY r, VendorSpec r]"

text \<open>\<^verbatim>\<open>USB_JoystickReport_Output_t\<close> is the same without the last field.\<close>

record USB_JoystickReport_Output_t =
  Out_Button :: u16
  Out_HAT :: u8
  Out_LX :: u8
  Out_LY :: u8
  Out_RX :: u8
  Out_RY :: u8

definition sizeof_Output :: nat where
  "sizeof_Output = 2 + 1 + 1 + 1 + 1 + 1"

lemma sizeof_Input [simp]: "length (bytes_of_Input r) = 8"
  by (simp add: bytes_of_Input_def)

subsection \<open>The parsed descriptor\<close>

definition pad_item :: "u16 \<Rightarrow> u8 \<Rightarrow> u16 \<Rightarrow> u16 \<Rightarrow> u32 \<Rightarrow> u32 \<Rightarrow> u32 \<Rightarrow> u16 \<Rightarrow> HID_ReportItem_t" where
  "pad_item off sz page usage unit logmax physmax flags =
     \<lparr>BitOffset = off, ItemType = HID_REPORT_ITEM_In, ItemFlags = flags, Item_ReportID = 0,
      CollectionPath = Some 0,
      Item_Attributes =
        \<lparr>BitSize = sz, Attr_Usage = \<lparr>Page = page, Usage = usage\<rparr>,
         Attr_Unit = \<lparr>Unit_Type = unit, Exponent = 0\<rparr>,
         Logical = \<lparr>Minimum = 0, Maximum = logmax\<rparr>, Physical = \<lparr>Minimum = 0, Maximum = physmax\<rparr>\<rparr>,
      Value = None, PreviousValue = None\<rparr>"

definition button_item :: "nat \<Rightarrow> HID_ReportItem_t" where
  "button_item i = pad_item (of_nat i) 1 9 (of_nat (i + 1)) 0 1 1 2"

definition hat_item :: HID_ReportItem_t where
  "hat_item = pad_item 16 4 1 57 20 7 315 66"

definition stick_item :: "u16 \<Rightarrow> u16 \<Rightarrow> HID_ReportItem_t" where
  "stick_item off usage = pad_item off 8 1 usage 0 255 255 2"

definition pad_items :: "HID_ReportItem_t list" where
  "pad_items = map button_item [0..<14] @
     [hat_item, stick_item 24 48, stick_item 32 49, stick_item 40 50, stick_item 48 53]"

text \<open>The slot behind the last counted item holds the constant vendor byte, which is not counted.\<close>

definition pad_info :: HID_ReportInfo_t where
  "pad_info =
     \<lparr>TotalReportItems = 19,
      ReportItems = pad_items @ [pad_item 56 8 1 0 0 255 255 1],
      CollectionPaths = \<lparr>Coll_Type = 1, Coll_Usage = \<lparr>Page = 1, Usage = 5\<rparr>, Parent = None\<rparr> #
        replicate 9 zero_Collection,
      TotalDeviceReports = 1,
      ReportIDSizes = \<lparr>Size_ReportID = 0, ReportSizeBits = [64, 0, 0]\<rparr> # replicate 9 zero_SizeInfo,
      LargestReportSizeBits = 64, UsingReportIDs = False\<rparr>"

lemma parse_JoystickReport:
  "USB_ProcessHIDReport (\<lambda>_. True) JoystickReport (of_nat (length JoystickReport)) =
     Inr (HID_PARSE_Successful, pad_info)"
  unfolding JoystickReport_bytes by code_simp

subsection \<open>What the host reads out of a report\<close>

definition host_values :: "HID_ReportInfo_t \<Rightarrow> u8 list \<Rightarrow> u32 option list" where
  "host_values info bs =
     map (\<lambda>it. case USB_GetHIDReportItemInfo bs (Some it) of
            Inr (True, Some it') \<Rightarrow> Value it' | _ \<Rightarrow> None)
       (take (unat (TotalReportItems info)) (ReportItems info))"

definition host_usages :: "HID_ReportInfo_t \<Rightarrow> (u16 \<times> u16) list" where
  "host_usages info =
     map (\<lambda>it. (Page (Attr_Usage (Item_Attributes it)), Usage (Attr_Usage (Item_Attributes it))))
       (take (unat (TotalReportItems info)) (ReportItems info))"

lemma dbit_byte: "j < 8 \<Longrightarrow> dbit bs (8 * i + j) = bit (bs ! i) j"
  by (simp add: dbit_def)

lemma field_byte: "field bs (8 * i) 8 = ucast (bs ! i)"
  by (rule bit_word_eqI) (auto simp: bit_field dbit_byte bit_ucast_u8_u32)

lemma field_low_nibble: "field bs (8 * i) 4 = ucast (bs ! i AND 0xF)"
proof (rule bit_word_eqI)
  fix j
  have m: "(0xF :: u8) = mask 4" by (simp add: mask_eq_exp_minus_1)
  show "bit (field bs (8 * i) 4) j = bit (ucast (bs ! i AND 0xF) :: u32) j"
    unfolding m by (cases "j < 8") (auto simp: bit_field dbit_byte bit_ucast_u8_u32 bit_simps)
qed

lemma field_bit: "field bs k 1 = of_bool (dbit bs k)"
  by (rule bit_word_eqI) (auto simp: bit_field bit_of_bool_iff)

lemma Button_bit: "i < 16 \<Longrightarrow> dbit (bytes_of_Input r) i = bit (Button r) i"
proof (cases "i < 8")
  case True
  then show ?thesis using dbit_byte [of i "bytes_of_Input r" 0]
    by (simp add: bytes_of_Input_def le16_def lo8_def byte_bits)
next
  case False
  assume "i < 16"
  with False obtain j where "i = 8 * 1 + j" "j < 8" by (metis le_add_diff_inverse linorder_not_less
        mult.right_neutral nat_add_left_cancel_less numeral_Bit0)
  then show ?thesis using dbit_byte [of j "bytes_of_Input r" 1]
    by (simp add: bytes_of_Input_def le16_def hi8_def byte_bits)
qed

lemma pad_item_simps [simp]:
  "BitOffset (pad_item off sz page usage unit logmax physmax flags) = off"
  "BitSize (Item_Attributes (pad_item off sz page usage unit logmax physmax flags)) = sz"
  "Attr_Usage (Item_Attributes (pad_item off sz page usage unit logmax physmax flags)) =
     \<lparr>Page = page, Usage = usage\<rparr>"
  "Item_ReportID (pad_item off sz page usage unit logmax physmax flags) = 0"
  by (simp_all add: pad_item_def)

definition item_value :: "u8 list \<Rightarrow> HID_ReportItem_t \<Rightarrow> u32 option" where
  "item_value bs it =
     (case USB_GetHIDReportItemInfo bs (Some it) of Inr (True, Some it') \<Rightarrow> Value it' | _ \<Rightarrow> None)"

lemma item_value_pad_item:
  assumes "unat off + unat sz \<le> 64"
  shows "item_value (bytes_of_Input r) (pad_item off sz page usage unit logmax physmax flags) =
    Some (field (bytes_of_Input r) (unat off) (unat sz))"
proof -
  let ?it = "pad_item off sz page usage unit logmax physmax flags"
  have "item_fits ?it (bytes_of_Input r)" using assms by (simp add: item_fits_def payload_def)
  from GetHIDReportItemInfo_eq [OF this] show ?thesis by (simp add: item_value_def payload_def)
qed

lemma button_value: "i < 14 \<Longrightarrow> item_value (bytes_of_Input r) (button_item i) = Some (of_bool (bit (Button r) i))"
  by (simp add: button_item_def item_value_pad_item unat_of_nat_u16 Button_bit field_bit [simplified])

lemma bytes_of_Input_nth:
  "bytes_of_Input r ! 2 = HAT r" "bytes_of_Input r ! 3 = LX r" "bytes_of_Input r ! 4 = LY r"
  "bytes_of_Input r ! 5 = RX r" "bytes_of_Input r ! 6 = RY r" "bytes_of_Input r ! 7 = VendorSpec r"
  by (simp_all add: bytes_of_Input_def le16_def)

lemma axis_values:
  "item_value (bytes_of_Input r) hat_item = Some (ucast (HAT r AND 0xF))"
  "item_value (bytes_of_Input r) (stick_item 24 u) = Some (ucast (LX r))"
  "item_value (bytes_of_Input r) (stick_item 32 u) = Some (ucast (LY r))"
  "item_value (bytes_of_Input r) (stick_item 40 u) = Some (ucast (RX r))"
  "item_value (bytes_of_Input r) (stick_item 48 u) = Some (ucast (RY r))"
  using field_low_nibble [of "bytes_of_Input r" 2] field_byte [of "bytes_of_Input r" 3]
    field_byte [of "bytes_of_Input r" 4] field_byte [of "bytes_of_Input r" 5]
    field_byte [of "bytes_of_Input r" 6]
  by (simp_all add: hat_item_def stick_item_def item_value_pad_item bytes_of_Input_nth)

lemma pad_info_items: "take (unat (TotalReportItems pad_info)) (ReportItems pad_info) = pad_items"
  by (simp add: pad_info_def pad_items_def)

lemma pad_info_values:
  "host_values pad_info (bytes_of_Input r) =
     map (\<lambda>i. Some (of_bool (bit (Button r) i))) [0..<14] @
     map Some [ucast (HAT r AND 0xF), ucast (LX r), ucast (LY r), ucast (RX r), ucast (RY r)]"
  unfolding host_values_def pad_info_items item_value_def [symmetric]
  by (simp add: pad_items_def button_value axis_values del: upt.simps upt_rec_numeral upt_Suc)

text \<open>C10: A host that parses the report descriptor of the firmware succeeds and finds an 8-byte input
  report, exactly the size of \<^verbatim>\<open>USB_JoystickReport_Input_t\<close>, with fourteen buttons, the HAT switch
  and the axes X, Y, Z and Rz; and for every report structure, the values it reads out of the bytes
  are the fourteen button bits in order, the low nibble of \<open>HAT\<close> and the four stick positions.\<close>

theorem host_decodes_pad_report:
  "\<exists>info. USB_ProcessHIDReport (\<lambda>_. True) JoystickReport (of_nat (length JoystickReport)) =
       Inr (HID_PARSE_Successful, info) \<and>
     USB_GetHIDReportSize info 0 HID_REPORT_ITEM_In = of_nat (length (bytes_of_Input r)) \<and>
     host_usages info = map (\<lambda>i. (9, of_nat (i + 1))) [0..<14] @ [(1, 57), (1, 48), (1, 49), (1, 50), (1, 53)] \<and>
     host_values info (bytes_of_Input r) =
       map (\<lambda>i. Some (of_bool (bit (Button r) i))) [0..<14] @
       map Some [ucast (HAT r AND 0xF), ucast (LX r), ucast (LY r), ucast (RX r), ucast (RY r)]"
proof (intro exI [of _ pad_info] conjI parse_JoystickReport)
  show "USB_GetHIDReportSize pad_info 0 HID_REPORT_ITEM_In = of_nat (length (bytes_of_Input r))"
    by (simp add: USB_GetHIDReportSize_def pad_info_def HID_REPORT_ITEM_In_def)
  show "host_usages pad_info =
      map (\<lambda>i. (9, of_nat (i + 1))) [0..<14] @ [(1, 57), (1, 48), (1, 49), (1, 50), (1, 53)]"
    unfolding host_usages_def pad_info_items
    by (simp add: pad_items_def button_item_def hat_item_def stick_item_def)
qed (rule pad_info_values)

end
