(* ===== verification/Loops.thy ===== *)
theory Loops
  imports Main "HOL-Library.Monad_Syntax"
begin

text \<open>
  Loops whose number of turns the environment decides. The polling loops of the firmware have no bound
  of their own: they go on until a register or a variable changed by an interrupt lets them stop. One
  turn of such a loop ends it with a result (\<open>Inl\<close>), goes on with a new state (\<open>Inr\<close>), or does not return
  itself (\<open>None\<close>); \<open>iterate\<close> repeats the turn. \<open>iterate_induct\<close> is the rule for what a loop that
  returns has done, \<open>iterate_returns\<close> the rule that a loop returns because a well-founded
  measure of its state decreases.
\<close>

partial_function (option) iterate :: "('x \<Rightarrow> ('r + 'x) option) \<Rightarrow> 'x \<Rightarrow> 'r option" where
  "iterate turn x =
     do { y \<leftarrow> turn x; (case y of Inl r \<Rightarrow> Some r | Inr x' \<Rightarrow> iterate turn x') }"

lemma iterate_stop: "turn x = Some (Inl r) \<Longrightarrow> iterate turn x = Some r"
  by (subst iterate.simps) simp

lemma iterate_go: "turn x = Some (Inr x') \<Longrightarrow> iterate turn x = iterate turn x'"
  by (subst iterate.simps) simp

lemma iterate_induct [consumes 1, case_names stop go]:
  assumes "iterate turn x = Some r"
    and "\<And>x r. turn x = Some (Inl r) \<Longrightarrow> P x r"
    and "\<And>x x' r. turn x = Some (Inr x') \<Longrightarrow> P x' r \<Longrightarrow> P x r"
  shows "P x r"
proof -
  let ?Q = "\<lambda>f x r. f = turn \<longrightarrow> P x r"
  have step: "?Q f x r"
    if ih: "\<And>f x r. g f x = Some r \<Longrightarrow> ?Q f x r" and body: "f x \<bind> case_sum Some (g f) = Some r"
    for g f x r
  proof
    assume f: "f = turn"
    obtain y where y: "turn x = Some y" and r: "case_sum Some (g f) y = Some r"
      using body f by (cases "f x") auto
    show "P x r"
    proof (cases y)
      case (Inl q)
      then show ?thesis using y r assms(2) by simp
    next
      case (Inr x')
      then have "P x' r" using r f ih [of f x' r] by simp
      then show ?thesis using assms(3) y Inr by blast
    qed
  qed
  have "(case (turn, x) of (f, x) \<Rightarrow> ?Q f x) r"
    by (rule iterate.raw_induct [of ?Q]) (rule step, assumption+, simp add: assms(1))
  then show ?thesis by simp
qed

lemma iterate_invariant:
  assumes "iterate turn x = Some r" and "I x"
    and "\<And>x x'. I x \<Longrightarrow> turn x = Some (Inr x') \<Longrightarrow> I x'" and "\<And>x r. I x \<Longrightarrow> turn x = Some (Inl r) \<Longrightarrow> Q r"
  shows "Q r"
proof -
  from assms(1) have "I x \<longrightarrow> Q r"
  proof (induction rule: iterate_induct)
    case (stop x r)
    then show ?case using assms(4) by blast
  next
    case (go x x' r)
    then show ?case using assms(3) by blast
  qed
  with assms(2) show ?thesis by blast
qed

lemma iterate_returns:
  assumes "wf R" and "I x" and "\<And>x. I x \<Longrightarrow> \<exists>y. turn x = Some y"
    and "\<And>x x'. I x \<Longrightarrow> turn x = Some (Inr x') \<Longrightarrow> I x' \<and> (x', x) \<in> R"
    and "\<And>x r. I x \<Longrightarrow> turn x = Some (Inl r) \<Longrightarrow> Q r"
  shows "\<exists>r. iterate turn x = Some r \<and> Q r"
  using assms(1,2)
proof (induction x rule: wf_induct_rule)
  case (less x)
  from assms(3) [OF less.prems] obtain y where y: "turn x = Some y" by blast
  show ?case
  proof (cases y)
    case (Inl r)
    then show ?thesis using y iterate_stop [of turn x r] assms(5) [OF less.prems, of r] by simp
  next
    case (Inr x')
    then have "(x', x) \<in> R" "I x'" using assms(4) [OF less.prems, of x'] y by simp_all
    from less.IH [OF this] show ?thesis using y Inr iterate_go [of turn x x'] by simp
  qed
qed

lemma iterate_hangs:
  assumes "I x" and "\<And>x. I x \<Longrightarrow> \<exists>x'. turn x = Some (Inr x') \<and> I x'"
  shows "iterate turn x = None"
proof (rule ccontr)
  assume "iterate turn x \<noteq> None"
  then obtain r where "iterate turn x = Some r" by blast
  then have "I x \<longrightarrow> False"
  proof (induction rule: iterate_induct)
    case (stop x r)
    then show ?case using assms(2) [of x] by auto
  next
    case (go x x' r)
    then show ?case using assms(2) [of x] by auto
  qed
  with assms(1) show False by blast
qed

end
