(* ===== verification/Machine.thy ===== *)
theory Machine
  imports Prelude Loops
begin

text \<open>
  The machine the firmware runs on, as far as the program sees it: the memory-mapped registers of
  the ATmega16U2 and the global variables of the USB stack.

  The hardware is not part of the program, so it is a parameter: \<open>dev h r\<close> is the value a read of
  register \<open>r\<close> returns after the register accesses \<open>h\<close> so far. A function of the whole history can
  describe any behaviour of the device and of the host behind it. The state records every access in
  \<open>io\<close>; what a piece of code does to the hardware is what it appends to that list.

  Interrupts can come between any two steps of the main program. What the polling loops see of them is
  the volatile variable \<^verbatim>\<open>USB_DeviceState\<close>: before each read of it, \<open>irq\<close> says whether a handler has
  run and stored a new state. The handlers themselves are modelled in theory \<open>USBInterrupt\<close>.
  \<open>sig_row a\<close> is the byte of the signature row of the controller at address \<open>a\<close>.
\<close>

subsection \<open>Registers\<close>

datatype (plugins only: code size) reg =
    UENUM | UERST | UECONX | UECFG0X | UECFG1X | UESTA0X | UEIENX | UEINTX | UEINT | UEDATX | UEBCLX
  | UDADDR | UDCON | UDINT | UDIEN | UDFNUML | UDFNUMH
  | USBCON | PLLCSR | REGCR | UPOE
  | UCSR1A | UCSR1B | UCSR1C | UBRR1L | UBRR1H | UDR1
  | DDRD | PORTD | MCUSR | WDTCSR | CLKPR | DDRB | PORTB | PIND | PINB

datatype access = Rd reg u8 | Wr reg u8

type_synonym history = "access list"

text \<open>Bit numbers of the registers (\<^verbatim>\<open>avr/iom16u2.h\<close>).\<close>

abbreviation (input) "EPEN \<equiv> 0 :: nat"
abbreviation (input) "RSTDT \<equiv> 3 :: nat"
abbreviation (input) "STALLRQC \<equiv> 4 :: nat"
abbreviation (input) "STALLRQ \<equiv> 5 :: nat"
abbreviation (input) "EPDIR \<equiv> 0 :: nat"
abbreviation (input) "EPTYPE0 \<equiv> 6 :: nat"
abbreviation (input) "ALLOC \<equiv> 1 :: nat"
abbreviation (input) "EPBK0 \<equiv> 2 :: nat"
abbreviation (input) "EPSIZE0 \<equiv> 4 :: nat"
abbreviation (input) "CFGOK \<equiv> 7 :: nat"
abbreviation (input) "TXINI \<equiv> 0 :: nat"
abbreviation (input) "RXOUTI \<equiv> 2 :: nat"
abbreviation (input) "RXSTPI \<equiv> 3 :: nat"
abbreviation (input) "RWAL \<equiv> 5 :: nat"
abbreviation (input) "FIFOCON \<equiv> 7 :: nat"
abbreviation (input) "ADDEN \<equiv> 7 :: nat"
abbreviation (input) "DETACH \<equiv> 0 :: nat"
abbreviation (input) "RMWKUP \<equiv> 1 :: nat"
abbreviation (input) "SUSPI \<equiv> 0 :: nat"
abbreviation (input) "SOFI \<equiv> 2 :: nat"
abbreviation (input) "EORSTI \<equiv> 3 :: nat"
abbreviation (input) "WAKEUPI \<equiv> 4 :: nat"
abbreviation (input) "RXSTPE \<equiv> 3 :: nat"
abbreviation (input) "USBE \<equiv> 7 :: nat"
abbreviation (input) "FRZCLK \<equiv> 5 :: nat"
abbreviation (input) "PLOCK \<equiv> 0 :: nat"
abbreviation (input) "PLLE \<equiv> 1 :: nat"
abbreviation (input) "REGDIS \<equiv> 0 :: nat"

subsection \<open>State\<close>

datatype USB_Device_States_t =
    DEVICE_STATE_Unattached | DEVICE_STATE_Powered | DEVICE_STATE_Default
  | DEVICE_STATE_Addressed | DEVICE_STATE_Configured | DEVICE_STATE_Suspended

record USB_Request_Header_t =
  bmRequestType :: u8
  bRequest :: u8
  wValue :: u16
  wIndex :: u16
  wLength :: u16

record world =
  dev :: "history \<Rightarrow> reg \<Rightarrow> u8"
  irq :: "history \<Rightarrow> USB_Device_States_t option"
  sig_row :: "u8 \<Rightarrow> u8"

text \<open>The globals of \<^verbatim>\<open>USBTask.c\<close> and \<^verbatim>\<open>DeviceStandardReq.c\<close>. The record is extensible: the
  application adds its own globals.\<close>

record usb =
  io :: history
  USB_DeviceState :: USB_Device_States_t
  USB_ControlRequest :: USB_Request_Header_t
  USB_Device_ConfigurationNumber :: u8
  USB_Device_CurrentlySelfPowered :: bool
  USB_Device_RemoteWakeupEnabled :: bool
  USB_IsInitialized :: bool

subsection \<open>Register accesses\<close>

definition rd :: "world \<Rightarrow> reg \<Rightarrow> 'a usb_scheme \<Rightarrow> u8 \<times> 'a usb_scheme" where
  "rd w r s = (let v = dev w (io s) r in (v, s\<lparr>io := io s @ [Rd r v]\<rparr>))"

definition wr :: "reg \<Rightarrow> u8 \<Rightarrow> 'a usb_scheme \<Rightarrow> 'a usb_scheme" where
  "wr r v s = s\<lparr>io := io s @ [Wr r v]\<rparr>"

text \<open>\<^verbatim>\<open>r |= m\<close> and \<^verbatim>\<open>r &= ~m\<close>: a read and a write of the same register.\<close>

definition set_mask :: "world \<Rightarrow> reg \<Rightarrow> u8 \<Rightarrow> 'a usb_scheme \<Rightarrow> 'a usb_scheme" where
  "set_mask w r m s = (let (v, s) = rd w r s in wr r (v OR m) s)"

definition clear_mask :: "world \<Rightarrow> reg \<Rightarrow> u8 \<Rightarrow> 'a usb_scheme \<Rightarrow> 'a usb_scheme" where
  "clear_mask w r m s = (let (v, s) = rd w r s in wr r (v AND NOT m) s)"

text \<open>\<^verbatim>\<open>(r & m) ? true : false\<close>.\<close>

definition test_mask :: "world \<Rightarrow> reg \<Rightarrow> u8 \<Rightarrow> 'a usb_scheme \<Rightarrow> bool \<times> 'a usb_scheme" where
  "test_mask w r m s = (let (v, s) = rd w r s in (has v m, s))"

text \<open>A read of the volatile variable \<^verbatim>\<open>USB_DeviceState\<close>.\<close>

definition get_DeviceState :: "world \<Rightarrow> 'a usb_scheme \<Rightarrow> USB_Device_States_t \<times> 'a usb_scheme" where
  "get_DeviceState w s =
     (let s' = (case irq w (io s) of None \<Rightarrow> s | Some st \<Rightarrow> s\<lparr>USB_DeviceState := st\<rparr>)
      in (USB_DeviceState s', s'))"

subsection \<open>What an access leaves behind\<close>

text \<open>\<open>emits s s' t\<close>: the code between \<open>s\<close> and \<open>s'\<close> made the register accesses \<open>t\<close>. The collection
  \<open>io_simps\<close> unfolds single accesses.\<close>

named_theorems io_simps \<open>effect of single register accesses\<close>

lemma rd_eq [io_simps]: "rd w r s = (dev w (io s) r, s\<lparr>io := io s @ [Rd r (dev w (io s) r)]\<rparr>)"
  by (simp add: rd_def Let_def)

lemmas [io_simps] = wr_def

lemma set_mask_eq [io_simps]:
  "set_mask w r m s =
     s\<lparr>io := io s @ [Rd r (dev w (io s) r), Wr r (dev w (io s) r OR m)]\<rparr>"
  by (simp add: set_mask_def rd_eq wr_def)

lemma clear_mask_eq [io_simps]:
  "clear_mask w r m s =
     s\<lparr>io := io s @ [Rd r (dev w (io s) r), Wr r (dev w (io s) r AND NOT m)]\<rparr>"
  by (simp add: clear_mask_def rd_eq wr_def)

lemma test_mask_eq [io_simps]:
  "test_mask w r m s = (has (dev w (io s) r) m, s\<lparr>io := io s @ [Rd r (dev w (io s) r)]\<rparr>)"
  by (simp add: test_mask_def rd_eq)

text \<open>\<open>emits t s s'\<close>: from \<open>s\<close> to \<open>s'\<close> only the accesses \<open>t\<close> were made and no variable changed.\<close>

definition emits :: "history \<Rightarrow> 'a usb_scheme \<Rightarrow> 'a usb_scheme \<Rightarrow> bool" where
  "emits t s s' \<longleftrightarrow> s' = s\<lparr>io := io s @ t\<rparr>"

lemma emits_refl [simp]: "emits [] s s"
  by (simp add: emits_def)

lemma emits_trans: "emits t s s' \<Longrightarrow> emits t' s' s'' \<Longrightarrow> emits (t @ t') s s''"
  by (simp add: emits_def)

lemma emits_io: "emits t s s' \<Longrightarrow> io s' = io s @ t"
  by (simp add: emits_def)

text \<open>\<open>polls t s s'\<close>: the code read the registers of \<open>t\<close>, wrote none, and the only variable that may
  have changed is the one interrupts change.\<close>

fun is_read :: "access \<Rightarrow> bool" where
  "is_read (Rd r v) = True"
| "is_read (Wr r v) = False"

definition polls :: "history \<Rightarrow> 'a usb_scheme \<Rightarrow> 'a usb_scheme \<Rightarrow> bool" where
  "polls t s s' \<longleftrightarrow> list_all is_read t \<and>
     (\<exists>st. s' = s\<lparr>io := io s @ t, USB_DeviceState := st\<rparr>)"

lemma polls_refl [simp]: "polls [] s s"
  by (auto simp: polls_def intro: exI [of _ "USB_DeviceState s"])

lemma polls_trans: "polls t s s' \<Longrightarrow> polls t' s' s'' \<Longrightarrow> polls (t @ t') s s''"
  by (auto simp: polls_def)

lemma polls_io: "polls t s s' \<Longrightarrow> io s' = io s @ t"
  by (auto simp: polls_def)

lemma polls_rd: "polls [Rd r v] s (s\<lparr>io := io s @ [Rd r v]\<rparr>)"
  by (auto simp: polls_def intro: exI [of _ "USB_DeviceState s"])

lemma get_DeviceState_polls:
  "get_DeviceState w s = (st, s') \<Longrightarrow> polls [] s s' \<and> io s' = io s \<and> USB_DeviceState s' = st"
  by (auto simp: get_DeviceState_def polls_def Let_def split: option.splits
      intro: exI [of _ "USB_DeviceState s"])

text \<open>The device state a read returns, and the effect of the read.\<close>

definition seen_state :: "world \<Rightarrow> 'a usb_scheme \<Rightarrow> USB_Device_States_t" where
  "seen_state w s = (case irq w (io s) of None \<Rightarrow> USB_DeviceState s | Some st \<Rightarrow> st)"

lemma get_DeviceState_eq: "get_DeviceState w s = (seen_state w s, s\<lparr>USB_DeviceState := seen_state w s\<rparr>)"
  by (simp add: get_DeviceState_def seen_state_def Let_def split: option.split)

lemma upd_order: "s\<lparr>USB_DeviceState := st, io := h\<rparr> = s\<lparr>io := h, USB_DeviceState := st\<rparr>"
  by simp

text \<open>\<open>touches W s s'\<close>: from \<open>s\<close> to \<open>s'\<close> only registers of \<open>W\<close> were written, and no variable but the device
  state changed. It composes, so it holds of a function when it holds of the functions it calls.\<close>

definition touches :: "reg set \<Rightarrow> 'a usb_scheme \<Rightarrow> 'a usb_scheme \<Rightarrow> bool" where
  "touches W s s' \<longleftrightarrow> (\<exists>t st. s' = s\<lparr>io := io s @ t, USB_DeviceState := st\<rparr> \<and> (\<forall>r v. Wr r v \<in> set t \<longrightarrow> r \<in> W))"

named_theorems touching \<open>which registers an operation writes\<close>

lemma touches_refl [touching]: "touches W s s"
  unfolding touches_def by (intro exI [of _ "[]"] exI [of _ "USB_DeviceState s"]) simp

lemma touches_trans:
  assumes "touches W s s'" and "touches W s' s''"
  shows "touches W s s''"
proof -
  obtain t st where t: "s' = s\<lparr>io := io s @ t, USB_DeviceState := st\<rparr>" "\<forall>r v. Wr r v \<in> set t \<longrightarrow> r \<in> W"
    using assms(1) unfolding touches_def by blast
  obtain t' st' where t': "s'' = s'\<lparr>io := io s' @ t', USB_DeviceState := st'\<rparr>"
    "\<forall>r v. Wr r v \<in> set t' \<longrightarrow> r \<in> W"
    using assms(2) unfolding touches_def by blast
  show ?thesis unfolding touches_def
  proof (intro exI conjI)
    show "s'' = s\<lparr>io := io s @ (t @ t'), USB_DeviceState := st'\<rparr>" unfolding t'(1) t(1) by simp
    show "\<forall>r v. Wr r v \<in> set (t @ t') \<longrightarrow> r \<in> W" using t(2) t'(2) by auto
  qed
qed

lemma touches_mono: "touches W s s' \<Longrightarrow> W \<subseteq> W' \<Longrightarrow> touches W' s s'"
  unfolding touches_def by blast

lemma touches_trace:
  assumes "\<forall>r v. Wr r v \<in> set t \<longrightarrow> r \<in> W"
  shows "touches W s (s\<lparr>io := io s @ t\<rparr>)"
  unfolding touches_def using assms by (intro exI [of _ t] exI [of _ "USB_DeviceState s"]) simp

lemma touches_state: "touches W s (s\<lparr>USB_DeviceState := st\<rparr>)"
  unfolding touches_def by (intro exI [of _ "[]"] exI [of _ st]) simp

lemma touches_rd: "rd w r s = (v, s') \<Longrightarrow> touches W s s'"
  by (auto simp: rd_eq intro: touches_trace)

lemma touches_wr: "r \<in> W \<Longrightarrow> touches W s (wr r v s)"
  by (simp add: wr_def touches_trace)

lemma touches_set_mask: "r \<in> W \<Longrightarrow> touches W s (set_mask w r m s)"
  by (simp add: set_mask_eq touches_trace)

lemma touches_clear_mask: "r \<in> W \<Longrightarrow> touches W s (clear_mask w r m s)"
  by (simp add: clear_mask_eq touches_trace)

lemma touches_test_mask: "test_mask w r m s = (b, s') \<Longrightarrow> touches W s s'"
  by (auto simp: test_mask_eq intro: touches_trace)

lemma touches_get_DeviceState: "get_DeviceState w s = (st, s') \<Longrightarrow> touches W s s'"
  by (auto simp: get_DeviceState_eq intro: touches_state)

lemma touches_vars:
  assumes "touches W s s'"
  shows "USB_ControlRequest s' = USB_ControlRequest s"
    and "USB_Device_ConfigurationNumber s' = USB_Device_ConfigurationNumber s"
    and "USB_Device_CurrentlySelfPowered s' = USB_Device_CurrentlySelfPowered s"
    and "USB_Device_RemoteWakeupEnabled s' = USB_Device_RemoteWakeupEnabled s"
    and "more s' = more s"
  using assms by (auto simp: touches_def)

text \<open>Writes to a register, in order.\<close>

fun writes :: "reg \<Rightarrow> history \<Rightarrow> u8 list" where
  "writes r [] = []"
| "writes r (Wr r' v # h) = (if r' = r then v # writes r h else writes r h)"
| "writes r (Rd r' v # h) = writes r h"

fun reads :: "reg \<Rightarrow> history \<Rightarrow> u8 list" where
  "reads r [] = []"
| "reads r (Rd r' v # h) = (if r' = r then v # reads r h else reads r h)"
| "reads r (Wr r' v # h) = reads r h"

lemma writes_append [simp]: "writes r (h @ h') = writes r h @ writes r h'"
  by (induction r h rule: writes.induct) auto

lemma reads_append [simp]: "reads r (h @ h') = reads r h @ reads r h'"
  by (induction r h rule: reads.induct) auto

text \<open>Most registers of the endpoint layer are banked by \<^verbatim>\<open>UENUM\<close>. \<open>ep_writes e t\<close> lists the writes of a
  trace with the endpoint they go to, when \<open>e\<close> is selected at its start; \<open>ep_sel e t\<close> is the endpoint
  selected at its end.\<close>

fun ep_sel :: "u8 \<Rightarrow> history \<Rightarrow> u8" where
  "ep_sel e [] = e"
| "ep_sel e (Wr r v # t) = ep_sel (if r = UENUM then v else e) t"
| "ep_sel e (Rd r v # t) = ep_sel e t"

fun ep_writes :: "u8 \<Rightarrow> history \<Rightarrow> (u8 \<times> reg \<times> u8) list" where
  "ep_writes e [] = []"
| "ep_writes e (Wr r v # t) = (if r = UENUM then ep_writes v t else (e, r, v) # ep_writes e t)"
| "ep_writes e (Rd r v # t) = ep_writes e t"

lemma ep_sel_append [simp]: "ep_sel e (t @ t') = ep_sel (ep_sel e t) t'"
  by (induction e t rule: ep_sel.induct) auto

lemma ep_writes_append [simp]: "ep_writes e (t @ t') = ep_writes e t @ ep_writes (ep_sel e t) t'"
  by (induction e t rule: ep_writes.induct) auto

subsection \<open>A concrete world\<close>

text \<open>Registers with constant values and no interrupts, and the state after power-up; they serve as
  examples for the theorems of the other theories.\<close>

definition const_world :: "(reg \<Rightarrow> u8) \<Rightarrow> world" where
  "const_world f = \<lparr>dev = (\<lambda>h. f), irq = (\<lambda>h. None), sig_row = (\<lambda>a. 0)\<rparr>"

definition usb_init :: usb where
  "usb_init = \<lparr>io = [], USB_DeviceState = DEVICE_STATE_Unattached,
     USB_ControlRequest = \<lparr>bmRequestType = 0, bRequest = 0, wValue = 0, wIndex = 0, wLength = 0\<rparr>,
     USB_Device_ConfigurationNumber = 0, USB_Device_CurrentlySelfPowered = False,
     USB_Device_RemoteWakeupEnabled = False, USB_IsInitialized = False\<rparr>"

lemma const_world_simps [simp]: "dev (const_world f) h = f" "irq (const_world f) h = None"
  by (simp_all add: const_world_def)

lemma usb_init_io [simp]: "io usb_init = []"
  by (simp add: usb_init_def)

end
