(* ===== verification/Endpoint.thy ===== *)
theory Endpoint
  imports Machine Descriptors
begin

text \<open>
  The endpoint layer of LUFA for the AVR8 (\<^verbatim>\<open>Core/AVR8/Endpoint_AVR8.h\<close>, \<^verbatim>\<open>Endpoint_AVR8.c\<close>) and the
  register helpers of \<^verbatim>\<open>Device_AVR8.h\<close>, in the configuration of the firmware: ATmega16U2 (USB series 2),
  five endpoints, a control endpoint of 64 bytes, no ordered endpoint configuration. Polling loops that
  the hardware can keep running forever are partial functions (theory \<open>Loops\<close>): \<open>None\<close> means that the
  call does not return.
\<close>

subsection \<open>Inline functions\<close>

definition ENDPOINT_EPNUM_MASK :: u8 where "ENDPOINT_EPNUM_MASK = 0x0F"
definition ENDPOINT_CONTROLEP :: u8 where "ENDPOINT_CONTROLEP = 0"
definition ENDPOINT_TOTAL_ENDPOINTS :: nat where "ENDPOINT_TOTAL_ENDPOINTS = 5"

partial_function (option) BytesToEPSizeMask_loop :: "u16 \<Rightarrow> u8 \<Rightarrow> u16 \<Rightarrow> u8 option" where
  "BytesToEPSizeMask_loop Bytes MaskVal CheckBytes =
     (if CheckBytes < Bytes
      then BytesToEPSizeMask_loop Bytes (MaskVal + 1) (push_bit 1 CheckBytes)
      else Some MaskVal)"

definition Endpoint_BytesToEPSizeMask :: "u16 \<Rightarrow> u8 option" where
  "Endpoint_BytesToEPSizeMask Bytes = map_option (push_bit EPSIZE0) (BytesToEPSizeMask_loop Bytes 0 8)"

definition Endpoint_BytesInEndpoint :: "world \<Rightarrow> 'a usb_scheme \<Rightarrow> u16 \<times> 'a usb_scheme" where
  "Endpoint_BytesInEndpoint w s = (let (v, s) = rd w UEBCLX s in (ucast v, s))"

definition Endpoint_GetEndpointDirection :: "world \<Rightarrow> 'a usb_scheme \<Rightarrow> u8 \<times> 'a usb_scheme" where
  "Endpoint_GetEndpointDirection w s =
     (let (b, s) = test_mask w UECFG0X (bv EPDIR) s in (if b then ENDPOINT_DIR_IN else ENDPOINT_DIR_OUT, s))"

definition Endpoint_GetCurrentEndpoint :: "world \<Rightarrow> 'a usb_scheme \<Rightarrow> u8 \<times> 'a usb_scheme" where
  "Endpoint_GetCurrentEndpoint w s =
     (let (n, s) = rd w UENUM s; (d, s) = Endpoint_GetEndpointDirection w s
      in ((n AND ENDPOINT_EPNUM_MASK) OR d, s))"

definition Endpoint_SelectEndpoint :: "u8 \<Rightarrow> 'a usb_scheme \<Rightarrow> 'a usb_scheme" where
  "Endpoint_SelectEndpoint Address s = wr UENUM (Address AND ENDPOINT_EPNUM_MASK) s"

definition Endpoint_ResetEndpoint :: "u8 \<Rightarrow> 'a usb_scheme \<Rightarrow> 'a usb_scheme" where
  "Endpoint_ResetEndpoint Address s =
     wr UERST 0 (wr UERST (bv (unat (Address AND ENDPOINT_EPNUM_MASK))) s)"

definition Endpoint_EnableEndpoint :: "world \<Rightarrow> 'a usb_scheme \<Rightarrow> 'a usb_scheme" where
  "Endpoint_EnableEndpoint w s = set_mask w UECONX (bv EPEN) s"

definition Endpoint_DisableEndpoint :: "world \<Rightarrow> 'a usb_scheme \<Rightarrow> 'a usb_scheme" where
  "Endpoint_DisableEndpoint w s = clear_mask w UECONX (bv EPEN) s"

definition Endpoint_IsEnabled :: "world \<Rightarrow> 'a usb_scheme \<Rightarrow> bool \<times> 'a usb_scheme" where
  "Endpoint_IsEnabled w s = test_mask w UECONX (bv EPEN) s"

definition Endpoint_GetBusyBanks :: "world \<Rightarrow> 'a usb_scheme \<Rightarrow> u8 \<times> 'a usb_scheme" where
  "Endpoint_GetBusyBanks w s = (let (v, s) = rd w UESTA0X s in (v AND 0x03, s))"

definition Endpoint_IsReadWriteAllowed :: "world \<Rightarrow> 'a usb_scheme \<Rightarrow> bool \<times> 'a usb_scheme" where
  "Endpoint_IsReadWriteAllowed w s = test_mask w UEINTX (bv RWAL) s"

definition Endpoint_IsConfigured :: "world \<Rightarrow> 'a usb_scheme \<Rightarrow> bool \<times> 'a usb_scheme" where
  "Endpoint_IsConfigured w s = test_mask w UESTA0X (bv CFGOK) s"

definition Endpoint_GetEndpointInterrupts :: "world \<Rightarrow> 'a usb_scheme \<Rightarrow> u8 \<times> 'a usb_scheme" where
  "Endpoint_GetEndpointInterrupts w s = rd w UEINT s"

definition Endpoint_HasEndpointInterrupted :: "world \<Rightarrow> u8 \<Rightarrow> 'a usb_scheme \<Rightarrow> bool \<times> 'a usb_scheme" where
  "Endpoint_HasEndpointInterrupted w Address s =
     (let (v, s) = Endpoint_GetEndpointInterrupts w s
      in (has v (bv (unat (Address AND ENDPOINT_EPNUM_MASK))), s))"

definition Endpoint_IsINReady :: "world \<Rightarrow> 'a usb_scheme \<Rightarrow> bool \<times> 'a usb_scheme" where
  "Endpoint_IsINReady w s = test_mask w UEINTX (bv TXINI) s"

definition Endpoint_IsOUTReceived :: "world \<Rightarrow> 'a usb_scheme \<Rightarrow> bool \<times> 'a usb_scheme" where
  "Endpoint_IsOUTReceived w s = test_mask w UEINTX (bv RXOUTI) s"

definition Endpoint_IsSETUPReceived :: "world \<Rightarrow> 'a usb_scheme \<Rightarrow> bool \<times> 'a usb_scheme" where
  "Endpoint_IsSETUPReceived w s = test_mask w UEINTX (bv RXSTPI) s"

definition Endpoint_ClearSETUP :: "world \<Rightarrow> 'a usb_scheme \<Rightarrow> 'a usb_scheme" where
  "Endpoint_ClearSETUP w s = clear_mask w UEINTX (bv RXSTPI) s"

definition Endpoint_ClearIN :: "world \<Rightarrow> 'a usb_scheme \<Rightarrow> 'a usb_scheme" where
  "Endpoint_ClearIN w s = clear_mask w UEINTX (bv TXINI OR bv FIFOCON) s"

definition Endpoint_ClearOUT :: "world \<Rightarrow> 'a usb_scheme \<Rightarrow> 'a usb_scheme" where
  "Endpoint_ClearOUT w s = clear_mask w UEINTX (bv RXOUTI OR bv FIFOCON) s"

definition Endpoint_StallTransaction :: "world \<Rightarrow> 'a usb_scheme \<Rightarrow> 'a usb_scheme" where
  "Endpoint_StallTransaction w s = set_mask w UECONX (bv STALLRQ) s"

definition Endpoint_ClearStall :: "world \<Rightarrow> 'a usb_scheme \<Rightarrow> 'a usb_scheme" where
  "Endpoint_ClearStall w s = set_mask w UECONX (bv STALLRQC) s"

definition Endpoint_IsStalled :: "world \<Rightarrow> 'a usb_scheme \<Rightarrow> bool \<times> 'a usb_scheme" where
  "Endpoint_IsStalled w s = test_mask w UECONX (bv STALLRQ) s"

definition Endpoint_ResetDataToggle :: "world \<Rightarrow> 'a usb_scheme \<Rightarrow> 'a usb_scheme" where
  "Endpoint_ResetDataToggle w s = set_mask w UECONX (bv RSTDT) s"

definition Endpoint_SetEndpointDirection :: "world \<Rightarrow> u8 \<Rightarrow> 'a usb_scheme \<Rightarrow> 'a usb_scheme" where
  "Endpoint_SetEndpointDirection w DirectionMask s =
     (let (v, s) = rd w UECFG0X s
      in wr UECFG0X ((v AND NOT (bv EPDIR)) OR (if DirectionMask \<noteq> 0 then bv EPDIR else 0)) s)"

definition Endpoint_Read_8 :: "world \<Rightarrow> 'a usb_scheme \<Rightarrow> u8 \<times> 'a usb_scheme" where
  "Endpoint_Read_8 w s = rd w UEDATX s"

definition Endpoint_Write_8 :: "u8 \<Rightarrow> 'a usb_scheme \<Rightarrow> 'a usb_scheme" where
  "Endpoint_Write_8 x s = wr UEDATX x s"

definition Endpoint_Discard_8 :: "world \<Rightarrow> 'a usb_scheme \<Rightarrow> 'a usb_scheme" where
  "Endpoint_Discard_8 w s = snd (rd w UEDATX s)"

definition Endpoint_Read_16_LE :: "world \<Rightarrow> 'a usb_scheme \<Rightarrow> u16 \<times> 'a usb_scheme" where
  "Endpoint_Read_16_LE w s = (let (b0, s) = rd w UEDATX s; (b1, s) = rd w UEDATX s in (join16 b1 b0, s))"

definition Endpoint_Read_16_BE :: "world \<Rightarrow> 'a usb_scheme \<Rightarrow> u16 \<times> 'a usb_scheme" where
  "Endpoint_Read_16_BE w s = (let (b1, s) = rd w UEDATX s; (b0, s) = rd w UEDATX s in (join16 b1 b0, s))"

definition Endpoint_Write_16_LE :: "u16 \<Rightarrow> 'a usb_scheme \<Rightarrow> 'a usb_scheme" where
  "Endpoint_Write_16_LE x s = wr UEDATX (hi8 x) (wr UEDATX (lo8 x) s)"

definition Endpoint_Write_16_BE :: "u16 \<Rightarrow> 'a usb_scheme \<Rightarrow> 'a usb_scheme" where
  "Endpoint_Write_16_BE x s = wr UEDATX (lo8 x) (wr UEDATX (hi8 x) s)"

definition Endpoint_Discard_16 :: "world \<Rightarrow> 'a usb_scheme \<Rightarrow> 'a usb_scheme" where
  "Endpoint_Discard_16 w s = Endpoint_Discard_8 w (Endpoint_Discard_8 w s)"

definition Endpoint_Read_32_LE :: "world \<Rightarrow> 'a usb_scheme \<Rightarrow> u32 \<times> 'a usb_scheme" where
  "Endpoint_Read_32_LE w s =
     (let (b0, s) = rd w UEDATX s; (b1, s) = rd w UEDATX s; (b2, s) = rd w UEDATX s; (b3, s) = rd w UEDATX s
      in (join32 b3 b2 b1 b0, s))"

definition Endpoint_Read_32_BE :: "world \<Rightarrow> 'a usb_scheme \<Rightarrow> u32 \<times> 'a usb_scheme" where
  "Endpoint_Read_32_BE w s =
     (let (b3, s) = rd w UEDATX s; (b2, s) = rd w UEDATX s; (b1, s) = rd w UEDATX s; (b0, s) = rd w UEDATX s
      in (join32 b3 b2 b1 b0, s))"

definition Endpoint_Write_32_LE :: "u32 \<Rightarrow> 'a usb_scheme \<Rightarrow> 'a usb_scheme" where
  "Endpoint_Write_32_LE x s =
     wr UEDATX (byte32 3 x) (wr UEDATX (byte32 2 x) (wr UEDATX (byte32 1 x) (wr UEDATX (byte32 0 x) s)))"

definition Endpoint_Write_32_BE :: "u32 \<Rightarrow> 'a usb_scheme \<Rightarrow> 'a usb_scheme" where
  "Endpoint_Write_32_BE x s =
     wr UEDATX (byte32 0 x) (wr UEDATX (byte32 1 x) (wr UEDATX (byte32 2 x) (wr UEDATX (byte32 3 x) s)))"

definition Endpoint_Discard_32 :: "world \<Rightarrow> 'a usb_scheme \<Rightarrow> 'a usb_scheme" where
  "Endpoint_Discard_32 w s = Endpoint_Discard_16 w (Endpoint_Discard_16 w s)"

text \<open>\<^verbatim>\<open>Endpoint_AbortPendingIN\<close>: the outer and the inner loop.\<close>

partial_function (option) AbortPendingIN_wait :: "world \<Rightarrow> 'a usb_scheme \<Rightarrow> 'a usb_scheme option" where
  "AbortPendingIN_wait w s =
     (let (b, s) = test_mask w UEINTX (bv RXOUTI) s in if b then AbortPendingIN_wait w s else Some s)"

partial_function (option) Endpoint_AbortPendingIN :: "world \<Rightarrow> 'a usb_scheme \<Rightarrow> 'a usb_scheme option" where
  "Endpoint_AbortPendingIN w s =
     (let (n, s) = Endpoint_GetBusyBanks w s in
      if n \<noteq> 0
      then do { s \<leftarrow> AbortPendingIN_wait w (set_mask w UEINTX (bv RXOUTI) s); Endpoint_AbortPendingIN w s }
      else Some s)"

subsection \<open>Configuration\<close>

text \<open>The loop of \<^verbatim>\<open>Endpoint_ConfigureEndpoint_Prv\<close> over the endpoints from \<open>Number\<close> on. The later ones are
  switched off and on again because the hardware allocates endpoint memory in ascending order.
  \<open>configure_turn\<close> is the part of the body that rewrites the selected endpoint.\<close>

definition configure_turn :: "world \<Rightarrow> u8 \<Rightarrow> u8 \<Rightarrow> u8 \<Rightarrow> 'a usb_scheme \<Rightarrow> bool \<times> 'a usb_scheme" where
  "configure_turn w UECFG0XTemp UECFG1XTemp UEIENXTemp s =
     (let s = Endpoint_DisableEndpoint w s;
          s = clear_mask w UECFG1X (bv ALLOC) s;
          s = Endpoint_EnableEndpoint w s;
          s = wr UECFG0X UECFG0XTemp s;
          s = wr UECFG1X UECFG1XTemp s;
          s = wr UEIENX UEIENXTemp s
      in Endpoint_IsConfigured w s)"

function Configure_loop :: "world \<Rightarrow> nat \<Rightarrow> u8 \<Rightarrow> u8 \<Rightarrow> nat \<Rightarrow> 'a usb_scheme \<Rightarrow> bool \<times> 'a usb_scheme" where
  "Configure_loop w Number UECFG0XData UECFG1XData EPNum s =
     (if EPNum < ENDPOINT_TOTAL_ENDPOINTS then
        let s = Endpoint_SelectEndpoint (of_nat EPNum) s;
            (UECFG0XTemp, UECFG1XTemp, UEIENXTemp, s) =
              (if EPNum = Number then (UECFG0XData, UECFG1XData, 0, s)
               else let (a, s) = rd w UECFG0X s; (b, s) = rd w UECFG1X s; (c, s) = rd w UEIENX s
                    in (a, b, c, s))
        in if \<not> has UECFG1XTemp (bv ALLOC)
           then Configure_loop w Number UECFG0XData UECFG1XData (EPNum + 1) s
           else
             let (ok, s) = configure_turn w UECFG0XTemp UECFG1XTemp UEIENXTemp s
             in if ok then Configure_loop w Number UECFG0XData UECFG1XData (EPNum + 1) s else (False, s)
      else (True, Endpoint_SelectEndpoint (of_nat Number) s))"
  by pat_completeness auto

termination
  by (relation "measure (\<lambda>(w, Number, a, b, EPNum, s). ENDPOINT_TOTAL_ENDPOINTS - EPNum)") auto

declare Configure_loop.simps [simp del]

definition Endpoint_ConfigureEndpoint_Prv ::
  "world \<Rightarrow> u8 \<Rightarrow> u8 \<Rightarrow> u8 \<Rightarrow> 'a usb_scheme \<Rightarrow> bool \<times> 'a usb_scheme" where
  "Endpoint_ConfigureEndpoint_Prv w Number UECFG0XData UECFG1XData s =
     Configure_loop w (unat Number) UECFG0XData UECFG1XData (unat Number) s"

definition Endpoint_ConfigureEndpoint ::
  "world \<Rightarrow> u8 \<Rightarrow> u8 \<Rightarrow> u16 \<Rightarrow> u8 \<Rightarrow> 'a usb_scheme \<Rightarrow> (bool \<times> 'a usb_scheme) option" where
  "Endpoint_ConfigureEndpoint w Address ep_type ep_size Banks s =
     (let Number = Address AND ENDPOINT_EPNUM_MASK in
      if unat Number \<ge> ENDPOINT_TOTAL_ENDPOINTS then Some (False, s)
      else do {
        sz \<leftarrow> Endpoint_BytesToEPSizeMask ep_size;
        Some (Endpoint_ConfigureEndpoint_Prv w Number
          (push_bit EPTYPE0 ep_type OR (if has Address ENDPOINT_DIR_IN then bv EPDIR else 0))
          (bv ALLOC OR (if Banks > 1 then bv EPBK0 else 0) OR sz) s)
      })"

record USB_Endpoint_Table_t =
  Tab_Address :: u8
  Tab_Size :: u16
  Tab_Type :: u8
  Tab_Banks :: u8

fun Endpoint_ConfigureEndpointTable ::
  "world \<Rightarrow> USB_Endpoint_Table_t list \<Rightarrow> 'a usb_scheme \<Rightarrow> (bool \<times> 'a usb_scheme) option" where
  "Endpoint_ConfigureEndpointTable w [] s = Some (True, s)"
| "Endpoint_ConfigureEndpointTable w (e # es) s =
     (if Tab_Address e = 0 then Endpoint_ConfigureEndpointTable w es s
      else do {
        (ok, s) \<leftarrow> Endpoint_ConfigureEndpoint w (Tab_Address e) (Tab_Type e) (Tab_Size e) (Tab_Banks e) s;
        if ok then Endpoint_ConfigureEndpointTable w es s else Some (False, s)
      })"

text \<open>The same functions as they are compiled with \<^verbatim>\<open>ORDERED_EP_CONFIG\<close>, for programs that configure their endpoints in ascending order.\<close>

definition Endpoint_ConfigureEndpoint_Prv_ordered ::
  "world \<Rightarrow> u8 \<Rightarrow> u8 \<Rightarrow> u8 \<Rightarrow> 'a usb_scheme \<Rightarrow> bool \<times> 'a usb_scheme" where
  "Endpoint_ConfigureEndpoint_Prv_ordered w Number UECFG0XData UECFG1XData s =
     (let s = Endpoint_EnableEndpoint w (Endpoint_SelectEndpoint Number s);
          s = wr UECFG1X 0 s;
          s = wr UECFG0X UECFG0XData s;
          s = wr UECFG1X UECFG1XData s
      in Endpoint_IsConfigured w s)"

definition Endpoint_ConfigureEndpoint_ordered ::
  "world \<Rightarrow> u8 \<Rightarrow> u8 \<Rightarrow> u16 \<Rightarrow> u8 \<Rightarrow> 'a usb_scheme \<Rightarrow> (bool \<times> 'a usb_scheme) option" where
  "Endpoint_ConfigureEndpoint_ordered w Address ep_type ep_size Banks s =
     (let Number = Address AND ENDPOINT_EPNUM_MASK in
      if unat Number \<ge> ENDPOINT_TOTAL_ENDPOINTS then Some (False, s)
      else do {
        sz \<leftarrow> Endpoint_BytesToEPSizeMask ep_size;
        Some (Endpoint_ConfigureEndpoint_Prv_ordered w Number
          (push_bit EPTYPE0 ep_type OR (if has Address ENDPOINT_DIR_IN then bv EPDIR else 0))
          (bv ALLOC OR (if Banks > 1 then bv EPBK0 else 0) OR sz) s)
      })"

fun Endpoint_ConfigureEndpointTable_ordered ::
  "world \<Rightarrow> USB_Endpoint_Table_t list \<Rightarrow> 'a usb_scheme \<Rightarrow> (bool \<times> 'a usb_scheme) option" where
  "Endpoint_ConfigureEndpointTable_ordered w [] s = Some (True, s)"
| "Endpoint_ConfigureEndpointTable_ordered w (e # es) s =
     (if Tab_Address e = 0 then Endpoint_ConfigureEndpointTable_ordered w es s
      else do {
        (ok, s) \<leftarrow> Endpoint_ConfigureEndpoint_ordered w (Tab_Address e) (Tab_Type e) (Tab_Size e) (Tab_Banks e) s;
        if ok then Endpoint_ConfigureEndpointTable_ordered w es s else Some (False, s)
      })"

fun ClearEndpoints_loop :: "world \<Rightarrow> nat list \<Rightarrow> 'a usb_scheme \<Rightarrow> 'a usb_scheme" where
  "ClearEndpoints_loop w [] s = s"
| "ClearEndpoints_loop w (EPNum # es) s =
     (let s = Endpoint_SelectEndpoint (of_nat EPNum) s;
          s = wr UEIENX 0 s;
          s = wr UEINTX 0 s;
          s = wr UECFG1X 0 s
      in ClearEndpoints_loop w es (Endpoint_DisableEndpoint w s))"

definition Endpoint_ClearEndpoints :: "world \<Rightarrow> 'a usb_scheme \<Rightarrow> 'a usb_scheme" where
  "Endpoint_ClearEndpoints w s = ClearEndpoints_loop w [0..<ENDPOINT_TOTAL_ENDPOINTS] (wr UEINT 0 s)"

subsection \<open>Waiting\<close>

definition REQDIR_DEVICETOHOST :: u8 where "REQDIR_DEVICETOHOST = 0x80"

text \<open>The two loops of \<^verbatim>\<open>Endpoint_ClearStatusStage\<close>; the result says whether the packet arrived.\<close>

definition wait_OUT_or_unattached :: "world \<Rightarrow> 'a usb_scheme \<Rightarrow> (bool \<times> 'a usb_scheme) option" where
  "wait_OUT_or_unattached w = iterate (\<lambda>s.
     let (b, s) = Endpoint_IsOUTReceived w s in
     if b then Some (Inl (True, s))
     else let (st, s) = get_DeviceState w s in
       Some (if st = DEVICE_STATE_Unattached then Inl (False, s) else Inr s))"

definition wait_IN_or_unattached :: "world \<Rightarrow> 'a usb_scheme \<Rightarrow> (bool \<times> 'a usb_scheme) option" where
  "wait_IN_or_unattached w = iterate (\<lambda>s.
     let (b, s) = Endpoint_IsINReady w s in
     if b then Some (Inl (True, s))
     else let (st, s) = get_DeviceState w s in
       Some (if st = DEVICE_STATE_Unattached then Inl (False, s) else Inr s))"

definition Endpoint_ClearStatusStage :: "world \<Rightarrow> 'a usb_scheme \<Rightarrow> 'a usb_scheme option" where
  "Endpoint_ClearStatusStage w s =
     (if has (bmRequestType (USB_ControlRequest s)) REQDIR_DEVICETOHOST
      then do { (got, s) \<leftarrow> wait_OUT_or_unattached w s; Some (if got then Endpoint_ClearOUT w s else s) }
      else do { (got, s) \<leftarrow> wait_IN_or_unattached w s; Some (if got then Endpoint_ClearIN w s else s) })"

datatype Endpoint_WaitUntilReady_ErrorCodes =
    ENDPOINT_READYWAIT_NoError | ENDPOINT_READYWAIT_EndpointStalled
  | ENDPOINT_READYWAIT_DeviceDisconnected | ENDPOINT_READYWAIT_BusSuspended | ENDPOINT_READYWAIT_Timeout

definition USB_STREAM_TIMEOUT_MS :: u8 where "USB_STREAM_TIMEOUT_MS = 100"

text \<open>\<^verbatim>\<open>UDFNUM\<close> is a 16-bit register, read low byte first.\<close>

definition USB_Device_GetFrameNumber :: "world \<Rightarrow> 'a usb_scheme \<Rightarrow> u16 \<times> 'a usb_scheme" where
  "USB_Device_GetFrameNumber w s = (let (l, s) = rd w UDFNUML s; (h, s) = rd w UDFNUMH s in (join16 h l, s))"

definition ready_poll :: "world \<Rightarrow> 'a usb_scheme \<Rightarrow> bool \<times> 'a usb_scheme" where
  "ready_poll w s =
     (let (d, s) = Endpoint_GetEndpointDirection w s
      in if d = ENDPOINT_DIR_IN then Endpoint_IsINReady w s else Endpoint_IsOUTReceived w s)"

text \<open>One turn of the waiting loop: it ends with a result, or with the current frame number.\<close>

definition wait_turn ::
  "world \<Rightarrow> 'a usb_scheme \<Rightarrow> (Endpoint_WaitUntilReady_ErrorCodes + u16) \<times> 'a usb_scheme" where
  "wait_turn w s =
     (let (ready, s) = ready_poll w s in
      if ready then (Inl ENDPOINT_READYWAIT_NoError, s)
      else let (st, s) = get_DeviceState w s in
        if st = DEVICE_STATE_Unattached then (Inl ENDPOINT_READYWAIT_DeviceDisconnected, s)
        else if st = DEVICE_STATE_Suspended then (Inl ENDPOINT_READYWAIT_BusSuspended, s)
        else let (stalled, s) = Endpoint_IsStalled w s in
          if stalled then (Inl ENDPOINT_READYWAIT_EndpointStalled, s)
          else let (CurrentFrameNumber, s) = USB_Device_GetFrameNumber w s in (Inr CurrentFrameNumber, s))"

partial_function (option) WaitUntilReady_loop ::
  "world \<Rightarrow> u8 \<Rightarrow> u16 \<Rightarrow> 'a usb_scheme \<Rightarrow> (Endpoint_WaitUntilReady_ErrorCodes \<times> 'a usb_scheme) option" where
  "WaitUntilReady_loop w TimeoutMSRem PreviousFrameNumber s =
     (case wait_turn w s of
        (Inl code, s) \<Rightarrow> Some (code, s)
      | (Inr CurrentFrameNumber, s) \<Rightarrow>
          if CurrentFrameNumber \<noteq> PreviousFrameNumber
          then if TimeoutMSRem = 0 then Some (ENDPOINT_READYWAIT_Timeout, s)
               else WaitUntilReady_loop w (TimeoutMSRem - 1) CurrentFrameNumber s
          else WaitUntilReady_loop w TimeoutMSRem PreviousFrameNumber s)"

definition Endpoint_WaitUntilReady ::
  "world \<Rightarrow> 'a usb_scheme \<Rightarrow> (Endpoint_WaitUntilReady_ErrorCodes \<times> 'a usb_scheme) option" where
  "Endpoint_WaitUntilReady w s =
     (let (f, s) = USB_Device_GetFrameNumber w s in WaitUntilReady_loop w USB_STREAM_TIMEOUT_MS f s)"

subsection \<open>Device address\<close>

definition USB_Device_SetDeviceAddress :: "world \<Rightarrow> u8 \<Rightarrow> 'a usb_scheme \<Rightarrow> 'a usb_scheme" where
  "USB_Device_SetDeviceAddress w Address s =
     (let (v, s) = rd w UDADDR s in wr UDADDR ((v AND bv ADDEN) OR (Address AND 0x7F)) s)"

definition USB_Device_EnableDeviceAddress :: "world \<Rightarrow> u8 \<Rightarrow> 'a usb_scheme \<Rightarrow> 'a usb_scheme" where
  "USB_Device_EnableDeviceAddress w Address s = set_mask w UDADDR (bv ADDEN) s"

definition USB_Device_IsAddressSet :: "world \<Rightarrow> 'a usb_scheme \<Rightarrow> bool \<times> 'a usb_scheme" where
  "USB_Device_IsAddressSet w s = test_mask w UDADDR (bv ADDEN) s"

lemmas endpoint_defs = Endpoint_BytesInEndpoint_def Endpoint_GetEndpointDirection_def
  Endpoint_SelectEndpoint_def Endpoint_ResetEndpoint_def Endpoint_EnableEndpoint_def
  Endpoint_DisableEndpoint_def Endpoint_IsEnabled_def Endpoint_IsReadWriteAllowed_def
  Endpoint_IsConfigured_def Endpoint_IsINReady_def Endpoint_IsOUTReceived_def
  Endpoint_IsSETUPReceived_def Endpoint_ClearSETUP_def Endpoint_ClearIN_def Endpoint_ClearOUT_def
  Endpoint_StallTransaction_def Endpoint_ClearStall_def Endpoint_IsStalled_def
  Endpoint_ResetDataToggle_def Endpoint_Read_8_def Endpoint_Write_8_def Endpoint_Discard_8_def

lemmas ep_io = endpoint_defs io_simps

subsection \<open>Endpoint sizes\<close>

lemma push_bit_8_u16: "m < 13 \<Longrightarrow> unat (push_bit m 8 :: u16) = 8 * 2 ^ m"
proof -
  assume "m < 13"
  then have "8 * 2 ^ m < (65536 :: nat)"
    using power_increasing [of m 12 "2 :: nat"] by simp
  moreover have "(push_bit m 8 :: u16) = of_nat (8 * 2 ^ m)" by (simp add: push_bit_eq_mult)
  ultimately show ?thesis by (simp only: unat_of_nat_u16)
qed

lemma BytesToEPSizeMask_loop_eq:
  assumes "m \<le> k" and "k < 13" and "unat Bytes \<le> 8 * 2 ^ k" and "\<And>j. j < k \<Longrightarrow> 8 * 2 ^ j < unat Bytes"
  shows "BytesToEPSizeMask_loop Bytes (of_nat m) (push_bit m 8) = Some (of_nat k)"
  using assms(1)
proof (induction "k - m" arbitrary: m)
  case 0
  then have "m = k" by simp
  then show ?case using assms(2,3)
    by (subst BytesToEPSizeMask_loop.simps) (simp add: word_less_nat_alt push_bit_8_u16)
next
  case (Suc d)
  then have mk: "m < k" by simp
  then have "push_bit m 8 < Bytes"
    using assms(4) [of m] assms(2) by (simp add: word_less_nat_alt push_bit_8_u16)
  moreover have "(push_bit 1 (push_bit m 8) :: u16) = push_bit (Suc m) 8" by (simp add: add.commute)
  moreover have "(of_nat m + 1 :: u8) = of_nat (Suc m)" by simp
  ultimately show ?case using Suc mk
    by (subst BytesToEPSizeMask_loop.simps) (simp only: if_True Suc(1) [of "Suc m"])
qed

lemma BytesToEPSizeMask_hangs:
  assumes "32768 < unat Bytes"
  shows "BytesToEPSizeMask_loop Bytes 0 8 = None"
proof -
  let ?P = "\<lambda>B (M :: u8) C (r :: u8). \<not> (B = Bytes \<and> (C = 0 \<or> (\<exists>m < 13. C = push_bit m 8)))"
  have step: "C < Bytes \<and> (push_bit 1 C = 0 \<or> (\<exists>m < 13. push_bit 1 C = push_bit m 8))"
    if "C = 0 \<or> (\<exists>m < 13. C = push_bit m 8)" for C :: u16
    using that
  proof
    assume "C = 0"
    then show ?thesis using assms by (simp add: word_less_nat_alt)
  next
    assume "\<exists>m < 13. C = push_bit m 8"
    then obtain m where m: "m < 13" "C = push_bit m 8" by blast
    have "8 * 2 ^ m \<le> (32768 :: nat)" using power_increasing [of m 12 "2 :: nat"] m(1) by simp
    then have lt: "C < Bytes" using assms m by (simp add: word_less_nat_alt push_bit_8_u16)
    have "push_bit 1 C = push_bit (Suc m) 8" using m(2) by (simp add: add.commute)
    moreover have "(push_bit 13 8 :: u16) = 0" by simp
    ultimately show ?thesis using lt m(1) by (cases "m = 12") (auto intro: exI [of _ "Suc m"])
  qed
  have "?P B M C r" if ret: "BytesToEPSizeMask_loop B M C = Some r" for B M C r
  proof (rule BytesToEPSizeMask_loop.raw_induct [of ?P, OF _ ret])
    fix f :: "u16 \<Rightarrow> u8 \<Rightarrow> u16 \<Rightarrow> u8 option" and B M C r
    assume ih: "\<And>B M C r. f B M C = Some r \<Longrightarrow> ?P B M C r"
      and body: "(if C < B then f B (M + 1) (push_bit 1 C) else Some M) = Some r"
    show "?P B M C r"
    proof
      assume bad: "B = Bytes \<and> (C = 0 \<or> (\<exists>m < 13. C = push_bit m 8))"
      with step [of C] body have "f B (M + 1) (push_bit 1 C) = Some r" by simp
      from ih [OF this] step [of C] bad show False by blast
    qed
  qed
  moreover have "(8 :: u16) = push_bit 0 8" by simp
  ultimately show ?thesis by (metis not_None_eq zero_less_numeral)
qed

text \<open>C31: The endpoint size code is the number of doublings of 8 bytes that make the bank large enough:
  for up to 32768 bytes the loop ends with the least such number (so 8, 16, 32 and 64 bytes get the
  codes 0 to 3 of the hardware), and for more than 32768 bytes the 16-bit counter overflows to zero
  and the loop never ends.\<close>

theorem BytesToEPSizeMask_correct:
  "(k < 13 \<and> unat Bytes \<le> 8 * 2 ^ k \<and> (\<forall>j < k. 8 * 2 ^ j < unat Bytes) \<longrightarrow>
      Endpoint_BytesToEPSizeMask Bytes = Some (push_bit 4 (of_nat k))) \<and>
   (32768 < unat Bytes \<longrightarrow> Endpoint_BytesToEPSizeMask Bytes = None)"
  using BytesToEPSizeMask_loop_eq [of 0 k Bytes] BytesToEPSizeMask_hangs [of Bytes]
  by (auto simp: Endpoint_BytesToEPSizeMask_def)

lemma EPSizeMask_64: "Endpoint_BytesToEPSizeMask 64 = Some 0x30"
proof -
  have "\<forall>j < 3. 8 * 2 ^ j < (64 :: nat)" by (simp add: eval_nat_numeral All_less_Suc)
  then show ?thesis using BytesToEPSizeMask_loop_eq [of 0 3 64] by (simp add: Endpoint_BytesToEPSizeMask_def)
qed

theorem BytesToEPSizeMask_correct_witness:
  "Endpoint_BytesToEPSizeMask 8 = Some 0 \<and> Endpoint_BytesToEPSizeMask 40000 = None"
  using BytesToEPSizeMask_correct [of 0 8] BytesToEPSizeMask_correct [of 0 40000] by simp

subsection \<open>Configuring an endpoint touches no lower endpoint\<close>

lemma less_5_cases: "(n :: nat) < 5 \<Longrightarrow> n = 0 \<or> n = 1 \<or> n = 2 \<or> n = 3 \<or> n = 4"
  by arith

lemma ep_num_mask: "n < 5 \<Longrightarrow> (of_nat n AND ENDPOINT_EPNUM_MASK :: u8) = of_nat n"
  by (drule less_5_cases) (auto simp: ENDPOINT_EPNUM_MASK_def)

lemma configure_turn_emits:
  "\<exists>t ok. configure_turn w c0 c1 ie s = (ok, s\<lparr>io := io s @ t\<rparr>) \<and> ep_sel e t = e \<and>
     (\<forall>(e', r, v) \<in> set (ep_writes e t). e' = e) \<and>
     (e, UECFG0X, c0) \<in> set (ep_writes e t) \<and> (e, UECFG1X, c1) \<in> set (ep_writes e t)"
  by (auto simp: configure_turn_def ep_io Let_def)

lemma Configure_loop_emits:
  assumes "N < 5" and "N \<le> k" and "Configure_loop w N d0 d1 k s = (ok, s')"
  shows "\<exists>t. emits t s s' \<and> (\<forall>(e, r, v) \<in> set (ep_writes e0 t). N \<le> unat e \<and> unat e < 5) \<and>
    (ok \<longrightarrow> ep_sel e0 t = of_nat N)"
  using assms(2,3)
proof (induction "5 - k" arbitrary: k s e0)
  case 0
  then show ?case using assms(1)
    by (subst (asm) Configure_loop.simps)
      (auto simp: ep_io emits_def ep_num_mask ENDPOINT_TOTAL_ENDPOINTS_def intro!: exI [of _ "[Wr UENUM (of_nat N)]"])
next
  case (Suc n)
  then have k: "k < 5" by simp
  let ?e = "of_nat k :: u8"
  have e: "unat ?e = k" using k by (simp add: unat_of_nat_u8)
  have IH: "\<exists>t. emits t s1 s' \<and> (\<forall>(e, r, v) \<in> set (ep_writes e1 t). N \<le> unat e \<and> unat e < 5) \<and>
      (ok \<longrightarrow> ep_sel e1 t = of_nat N)"
    if "Configure_loop w N d0 d1 (k + 1) s1 = (ok, s')" for s1 e1
    using Suc.hyps(1) [of "k + 1" s1 e1] Suc.hyps(2) Suc.prems(1) that by simp
  have sel: "\<exists>c0 c1 ie t1. (let s = Endpoint_SelectEndpoint ?e s
       in if k = N then (d0, d1, 0, s)
          else (let (a, s) = rd w UECFG0X s; (b, s) = rd w UECFG1X s; (c, s) = rd w UEIENX s
                in (a, b, c, s))) = (c0, c1, ie, s\<lparr>io := io s @ t1\<rparr>) \<and>
      ep_sel e0 t1 = ?e \<and> ep_writes e0 t1 = []"
    using k by (auto simp: ep_io ep_num_mask Let_def)
  then obtain c0 c1 ie t1 where t1: "(let s = Endpoint_SelectEndpoint ?e s
       in if k = N then (d0, d1, 0, s)
          else (let (a, s) = rd w UECFG0X s; (b, s) = rd w UECFG1X s; (c, s) = rd w UEIENX s
                in (a, b, c, s))) = (c0, c1, ie, s\<lparr>io := io s @ t1\<rparr>)"
    and sel1: "ep_sel e0 t1 = ?e" "ep_writes e0 t1 = []" by blast
  obtain t2 cok where t2: "configure_turn w c0 c1 ie (s\<lparr>io := io s @ t1\<rparr>) = (cok, s\<lparr>io := (io s @ t1) @ t2\<rparr>)"
    and sel2: "ep_sel ?e t2 = ?e" "\<forall>(e', r, v) \<in> set (ep_writes ?e t2). e' = ?e"
    using configure_turn_emits [of w c0 c1 ie "s\<lparr>io := io s @ t1\<rparr>" ?e] by auto
  show ?case
  proof (cases "has c1 (bv ALLOC)")
    case False
    then have "Configure_loop w N d0 d1 (k + 1) (s\<lparr>io := io s @ t1\<rparr>) = (ok, s')"
      using Suc.prems(2) t1 k by (subst (asm) Configure_loop.simps) (auto simp: Let_def ENDPOINT_TOTAL_ENDPOINTS_def)
    from IH [OF this, of ?e] obtain t where
      "emits t (s\<lparr>io := io s @ t1\<rparr>) s'" "\<forall>(e, r, v) \<in> set (ep_writes ?e t). N \<le> unat e \<and> unat e < 5"
      "ok \<longrightarrow> ep_sel ?e t = of_nat N" by blast
    then show ?thesis using sel1 by (intro exI [of _ "t1 @ t"]) (auto simp: emits_def)
  next
    case True
    have "(if cok then Configure_loop w N d0 d1 (k + 1) (s\<lparr>io := (io s @ t1) @ t2\<rparr>)
           else (False, s\<lparr>io := (io s @ t1) @ t2\<rparr>)) = (ok, s')"
      using Suc.prems(2) t1 t2 k True by (subst (asm) Configure_loop.simps) (auto simp: Let_def ENDPOINT_TOTAL_ENDPOINTS_def)
    then show ?thesis
    proof (cases cok)
      case True
      then have "Configure_loop w N d0 d1 (k + 1) (s\<lparr>io := (io s @ t1) @ t2\<rparr>) = (ok, s')"
        using \<open>(if cok then _ else _) = (ok, s')\<close> by simp
      from IH [OF this, of ?e] obtain t where
        "emits t (s\<lparr>io := (io s @ t1) @ t2\<rparr>) s'" "\<forall>(e, r, v) \<in> set (ep_writes ?e t). N \<le> unat e \<and> unat e < 5"
        "ok \<longrightarrow> ep_sel ?e t = of_nat N" by blast
      then show ?thesis using sel1 sel2 e k Suc.prems(1)
        by (intro exI [of _ "t1 @ t2 @ t"]) (auto simp: emits_def)
    next
      case False
      then show ?thesis using \<open>(if cok then _ else _) = (ok, s')\<close> sel1 sel2 e k Suc.prems(1)
        by (intro exI [of _ "t1 @ t2"]) (auto simp: emits_def)
    qed
  qed
qed

lemma Configure_loop_first:
  assumes "N < 5" and "has d1 (bv ALLOC)" and "Configure_loop w N d0 d1 N s = (ok, s')"
  shows "\<exists>t. emits t s s' \<and> (\<forall>(e, r, v) \<in> set (ep_writes e0 t). N \<le> unat e \<and> unat e < 5) \<and>
    (ok \<longrightarrow> ep_sel e0 t = of_nat N) \<and>
    (of_nat N, UECFG0X, d0) \<in> set (ep_writes e0 t) \<and> (of_nat N, UECFG1X, d1) \<in> set (ep_writes e0 t)"
proof -
  let ?e = "of_nat N :: u8"
  let ?s1 = "s\<lparr>io := io s @ [Wr UENUM ?e]\<rparr>"
  have e: "unat ?e = N" using assms(1) by (simp add: unat_of_nat_u8)
  have sel: "Endpoint_SelectEndpoint ?e s = ?s1" using assms(1) by (simp add: ep_io ep_num_mask)
  obtain t2 cok where t2: "configure_turn w d0 d1 0 ?s1 = (cok, s\<lparr>io := (io s @ [Wr UENUM ?e]) @ t2\<rparr>)"
    and sel2: "ep_sel ?e t2 = ?e" "\<forall>(e', r, v) \<in> set (ep_writes ?e t2). e' = ?e"
    and cfg: "(?e, UECFG0X, d0) \<in> set (ep_writes ?e t2)" "(?e, UECFG1X, d1) \<in> set (ep_writes ?e t2)"
    using configure_turn_emits [of w d0 d1 0 ?s1 ?e] by auto
  have res: "(if cok then Configure_loop w N d0 d1 (N + 1) (s\<lparr>io := (io s @ [Wr UENUM ?e]) @ t2\<rparr>)
           else (False, s\<lparr>io := (io s @ [Wr UENUM ?e]) @ t2\<rparr>)) = (ok, s')"
    using assms sel t2 by (subst (asm) Configure_loop.simps) (auto simp: Let_def ENDPOINT_TOTAL_ENDPOINTS_def)
  have own: "\<forall>(e', r, v) \<in> set (ep_writes ?e t2). N \<le> unat e' \<and> unat e' < 5"
    using sel2(2) e assms(1) by fastforce
  show ?thesis
  proof (cases cok)
    case True
    with res obtain t where
      "emits t (s\<lparr>io := (io s @ [Wr UENUM ?e]) @ t2\<rparr>) s'"
      "\<forall>(e, r, v) \<in> set (ep_writes ?e t). N \<le> unat e \<and> unat e < 5" "ok \<longrightarrow> ep_sel ?e t = ?e"
      using Configure_loop_emits [OF assms(1), of "N + 1" w d0 d1 _ ok s' ?e] by force
    then show ?thesis using sel2(1) own cfg
      by (intro exI [of _ "[Wr UENUM ?e] @ t2 @ t"]) (auto simp: emits_def)
  next
    case False
    then show ?thesis using res sel2 own cfg
      by (intro exI [of _ "[Wr UENUM ?e] @ t2"]) (auto simp: emits_def)
  qed
qed

lemma has_alloc: "has (bv ALLOC OR x OR y) (bv ALLOC)"
  by (simp add: has_bv bit_or_iff bit_bv)

text \<open>Configuring an endpoint changes no program variable and writes only to registers of this
  endpoint and of the ones above it, whose memory the hardware has to move; the endpoint itself
  receives the requested type, direction, size and bank count, and after success it is the
  selected endpoint.\<close>

theorem ConfigureEndpoint_frame:
  assumes "Endpoint_ConfigureEndpoint w Address ep_type ep_size Banks s = Some (ok, s')"
    and "unat (Address AND ENDPOINT_EPNUM_MASK) < 5" and "Endpoint_BytesToEPSizeMask ep_size = Some sz"
  shows "\<exists>t. emits t s s' \<and>
    (\<forall>(e, r, v) \<in> set (ep_writes e0 t). Address AND ENDPOINT_EPNUM_MASK \<le> e \<and> unat e < 5) \<and>
    (Address AND ENDPOINT_EPNUM_MASK, UECFG0X,
       push_bit 6 ep_type OR (if has Address ENDPOINT_DIR_IN then 1 else 0)) \<in> set (ep_writes e0 t) \<and>
    (Address AND ENDPOINT_EPNUM_MASK, UECFG1X, 2 OR (if Banks > 1 then 4 else 0) OR sz) \<in> set (ep_writes e0 t) \<and>
    (ok \<longrightarrow> ep_sel e0 t = Address AND ENDPOINT_EPNUM_MASK)"
proof -
  let ?N = "Address AND ENDPOINT_EPNUM_MASK"
  let ?d0 = "push_bit 6 ep_type OR (if has Address ENDPOINT_DIR_IN then bv EPDIR else 0)"
  let ?d1 = "bv ALLOC OR (if Banks > 1 then bv EPBK0 else 0) OR sz"
  have "Configure_loop w (unat ?N) ?d0 ?d1 (unat ?N) s = (ok, s')"
    using assms by (simp add: Endpoint_ConfigureEndpoint_def Endpoint_ConfigureEndpoint_Prv_def
        ENDPOINT_TOTAL_ENDPOINTS_def Let_def)
  from Configure_loop_first [OF assms(2) has_alloc this, of e0]
  obtain t where t: "emits t s s'"
    "\<forall>(e, r, v) \<in> set (ep_writes e0 t). unat ?N \<le> unat e \<and> unat e < 5" "ok \<longrightarrow> ep_sel e0 t = ?N"
    "(?N, UECFG0X, ?d0) \<in> set (ep_writes e0 t)" "(?N, UECFG1X, ?d1) \<in> set (ep_writes e0 t)"
    by auto
  have b: "bv EPDIR = 1" "bv ALLOC = 2" "bv EPBK0 = 4" by (simp_all add: bv_def)
  show ?thesis using t unfolding b word_le_nat_alt by blast
qed

theorem ConfigureEndpoint_frame_witness:
  "\<exists>s' t. Endpoint_ConfigureEndpoint (const_world (\<lambda>_. 0xFF)) 0x81 3 64 1 usb_init = Some (True, s') \<and>
     emits t usb_init s' \<and> (1, UECFG0X, 0xC1) \<in> set (ep_writes 0 t) \<and> ep_sel 0 t = 1"
proof -
  obtain s' where r: "Endpoint_ConfigureEndpoint (const_world (\<lambda>_. 0xFF)) 0x81 3 64 1 usb_init = Some (True, s')"
    by (simp add: Endpoint_ConfigureEndpoint_def Endpoint_ConfigureEndpoint_Prv_def EPSizeMask_64
        ENDPOINT_TOTAL_ENDPOINTS_def ENDPOINT_EPNUM_MASK_def Configure_loop.simps configure_turn_def ep_io
        Let_def has_def bv_def)
  show ?thesis
    using ConfigureEndpoint_frame [OF r _ EPSizeMask_64, of 0] r
    by (auto simp: ENDPOINT_EPNUM_MASK_def ENDPOINT_DIR_IN_def has_def)
qed

text \<open>The registers that configuring an endpoint writes.\<close>

abbreviation "config_regs \<equiv> {UENUM, UECONX, UECFG0X, UECFG1X, UEIENX}"

lemma touches_configure_turn:
  assumes "configure_turn w c0 c1 ie s = (ok, s')"
  shows "touches config_regs s s'"
  using assms by (auto simp: configure_turn_def ep_io Let_def intro!: touches_trace)

lemma touches_Configure_loop: "touches config_regs s (snd (Configure_loop w N d0 d1 k s))"
proof (induction w N d0 d1 k s rule: Configure_loop.induct)
  case (1 w N d0 d1 k s)
  let ?s0 = "Endpoint_SelectEndpoint (of_nat k) s"
  have s0: "touches config_regs s (Endpoint_SelectEndpoint e s)" for e s
    by (simp add: Endpoint_SelectEndpoint_def touches_wr)
  obtain c0 c1 ie s1 where s1: "(if k = N then (d0, d1, 0, ?s0)
      else let (a, s) = rd w UECFG0X ?s0; (b, s) = rd w UECFG1X s; (c, s) = rd w UEIENX s in (a, b, c, s)) = (c0, c1, ie, s1)"
    by (metis prod_cases4)
  have "touches config_regs ?s0 s1"
    using s1 by (auto simp: io_simps touches_refl split: if_splits intro!: touches_trace)
  then have t1: "touches config_regs s s1" using s0 touches_trans by blast
  obtain ok s2 where s2: "configure_turn w c0 c1 ie s1 = (ok, s2)" by fastforce
  note t2 = touches_trans [OF t1 touches_configure_turn [OF s2]]
  show ?case
  proof (cases "k < ENDPOINT_TOTAL_ENDPOINTS")
    case False
    then show ?thesis using s0 by (subst Configure_loop.simps) simp
  next
    case k: True
    show ?thesis
    proof (cases "has c1 (bv ALLOC)")
      case False
      with k s1 have "touches config_regs s1 (snd (Configure_loop w N d0 d1 (k + 1) s1))"
        using "1.IH"(1) [OF k refl s1 [symmetric] refl refl] by simp
      then show ?thesis using k s1 False touches_trans [OF t1] by (subst Configure_loop.simps) (simp add: Let_def)
    next
      case True
      show ?thesis
      proof (cases ok)
        case True
        have "touches config_regs s2 (snd (Configure_loop w N d0 d1 (k + 1) s2))"
          using "1.IH"(2) [OF k refl s1 [symmetric] refl refl] \<open>has c1 (bv ALLOC)\<close> s2 True by simp
        then show ?thesis using k s1 s2 True \<open>has c1 (bv ALLOC)\<close> touches_trans [OF t2]
          by (subst Configure_loop.simps) (simp add: Let_def)
      next
        case False
        then show ?thesis using k s1 s2 \<open>has c1 (bv ALLOC)\<close> t2 by (subst Configure_loop.simps) (simp add: Let_def)
      qed
    qed
  qed
qed

lemma touches_ConfigureEndpoint:
  assumes "Endpoint_ConfigureEndpoint w Address ep_type ep_size Banks s = Some (ok, s')"
  shows "touches config_regs s s'"
  using assms touches_Configure_loop
  by (auto simp: Endpoint_ConfigureEndpoint_def Endpoint_ConfigureEndpoint_Prv_def Let_def touches_refl
      split: if_splits bind_splits dest!: arg_cong [of _ _ snd])

subsection \<open>Waiting for an endpoint\<close>

text \<open>What each result of \<^verbatim>\<open>Endpoint_WaitUntilReady\<close> means, in terms of the register reads \<open>t\<close> that were
  made: the last poll was successful, the device state seen last, the endpoint was stalled at the
  last poll, or the frame number was read more than \<open>n\<close> times.\<close>

definition wait_result :: "nat \<Rightarrow> history \<Rightarrow> Endpoint_WaitUntilReady_ErrorCodes \<Rightarrow> 'a usb_scheme \<Rightarrow> bool" where
  "wait_result n t code s' =
     (case code of
        ENDPOINT_READYWAIT_NoError \<Rightarrow> \<exists>t0 d v. t = t0 @ [Rd UECFG0X d, Rd UEINTX v] \<and>
          has v (bv (if has d (bv EPDIR) then TXINI else RXOUTI))
      | ENDPOINT_READYWAIT_DeviceDisconnected \<Rightarrow> USB_DeviceState s' = DEVICE_STATE_Unattached
      | ENDPOINT_READYWAIT_BusSuspended \<Rightarrow> USB_DeviceState s' = DEVICE_STATE_Suspended
      | ENDPOINT_READYWAIT_EndpointStalled \<Rightarrow> \<exists>t0 v. t = t0 @ [Rd UECONX v] \<and> has v (bv STALLRQ)
      | ENDPOINT_READYWAIT_Timeout \<Rightarrow> n < length (reads UDFNUMH t))"

lemma wait_result_intros:
  "has v (bv (if has d (bv EPDIR) then TXINI else RXOUTI)) \<Longrightarrow>
     wait_result n (t0 @ [Rd UECFG0X d, Rd UEINTX v]) ENDPOINT_READYWAIT_NoError s'"
  "USB_DeviceState s' = DEVICE_STATE_Unattached \<Longrightarrow> wait_result n t ENDPOINT_READYWAIT_DeviceDisconnected s'"
  "USB_DeviceState s' = DEVICE_STATE_Suspended \<Longrightarrow> wait_result n t ENDPOINT_READYWAIT_BusSuspended s'"
  "has v (bv STALLRQ) \<Longrightarrow> wait_result n (t0 @ [Rd UECONX v]) ENDPOINT_READYWAIT_EndpointStalled s'"
  "n < length (reads UDFNUMH t) \<Longrightarrow> wait_result n t ENDPOINT_READYWAIT_Timeout s'"
  unfolding wait_result_def by auto

lemma wait_result_mono:
  assumes "wait_result n t code s'" and "m \<le> n + length (reads UDFNUMH t1)"
  shows "wait_result m (t1 @ t) code s'"
proof (cases code)
  case ENDPOINT_READYWAIT_NoError
  then obtain t0 d v where "t1 @ t = (t1 @ t0) @ [Rd UECFG0X d, Rd UEINTX v]"
    and "has v (bv (if has d (bv EPDIR) then TXINI else RXOUTI))"
    using assms(1) by (auto simp: wait_result_def)
  then show ?thesis unfolding ENDPOINT_READYWAIT_NoError by (metis wait_result_intros(1))
next
  case ENDPOINT_READYWAIT_EndpointStalled
  then obtain t0 v where "t1 @ t = (t1 @ t0) @ [Rd UECONX v]" and "has v (bv STALLRQ)"
    using assms(1) by (auto simp: wait_result_def)
  then show ?thesis unfolding ENDPOINT_READYWAIT_EndpointStalled by (metis wait_result_intros(4))
qed (use assms in \<open>auto simp: wait_result_def\<close>)

lemma ready_poll_polls:
  "ready_poll w s = (b, s') \<Longrightarrow>
   \<exists>d v. s' = s\<lparr>io := io s @ [Rd UECFG0X d, Rd UEINTX v]\<rparr> \<and>
     b = has v (bv (if has d (bv EPDIR) then TXINI else RXOUTI))"
  by (auto simp: ready_poll_def ep_io Let_def ENDPOINT_DIR_IN_def ENDPOINT_DIR_OUT_def split: if_splits)

lemma stalled_polls:
  "Endpoint_IsStalled w s = (b, s') \<Longrightarrow>
   \<exists>v. s' = s\<lparr>io := io s @ [Rd UECONX v]\<rparr> \<and> b = has v (bv STALLRQ)"
  by (auto simp: ep_io)

lemma frame_polls:
  "USB_Device_GetFrameNumber w s = (f, s') \<Longrightarrow>
   \<exists>h l. s' = s\<lparr>io := io s @ [Rd UDFNUML l, Rd UDFNUMH h]\<rparr> \<and> f = join16 h l"
  by (auto simp: USB_Device_GetFrameNumber_def io_simps Let_def)

lemma polls_reads: "list_all is_read t \<Longrightarrow> polls t s (s\<lparr>io := io s @ t\<rparr>)"
  by (auto simp: polls_def intro: exI [of _ "USB_DeviceState s"])

lemma wait_turn_cases:
  assumes "wait_turn w s = (r, s')"
  shows "\<exists>t. polls t s s' \<and>
    (case r of Inl code \<Rightarrow> wait_result n t code s' | Inr f \<Rightarrow> length (reads UDFNUMH t) = 1)"
proof -
  obtain ready s1 where p1: "ready_poll w s = (ready, s1)" by fastforce
  obtain st s2 where p2: "get_DeviceState w s1 = (st, s2)" by fastforce
  obtain stalled s3 where p3: "Endpoint_IsStalled w s2 = (stalled, s3)" by fastforce
  obtain cf s4 where p4: "USB_Device_GetFrameNumber w s3 = (cf, s4)" by fastforce
  obtain d v where t1: "s1 = s\<lparr>io := io s @ [Rd UECFG0X d, Rd UEINTX v]\<rparr>"
    and r1: "ready = has v (bv (if has d (bv EPDIR) then TXINI else RXOUTI))"
    using ready_poll_polls [OF p1] by blast
  obtain u where t3: "s3 = s2\<lparr>io := io s2 @ [Rd UECONX u]\<rparr>" and r3: "stalled = has u (bv STALLRQ)"
    using stalled_polls [OF p3] by blast
  obtain fh fl where t4: "s4 = s3\<lparr>io := io s3 @ [Rd UDFNUML fl, Rd UDFNUMH fh]\<rparr>"
    using frame_polls [OF p4] by blast
  have q1: "polls ([] @ [Rd UECFG0X d, Rd UEINTX v]) s s1" unfolding t1 append_Nil by (rule polls_reads) simp
  have q12: "polls (([] @ [Rd UECFG0X d, Rd UEINTX v]) @ []) s s2" and st: "USB_DeviceState s2 = st"
    using get_DeviceState_polls [OF p2] polls_trans [OF q1] by blast+
  have q3: "polls [Rd UECONX u] s2 s3" unfolding t3 by (rule polls_reads) simp
  have q4: "polls [Rd UDFNUML fl, Rd UDFNUMH fh] s3 s4" unfolding t4 by (rule polls_reads) simp
  note q123 = polls_trans [OF q12 q3]
  note q1234 = polls_trans [OF q123 q4]
  have res: "(r, s') = (if ready then (Inl ENDPOINT_READYWAIT_NoError, s1)
      else if st = DEVICE_STATE_Unattached then (Inl ENDPOINT_READYWAIT_DeviceDisconnected, s2)
      else if st = DEVICE_STATE_Suspended then (Inl ENDPOINT_READYWAIT_BusSuspended, s2)
      else if stalled then (Inl ENDPOINT_READYWAIT_EndpointStalled, s3) else (Inr cf, s4))"
    using assms by (simp only: wait_turn_def Let_def case_prod_conv p1 p2 p3 p4)
  have "length (reads UDFNUMH (((([] @ [Rd UECFG0X d, Rd UEINTX v]) @ []) @ [Rd UECONX u]) @
      [Rd UDFNUML fl, Rd UDFNUMH fh])) = 1" by simp
  then show ?thesis
    using res q1 q12 q123 q1234 st r1 r3 wait_result_intros(1-4)
    by (cases ready; cases "st = DEVICE_STATE_Unattached"; cases "st = DEVICE_STATE_Suspended"; cases stalled)
      (simp only: if_True if_False prod.inject sum.case simp_thms; blast)+
qed

lemma WaitUntilReady_loop_sound:
  assumes "WaitUntilReady_loop w n f s = Some r"
  shows "\<exists>t. polls t s (snd r) \<and> wait_result (unat n) t (fst r) (snd r)"
proof (rule WaitUntilReady_loop.raw_induct
    [of "\<lambda>w n f s r. \<exists>t. polls t s (snd r) \<and> wait_result (unat n) t (fst r) (snd r)", OF _ assms], goal_cases)
  case (1 F w n f s r)
  obtain x s1 where x: "wait_turn w s = (x, s1)" by fastforce
  obtain t where t: "polls t s s1"
    and c: "case x of Inl code \<Rightarrow> wait_result (unat n) t code s1 | Inr f \<Rightarrow> length (reads UDFNUMH t) = 1"
    using wait_turn_cases [OF x] by blast
  show ?case
  proof (cases x)
    case (Inl code)
    then show ?thesis using 1(2) x t c by auto
  next
    case (Inr cf)
    have rec: "\<exists>t. polls t s (snd r) \<and> wait_result (unat n) t (fst r) (snd r)"
      if ret: "F w m g s1 = Some r" and le: "unat n \<le> unat m + 1" for m g
    proof -
      obtain t' where t': "polls t' s1 (snd r)" "wait_result (unat m) t' (fst r) (snd r)"
        using 1(1) [OF ret] by blast
      have "wait_result (unat n) (t @ t') (fst r) (snd r)"
        using le c Inr by (intro wait_result_mono [OF t'(2)]) simp
      then show ?thesis using polls_trans [OF t t'(1)] by blast
    qed
    have dec: "unat n \<le> unat (n - 1) + 1" if "n \<noteq> 0" using that by (simp add: unat_minus_one)
    have "wait_result (unat 0) t ENDPOINT_READYWAIT_Timeout s1" using c Inr by (intro wait_result_intros(5)) simp
    then show ?thesis using 1(2) x Inr t rec [of n f] rec [OF _ dec, of cf]
      by (cases "cf = f"; cases "n = 0") auto
  qed
qed

lemma WaitUntilReady_polls:
  assumes "Endpoint_WaitUntilReady w s = Some (c, s')"
  shows "\<exists>t. polls t s s'"
proof -
  obtain f s1 where f: "USB_Device_GetFrameNumber w s = (f, s1)" by fastforce
  obtain h l where s1: "s1 = s\<lparr>io := io s @ [Rd UDFNUML l, Rd UDFNUMH h]\<rparr>" using frame_polls [OF f] by blast
  have p1: "polls [Rd UDFNUML l, Rd UDFNUMH h] s s1" unfolding s1 by (rule polls_reads) simp
  have "WaitUntilReady_loop w USB_STREAM_TIMEOUT_MS f s1 = Some (c, s')"
    using assms f by (simp add: Endpoint_WaitUntilReady_def)
  from WaitUntilReady_loop_sound [OF this] polls_trans [OF p1] show ?thesis by auto
qed

text \<open>The wait ends because frame numbers advance. \<open>turn_history w h\<close> is the history after one
  unsuccessful turn and \<open>turn_frame w h\<close> the frame number that turn reads; \<open>frames_advance w\<close> says that
  no frame number is read forever.\<close>

definition rd_history :: "world \<Rightarrow> reg \<Rightarrow> history \<Rightarrow> history" where
  "rd_history w r h = h @ [Rd r (dev w h r)]"

definition turn_history :: "world \<Rightarrow> history \<Rightarrow> history" where
  "turn_history w h =
     rd_history w UDFNUMH (rd_history w UDFNUML (rd_history w UECONX (rd_history w UEINTX (rd_history w UECFG0X h))))"

definition turn_frame :: "world \<Rightarrow> history \<Rightarrow> u16" where
  "turn_frame w h =
     (let h = rd_history w UECONX (rd_history w UEINTX (rd_history w UECFG0X h))
      in join16 (dev w (rd_history w UDFNUML h) UDFNUMH) (dev w h UDFNUML))"

definition frames_advance :: "world \<Rightarrow> bool" where
  "frames_advance w \<longleftrightarrow>
     (\<exists>rank :: u16 \<Rightarrow> history \<Rightarrow> nat. \<forall>h. rank (turn_frame w h) (turn_history w h) < rank (turn_frame w h) h)"

lemma wait_turn_history:
  assumes "wait_turn w s = (Inr f, s')"
  shows "io s' = turn_history w (io s) \<and> f = turn_frame w (io s)"
proof -
  obtain st s2 where p2: "get_DeviceState w (s\<lparr>io := rd_history w UEINTX (rd_history w UECFG0X (io s))\<rparr>) = (st, s2)"
    by fastforce
  have i2: "io s2 = rd_history w UEINTX (rd_history w UECFG0X (io s))"
    using get_DeviceState_polls [OF p2] by simp
  show ?thesis
    using assms p2 i2
    by (auto simp: wait_turn_def ready_poll_def ep_io USB_Device_GetFrameNumber_def rd_history_def turn_history_def
        turn_frame_def Let_def split: if_splits)
qed

lemma WaitUntilReady_loop_returns:
  assumes "frames_advance w"
  shows "\<exists>r. WaitUntilReady_loop w n f s = Some r"
proof -
  obtain rank :: "u16 \<Rightarrow> history \<Rightarrow> nat"
    where rank: "\<And>h. rank (turn_frame w h) (turn_history w h) < rank (turn_frame w h) h"
    using assms unfolding frames_advance_def by blast
  show ?thesis
  proof (induction "unat n" arbitrary: n f s rule: less_induct)
    case outer: less
    show ?case
    proof (induction "rank f (io s)" arbitrary: s rule: less_induct)
      case inner: less
      obtain x s1 where x: "wait_turn w s = (x, s1)" by fastforce
      show ?case
      proof (cases x)
        case (Inl code)
        then show ?thesis using x by (subst WaitUntilReady_loop.simps) simp
      next
        case (Inr cf)
        have h: "io s1 = turn_history w (io s)" and cf: "cf = turn_frame w (io s)"
          using wait_turn_history [of w s cf s1] x Inr by auto
        show ?thesis
        proof (cases "cf = f")
          case True
          have "rank f (io s1) < rank f (io s)" using rank [of "io s"] h cf True by simp
          from inner [OF this] show ?thesis using x Inr True by (subst WaitUntilReady_loop.simps) simp
        next
          case False
          have "\<exists>r. WaitUntilReady_loop w (n - 1) cf s1 = Some r" if "n \<noteq> 0"
            using that by (intro outer) (simp add: unat_minus_one unat_gt_0)
          then show ?thesis using x Inr False by (subst WaitUntilReady_loop.simps) simp
        qed
      qed
    qed
  qed
qed


text \<open>A host that sends a new frame with every register access, and nothing else.\<close>

definition idle_host :: world where
  "idle_host = \<lparr>dev = (\<lambda>h r. if r = UDFNUML then of_nat (length h) else 0), irq = (\<lambda>h. None), sig_row = (\<lambda>a. 0)\<rparr>"

lemma idle_host_frames: "frames_advance idle_host"
proof -
  have fr: "turn_frame idle_host h = join16 0 (of_nat (length h) + 3)" for h
    by (simp add: turn_frame_def rd_history_def idle_host_def Let_def add.commute)
  have len: "length (turn_history idle_host h) = length h + 5" for h
    by (simp add: turn_history_def rd_history_def)
  have ne: "turn_frame idle_host (turn_history idle_host h) \<noteq> turn_frame idle_host h" for h
    unfolding fr len by simp
  show ?thesis unfolding frames_advance_def
    by (rule exI [of _ "\<lambda>f h. if turn_frame idle_host h = f then 1 else 0"]) (simp add: ne)
qed


subsection \<open>A host that is always ready\<close>

text \<open>A host that has always a packet for the device and takes the status packet.\<close>

definition ready :: "world \<Rightarrow> bool" where
  "ready w \<longleftrightarrow> (\<forall>h. has (dev w h UEINTX) (bv RXOUTI) \<and> has (dev w h UEINTX) (bv TXINI))"

lemma ClearStatusStage_ready: "ready w \<Longrightarrow> \<exists>s'. Endpoint_ClearStatusStage w s = Some s'"
proof -
  assume "ready w"
  then have "wait_OUT_or_unattached w s = Some (True, snd (Endpoint_IsOUTReceived w s))"
    "wait_IN_or_unattached w s = Some (True, snd (Endpoint_IsINReady w s))"
    unfolding wait_OUT_or_unattached_def wait_IN_or_unattached_def by (auto intro!: iterate_stop simp: ready_def ep_io)
  then show ?thesis by (simp add: Endpoint_ClearStatusStage_def)
qed

end
