(* ===== verification/EndpointStream.thy ===== *)
theory EndpointStream
  imports Endpoint
begin

text \<open>
  Streams over endpoints (\<^verbatim>\<open>Core/AVR8/EndpointStream_AVR8.c\<close> and its templates
  \<^verbatim>\<open>Template_Endpoint_RW.c\<close>, \<^verbatim>\<open>Template_Endpoint_Control_W.c\<close>, \<^verbatim>\<open>Template_Endpoint_Control_R.c\<close>).
  As in the source, each template is written once, with the direction and the buffer arithmetic as
  arguments, and the named functions are its instances. A buffer is an address in a byte memory, which
  stands for RAM, program memory or EEPROM alike; \<open>pos k\<close> is the address of the \<open>k\<close>-th byte that is
  transferred. The streams on ordinary endpoints call \<^verbatim>\<open>USB_USBTask\<close> between packets: a parameter \<open>task\<close>.
\<close>

subsection \<open>Result codes\<close>

datatype Endpoint_Stream_RW_ErrorCodes =
    ENDPOINT_RWSTREAM_NoError | ENDPOINT_RWSTREAM_EndpointStalled | ENDPOINT_RWSTREAM_DeviceDisconnected
  | ENDPOINT_RWSTREAM_BusSuspended | ENDPOINT_RWSTREAM_Timeout | ENDPOINT_RWSTREAM_IncompleteTransfer

text \<open>The error codes of \<^verbatim>\<open>Endpoint_WaitUntilReady\<close> are passed on; the two enumerations agree on them.\<close>

fun rw_code :: "Endpoint_WaitUntilReady_ErrorCodes \<Rightarrow> Endpoint_Stream_RW_ErrorCodes" where
  "rw_code ENDPOINT_READYWAIT_NoError = ENDPOINT_RWSTREAM_NoError"
| "rw_code ENDPOINT_READYWAIT_EndpointStalled = ENDPOINT_RWSTREAM_EndpointStalled"
| "rw_code ENDPOINT_READYWAIT_DeviceDisconnected = ENDPOINT_RWSTREAM_DeviceDisconnected"
| "rw_code ENDPOINT_READYWAIT_BusSuspended = ENDPOINT_RWSTREAM_BusSuspended"
| "rw_code ENDPOINT_READYWAIT_Timeout = ENDPOINT_RWSTREAM_Timeout"

datatype Endpoint_ControlStream_RW_ErrorCodes =
    ENDPOINT_RWCSTREAM_NoError | ENDPOINT_RWCSTREAM_HostAborted
  | ENDPOINT_RWCSTREAM_DeviceDisconnected | ENDPOINT_RWCSTREAM_BusSuspended

subsection \<open>Buffers\<close>

definition pos_LE :: "u16 \<Rightarrow> nat \<Rightarrow> u16" where
  "pos_LE Buffer k = Buffer + of_nat k"

definition pos_BE :: "u16 \<Rightarrow> u16 \<Rightarrow> nat \<Rightarrow> u16" where
  "pos_BE Buffer Length k = Buffer + (Length - 1) - of_nat k"

type_synonym 's transfer = "nat \<Rightarrow> mem \<Rightarrow> 's \<Rightarrow> mem \<times> 's"

definition transfer_write :: "(nat \<Rightarrow> u16) \<Rightarrow> 'a usb_scheme transfer" where
  "transfer_write pos k m s = (m, Endpoint_Write_8 (m (pos k)) s)"

definition transfer_read :: "world \<Rightarrow> (nat \<Rightarrow> u16) \<Rightarrow> 'a usb_scheme transfer" where
  "transfer_read w pos k m s = (let (b, s) = Endpoint_Read_8 w s in (m(pos k := b), s))"

subsection \<open>Template for ordinary endpoints\<close>

type_synonym 's rw_result = "(Endpoint_Stream_RW_ErrorCodes \<times> u16 option \<times> mem \<times> 's) option"

definition RW_turn ::
  "world \<Rightarrow> ('a usb_scheme \<Rightarrow> 'a usb_scheme option) \<Rightarrow> ('a usb_scheme \<Rightarrow> 'a usb_scheme) \<Rightarrow> 'a usb_scheme transfer \<Rightarrow>
   u16 option \<Rightarrow> nat \<times> u16 \<times> u16 \<times> mem \<times> 'a usb_scheme \<Rightarrow>
   ((Endpoint_Stream_RW_ErrorCodes \<times> u16 option \<times> mem \<times> 'a usb_scheme) + nat \<times> u16 \<times> u16 \<times> mem \<times> 'a usb_scheme) option" where
  "RW_turn w task clear transfer BytesProcessed = (\<lambda>(k, Length, BytesInTransfer, m, s).
     if Length = 0 then Some (Inl (ENDPOINT_RWSTREAM_NoError, BytesProcessed, m, s))
     else let (allowed, s) = Endpoint_IsReadWriteAllowed w s in
       if \<not> allowed then
         do {
           s \<leftarrow> task (clear s);
           case BytesProcessed of
             Some p \<Rightarrow> Some (Inl (ENDPOINT_RWSTREAM_IncompleteTransfer, Some (p + BytesInTransfer), m, s))
           | None \<Rightarrow> do {
               (e, s) \<leftarrow> Endpoint_WaitUntilReady w s;
               Some (if e \<noteq> ENDPOINT_READYWAIT_NoError then Inl (rw_code e, None, m, s)
                     else Inr (k, Length, BytesInTransfer, m, s))
             }
         }
       else let (m, s) = transfer k m s in Some (Inr (k + 1, Length - 1, BytesInTransfer + 1, m, s)))"

definition RW_loop ::
  "world \<Rightarrow> ('a usb_scheme \<Rightarrow> 'a usb_scheme option) \<Rightarrow> ('a usb_scheme \<Rightarrow> 'a usb_scheme) \<Rightarrow>
   'a usb_scheme transfer \<Rightarrow> u16 option \<Rightarrow> nat \<times> u16 \<times> u16 \<times> mem \<times> 'a usb_scheme \<Rightarrow> 'a usb_scheme rw_result" where
  "RW_loop w task clear transfer BytesProcessed = iterate (RW_turn w task clear transfer BytesProcessed)"

definition RW_template ::
  "world \<Rightarrow> ('a usb_scheme \<Rightarrow> 'a usb_scheme option) \<Rightarrow> ('a usb_scheme \<Rightarrow> 'a usb_scheme) \<Rightarrow>
   'a usb_scheme transfer \<Rightarrow> u16 \<Rightarrow> u16 option \<Rightarrow> mem \<Rightarrow> 'a usb_scheme \<Rightarrow> 'a usb_scheme rw_result" where
  "RW_template w task clear transfer Length BytesProcessed m s =
     do {
       (e, s) \<leftarrow> Endpoint_WaitUntilReady w s;
       if e \<noteq> ENDPOINT_READYWAIT_NoError then Some (rw_code e, BytesProcessed, m, s)
       else case BytesProcessed of
              None \<Rightarrow> RW_loop w task clear transfer None (0, Length, 0, m, s)
            | Some p \<Rightarrow> RW_loop w task clear transfer (Some p) (unat p, Length - p, 0, m, s)
     }"

definition Endpoint_Write_Stream_LE where
  "Endpoint_Write_Stream_LE w task m Buffer Length BytesProcessed s =
     RW_template w task (Endpoint_ClearIN w) (transfer_write (pos_LE Buffer)) Length BytesProcessed m s"

definition Endpoint_Write_Stream_BE where
  "Endpoint_Write_Stream_BE w task m Buffer Length BytesProcessed s =
     RW_template w task (Endpoint_ClearIN w) (transfer_write (pos_BE Buffer Length)) Length BytesProcessed m s"

definition Endpoint_Read_Stream_LE where
  "Endpoint_Read_Stream_LE w task m Buffer Length BytesProcessed s =
     RW_template w task (Endpoint_ClearOUT w) (transfer_read w (pos_LE Buffer)) Length BytesProcessed m s"

definition Endpoint_Read_Stream_BE where
  "Endpoint_Read_Stream_BE w task m Buffer Length BytesProcessed s =
     RW_template w task (Endpoint_ClearOUT w) (transfer_read w (pos_BE Buffer Length)) Length BytesProcessed m s"

text \<open>The variants for program memory (\<^verbatim>\<open>PStream\<close>) and EEPROM (\<^verbatim>\<open>EStream\<close>) are the same functions on
  another memory.\<close>

definition Endpoint_Write_PStream_LE where "Endpoint_Write_PStream_LE = Endpoint_Write_Stream_LE"
definition Endpoint_Write_PStream_BE where "Endpoint_Write_PStream_BE = Endpoint_Write_Stream_BE"
definition Endpoint_Write_EStream_LE where "Endpoint_Write_EStream_LE = Endpoint_Write_Stream_LE"
definition Endpoint_Write_EStream_BE where "Endpoint_Write_EStream_BE = Endpoint_Write_Stream_BE"
definition Endpoint_Read_EStream_LE where "Endpoint_Read_EStream_LE = Endpoint_Read_Stream_LE"
definition Endpoint_Read_EStream_BE where "Endpoint_Read_EStream_BE = Endpoint_Read_Stream_BE"

subsection \<open>Discarding and zero filling\<close>

text \<open>\<^verbatim>\<open>Endpoint_Discard_Stream\<close> and \<^verbatim>\<open>Endpoint_Null_Stream\<close> have the shape of the template without a buffer and
  without the call of \<^verbatim>\<open>USB_USBTask\<close>; \<open>step\<close> is \<^verbatim>\<open>Endpoint_Discard_8\<close> or \<^verbatim>\<open>Endpoint_Write_8(0)\<close>.\<close>

definition Pad_turn ::
  "world \<Rightarrow> ('a usb_scheme \<Rightarrow> 'a usb_scheme) \<Rightarrow> ('a usb_scheme \<Rightarrow> 'a usb_scheme) \<Rightarrow> u16 option \<Rightarrow>
   u16 \<times> u16 \<times> 'a usb_scheme \<Rightarrow>
   (Endpoint_Stream_RW_ErrorCodes \<times> u16 option \<times> 'a usb_scheme + u16 \<times> u16 \<times> 'a usb_scheme) option" where
  "Pad_turn w clear step BytesProcessed = (\<lambda>(Length, BytesInTransfer, s).
     if Length = 0 then Some (Inl (ENDPOINT_RWSTREAM_NoError, BytesProcessed, s))
     else let (allowed, s) = Endpoint_IsReadWriteAllowed w s in
       if \<not> allowed then
         let s = clear s in
         case BytesProcessed of
           Some p \<Rightarrow> Some (Inl (ENDPOINT_RWSTREAM_IncompleteTransfer, Some (p + BytesInTransfer), s))
         | None \<Rightarrow> do {
             (e, s) \<leftarrow> Endpoint_WaitUntilReady w s;
             Some (if e \<noteq> ENDPOINT_READYWAIT_NoError then Inl (rw_code e, None, s) else Inr (Length, BytesInTransfer, s))
           }
       else Some (Inr (Length - 1, BytesInTransfer + 1, step s)))"

definition Pad_loop where
  "Pad_loop w clear step BytesProcessed = iterate (Pad_turn w clear step BytesProcessed)"

definition Pad_stream where
  "Pad_stream w clear step Length BytesProcessed s =
     do {
       (e, s) \<leftarrow> Endpoint_WaitUntilReady w s;
       if e \<noteq> ENDPOINT_READYWAIT_NoError then Some (rw_code e, BytesProcessed, s)
       else case BytesProcessed of
              None \<Rightarrow> Pad_loop w clear step None (Length, 0, s)
            | Some p \<Rightarrow> Pad_loop w clear step (Some p) (Length - p, 0, s)
     }"

definition Endpoint_Discard_Stream where
  "Endpoint_Discard_Stream w = Pad_stream w (Endpoint_ClearOUT w) (Endpoint_Discard_8 w)"

definition Endpoint_Null_Stream where
  "Endpoint_Null_Stream w = Pad_stream w (Endpoint_ClearIN w) (Endpoint_Write_8 0)"

subsection \<open>Template for writing to the control endpoint\<close>

text \<open>The inner loop fills the bank: \<open>n\<close> is \<^verbatim>\<open>BytesInEndpoint\<close>.\<close>

function fill_bank :: "(nat \<Rightarrow> u8) \<Rightarrow> nat \<Rightarrow> u16 \<Rightarrow> u16 \<Rightarrow> 'a usb_scheme \<Rightarrow> nat \<times> u16 \<times> u16 \<times> 'a usb_scheme" where
  "fill_bank byte k Length n s =
     (if Length \<noteq> 0 \<and> n < ucast FIXED_CONTROL_ENDPOINT_SIZE
      then fill_bank byte (k + 1) (Length - 1) (n + 1) (Endpoint_Write_8 (byte k) s)
      else (k, Length, n, s))"
  by pat_completeness auto

termination
  by (relation "measure (\<lambda>(byte, k, Length, n, s). unat Length)") (auto simp: unat_minus_one unat_gt_0)

declare fill_bank.simps [simp del]

text \<open>A turn of the outer loop ends with a result (\<open>Inl\<close>: a code to return, or \<open>None\<close> at the end of the loop
  and after \<^verbatim>\<open>break\<close>) or goes on with the data position, \<^verbatim>\<open>Length\<close> and \<^verbatim>\<open>LastPacketFull\<close> (\<open>Inr\<close>).\<close>

definition Control_W_turn ::
  "world \<Rightarrow> (nat \<Rightarrow> u8) \<Rightarrow> nat \<times> u16 \<times> bool \<times> 'a usb_scheme \<Rightarrow>
   (Endpoint_ControlStream_RW_ErrorCodes option \<times> 'a usb_scheme) + nat \<times> u16 \<times> bool \<times> 'a usb_scheme" where
  "Control_W_turn w byte = (\<lambda>(k, Length, LastPacketFull, s).
     if Length = 0 \<and> \<not> LastPacketFull then Inl (None, s)
     else let (st, s) = get_DeviceState w s in
       if st = DEVICE_STATE_Unattached then Inl (Some ENDPOINT_RWCSTREAM_DeviceDisconnected, s)
       else if st = DEVICE_STATE_Suspended then Inl (Some ENDPOINT_RWCSTREAM_BusSuspended, s)
       else let (setup, s) = Endpoint_IsSETUPReceived w s in
         if setup then Inl (Some ENDPOINT_RWCSTREAM_HostAborted, s)
         else let (out, s) = Endpoint_IsOUTReceived w s in
           if out then Inl (None, s)
           else let (ready, s) = Endpoint_IsINReady w s in
             if ready then
               let (n, s) = Endpoint_BytesInEndpoint w s;
                   (k, Length, n, s) = fill_bank byte k Length n s
               in Inr (k, Length, n = ucast FIXED_CONTROL_ENDPOINT_SIZE, Endpoint_ClearIN w s)
             else Inr (k, Length, LastPacketFull, s))"

definition Control_W_loop ::
  "world \<Rightarrow> (nat \<Rightarrow> u8) \<Rightarrow> nat \<times> u16 \<times> bool \<times> 'a usb_scheme \<Rightarrow>
   (Endpoint_ControlStream_RW_ErrorCodes option \<times> 'a usb_scheme) option" where
  "Control_W_loop w byte = iterate (\<lambda>x. Some (Control_W_turn w byte x))"

text \<open>The wait for the status stage.\<close>

definition Control_W_status_turn ::
  "world \<Rightarrow> 'a usb_scheme \<Rightarrow> (Endpoint_ControlStream_RW_ErrorCodes \<times> 'a usb_scheme) + 'a usb_scheme" where
  "Control_W_status_turn w s =
     (let (out, s) = Endpoint_IsOUTReceived w s in
      if out then Inl (ENDPOINT_RWCSTREAM_NoError, s)
      else let (st, s) = get_DeviceState w s in
        if st = DEVICE_STATE_Unattached then Inl (ENDPOINT_RWCSTREAM_DeviceDisconnected, s)
        else if st = DEVICE_STATE_Suspended then Inl (ENDPOINT_RWCSTREAM_BusSuspended, s)
        else let (setup, s) = Endpoint_IsSETUPReceived w s in
          if setup then Inl (ENDPOINT_RWCSTREAM_HostAborted, s) else Inr s)"

definition Control_W_status ::
  "world \<Rightarrow> 'a usb_scheme \<Rightarrow> (Endpoint_ControlStream_RW_ErrorCodes \<times> 'a usb_scheme) option" where
  "Control_W_status w = iterate (\<lambda>s. Some (Control_W_status_turn w s))"

definition Control_W ::
  "world \<Rightarrow> (nat \<Rightarrow> u8) \<Rightarrow> u16 \<Rightarrow> 'a usb_scheme \<Rightarrow> (Endpoint_ControlStream_RW_ErrorCodes \<times> 'a usb_scheme) option" where
  "Control_W w byte Length s =
     (let (Length, s) =
        (if Length > wLength (USB_ControlRequest s) then (wLength (USB_ControlRequest s), s)
         else if Length = 0 then (Length, Endpoint_ClearIN w s)
         else (Length, s))
      in do {
        (r, s) \<leftarrow> Control_W_loop w byte (0, Length, False, s);
        case r of Some code \<Rightarrow> Some (code, s) | None \<Rightarrow> Control_W_status w s
      })"

definition Endpoint_Write_Control_Stream_LE where
  "Endpoint_Write_Control_Stream_LE w m Buffer Length = Control_W w (\<lambda>k. m (pos_LE Buffer k)) Length"

definition Endpoint_Write_Control_Stream_BE where
  "Endpoint_Write_Control_Stream_BE w m Buffer Length = Control_W w (\<lambda>k. m (pos_BE Buffer Length k)) Length"

definition Endpoint_Write_Control_PStream_LE where "Endpoint_Write_Control_PStream_LE = Endpoint_Write_Control_Stream_LE"
definition Endpoint_Write_Control_PStream_BE where "Endpoint_Write_Control_PStream_BE = Endpoint_Write_Control_Stream_BE"
definition Endpoint_Write_Control_EStream_LE where "Endpoint_Write_Control_EStream_LE = Endpoint_Write_Control_Stream_LE"
definition Endpoint_Write_Control_EStream_BE where "Endpoint_Write_Control_EStream_BE = Endpoint_Write_Control_Stream_BE"

subsection \<open>Template for reading from the control endpoint\<close>

text \<open>The inner loop empties the bank; each turn asks the hardware how many bytes are left.\<close>

function drain_bank ::
  "world \<Rightarrow> (nat \<Rightarrow> u16) \<Rightarrow> nat \<Rightarrow> u16 \<Rightarrow> mem \<Rightarrow> 'a usb_scheme \<Rightarrow> nat \<times> u16 \<times> mem \<times> 'a usb_scheme" where
  "drain_bank w pos k Length m s =
     (if Length = 0 then (k, Length, m, s)
      else let (n, s) = Endpoint_BytesInEndpoint w s in
        if n = 0 then (k, Length, m, s)
        else let (m, s) = transfer_read w pos k m s in drain_bank w pos (k + 1) (Length - 1) m s)"
  by pat_completeness auto

termination
  by (relation "measure (\<lambda>(w, pos, k, Length, m, s). unat Length)") (auto simp: unat_minus_one unat_gt_0)

declare drain_bank.simps [simp del]

definition Control_R_turn ::
  "world \<Rightarrow> (nat \<Rightarrow> u16) \<Rightarrow> nat \<times> u16 \<times> mem \<times> 'a usb_scheme \<Rightarrow>
   (Endpoint_ControlStream_RW_ErrorCodes option \<times> mem \<times> 'a usb_scheme) + nat \<times> u16 \<times> mem \<times> 'a usb_scheme" where
  "Control_R_turn w pos = (\<lambda>(k, Length, m, s).
     if Length = 0 then Inl (None, m, s)
     else let (st, s) = get_DeviceState w s in
       if st = DEVICE_STATE_Unattached then Inl (Some ENDPOINT_RWCSTREAM_DeviceDisconnected, m, s)
       else if st = DEVICE_STATE_Suspended then Inl (Some ENDPOINT_RWCSTREAM_BusSuspended, m, s)
       else let (setup, s) = Endpoint_IsSETUPReceived w s in
         if setup then Inl (Some ENDPOINT_RWCSTREAM_HostAborted, m, s)
         else let (out, s) = Endpoint_IsOUTReceived w s in
           if out then
             let (k, Length, m, s) = drain_bank w pos k Length m s in Inr (k, Length, m, Endpoint_ClearOUT w s)
           else Inr (k, Length, m, s))"

definition Control_R_loop ::
  "world \<Rightarrow> (nat \<Rightarrow> u16) \<Rightarrow> nat \<times> u16 \<times> mem \<times> 'a usb_scheme \<Rightarrow>
   (Endpoint_ControlStream_RW_ErrorCodes option \<times> mem \<times> 'a usb_scheme) option" where
  "Control_R_loop w pos = iterate (\<lambda>x. Some (Control_R_turn w pos x))"

definition Control_R_status_turn ::
  "world \<Rightarrow> 'a usb_scheme \<Rightarrow> (Endpoint_ControlStream_RW_ErrorCodes \<times> 'a usb_scheme) + 'a usb_scheme" where
  "Control_R_status_turn w s =
     (let (ready, s) = Endpoint_IsINReady w s in
      if ready then Inl (ENDPOINT_RWCSTREAM_NoError, s)
      else let (st, s) = get_DeviceState w s in
        if st = DEVICE_STATE_Unattached then Inl (ENDPOINT_RWCSTREAM_DeviceDisconnected, s)
        else if st = DEVICE_STATE_Suspended then Inl (ENDPOINT_RWCSTREAM_BusSuspended, s)
        else Inr s)"

definition Control_R_status ::
  "world \<Rightarrow> 'a usb_scheme \<Rightarrow> (Endpoint_ControlStream_RW_ErrorCodes \<times> 'a usb_scheme) option" where
  "Control_R_status w = iterate (\<lambda>s. Some (Control_R_status_turn w s))"

definition Control_R ::
  "world \<Rightarrow> (nat \<Rightarrow> u16) \<Rightarrow> u16 \<Rightarrow> mem \<Rightarrow> 'a usb_scheme \<Rightarrow>
   (Endpoint_ControlStream_RW_ErrorCodes \<times> mem \<times> 'a usb_scheme) option" where
  "Control_R w pos Length m s =
     (let s = (if Length = 0 then Endpoint_ClearOUT w s else s)
      in do {
        (r, m, s) \<leftarrow> Control_R_loop w pos (0, Length, m, s);
        case r of
          Some code \<Rightarrow> Some (code, m, s)
        | None \<Rightarrow> do { (code, s) \<leftarrow> Control_R_status w s; Some (code, m, s) }
      })"

definition Endpoint_Read_Control_Stream_LE where
  "Endpoint_Read_Control_Stream_LE w m Buffer Length = Control_R w (pos_LE Buffer) Length m"

definition Endpoint_Read_Control_Stream_BE where
  "Endpoint_Read_Control_Stream_BE w m Buffer Length = Control_R w (pos_BE Buffer Length) Length m"

definition Endpoint_Read_Control_EStream_LE where "Endpoint_Read_Control_EStream_LE = Endpoint_Read_Control_Stream_LE"
definition Endpoint_Read_Control_EStream_BE where "Endpoint_Read_Control_EStream_BE = Endpoint_Read_Control_Stream_BE"

subsection \<open>What a stream writes to its endpoint\<close>

text \<open>The data bytes a trace writes to endpoint \<open>e\<close>, when \<open>e0\<close> is selected at its start.\<close>

definition data_to :: "u8 \<Rightarrow> u8 \<Rightarrow> history \<Rightarrow> u8 list" where
  "data_to e e0 t = map (\<lambda>(e', r, v). v) (filter (\<lambda>(e', r, v). e' = e \<and> r = UEDATX) (ep_writes e0 t))"

lemma data_to_Nil [simp]: "data_to e e0 [] = []"
  by (simp add: data_to_def)

lemma data_to_append: "data_to e e0 (t @ t') = data_to e e0 t @ data_to e (ep_sel e0 t) t'"
  by (simp add: data_to_def)

lemma ep_reads [simp]:
  assumes "list_all is_read t"
  shows "ep_sel e t = e" and "ep_writes e t = []"
  using assms by (induction t) (auto elim: is_read.elims)

text \<open>\<open>wrote e s xs s'\<close>: from \<open>s\<close> to \<open>s'\<close> the bytes \<open>xs\<close> were written to endpoint \<open>e\<close>, which is selected before and
  after, no data was written to any other endpoint but the control endpoint, and the application's globals are
  unchanged.\<close>

definition wrote :: "u8 \<Rightarrow> 'a usb_scheme \<Rightarrow> u8 list \<Rightarrow> 'a usb_scheme \<Rightarrow> bool" where
  "wrote e s xs s' \<longleftrightarrow> (\<exists>t. io s' = io s @ t \<and> ep_sel e t = e \<and> data_to e e t = xs \<and>
     (\<forall>(e', r, v) \<in> set (ep_writes e t). r = UEDATX \<longrightarrow> e' = e \<or> e' = 0)) \<and> usb.more s' = usb.more s"

lemma wrote_refl: "wrote e s [] s"
  by (simp add: wrote_def)

lemma wrote_trans:
  assumes "wrote e s xs s'" and "wrote e s' ys s''"
  shows "wrote e s (xs @ ys) s''"
proof -
  obtain t t' where "io s' = io s @ t" "ep_sel e t = e" "data_to e e t = xs"
    "\<forall>(e', r, v) \<in> set (ep_writes e t). r = UEDATX \<longrightarrow> e' = e \<or> e' = 0"
    and "io s'' = io s' @ t'" "ep_sel e t' = e" "data_to e e t' = ys"
    "\<forall>(e', r, v) \<in> set (ep_writes e t'). r = UEDATX \<longrightarrow> e' = e \<or> e' = 0"
    using assms unfolding wrote_def by blast
  moreover have "usb.more s'' = usb.more s" using assms by (simp add: wrote_def)
  ultimately show ?thesis unfolding wrote_def by (intro conjI exI [of _ "t @ t'"]) (auto simp: data_to_append)
qed

lemma wrote_sel: "wrote e s xs s' \<Longrightarrow> ep_sel 0 (io s) = e \<Longrightarrow> ep_sel 0 (io s') = e"
  by (auto simp: wrote_def)

lemma wrote_other:
  assumes "wrote e s xs s'" and "e1 \<noteq> e" and "e1 \<noteq> 0"
  shows "\<exists>t. io s' = io s @ t \<and> ep_sel e t = e \<and> data_to e1 e t = []"
  using assms unfolding wrote_def by (fastforce simp: data_to_def filter_empty_conv)

lemma wrote_reads: "polls t s s' \<Longrightarrow> wrote e s [] s'"
  unfolding wrote_def polls_def by (auto simp: data_to_def intro!: exI [of _ t])

lemma wrote_ClearIN: "wrote e s [] (Endpoint_ClearIN w s)"
  by (auto simp: wrote_def ep_io data_to_def)

lemma wrote_ClearOUT: "wrote e s [] (Endpoint_ClearOUT w s)"
  by (auto simp: wrote_def ep_io data_to_def)

lemma wrote_Write_8: "wrote e s [x] (Endpoint_Write_8 x s)"
  by (auto simp: wrote_def ep_io data_to_def)

lemma wrote_Read_8: "Endpoint_Read_8 w s = (x, s') \<Longrightarrow> wrote e s [] s'"
  by (auto simp: wrote_def ep_io data_to_def)

lemma wrote_poll: "Endpoint_IsReadWriteAllowed w s = (b, s') \<Longrightarrow> wrote e s [] s'"
  by (auto simp: ep_io wrote_def data_to_def)

lemma wrote_WaitUntilReady: "Endpoint_WaitUntilReady w s = Some (c, s') \<Longrightarrow> wrote e s [] s'"
  using WaitUntilReady_polls wrote_reads by blast

lemma RW_turn_cases:
  assumes "RW_turn w task clear transfer None (k, Length, b, m, s) = Some y"
  obtains (finish) "Length = 0" "y = Inl (ENDPOINT_RWSTREAM_NoError, None, m, s)"
    | (packet) s1 s2 e s3 where "Length \<noteq> 0" "Endpoint_IsReadWriteAllowed w s = (False, s1)" "task (clear s1) = Some s2"
        "Endpoint_WaitUntilReady w s2 = Some (e, s3)"
        "y = (if e \<noteq> ENDPOINT_READYWAIT_NoError then Inl (rw_code e, None, m, s3) else Inr (k, Length, b, m, s3))"
    | (byte) s1 m' s2 where "Length \<noteq> 0" "Endpoint_IsReadWriteAllowed w s = (True, s1)" "transfer k m s1 = (m', s2)"
        "y = Inr (k + 1, Length - 1, b + 1, m', s2)"
proof (cases "Length = 0")
  case True
  then show thesis using assms by (intro finish) (simp_all add: RW_turn_def)
next
  case False
  obtain allowed s1 where s1: "Endpoint_IsReadWriteAllowed w s = (allowed, s1)" by fastforce
  show thesis
  proof (cases allowed)
    case True
    obtain m' s2 where "transfer k m s1 = (m', s2)" by fastforce
    with True False s1 show thesis using assms by (intro byte) (auto simp: RW_turn_def)
  next
    case notallowed: False
    have "do { s \<leftarrow> task (clear s1); (e, s) \<leftarrow> Endpoint_WaitUntilReady w s;
        Some (if e \<noteq> ENDPOINT_READYWAIT_NoError then Inl (rw_code e, None, m, s) else Inr (k, Length, b, m, s)) } = Some y"
      using assms False notallowed s1 by (simp add: RW_turn_def)
    then obtain s2 e s3 where "task (clear s1) = Some s2" "Endpoint_WaitUntilReady w s2 = Some (e, s3)"
      "y = (if e \<noteq> ENDPOINT_READYWAIT_NoError then Inl (rw_code e, None, m, s3) else Inr (k, Length, b, m, s3))"
      by (auto split: bind_splits)
    with False notallowed s1 show thesis by (intro packet) simp_all
  qed
qed

lemma rw_code_NoError: "rw_code e = ENDPOINT_RWSTREAM_NoError \<longleftrightarrow> e = ENDPOINT_READYWAIT_NoError"
  by (cases e) simp_all

text \<open>\<open>write_result e pos x r\<close>: the write loop, started in \<open>x\<close> with endpoint \<open>e\<close> selected, ends with \<open>r\<close> after writing
  the next bytes of the buffer, all of them if there was no error.\<close>

definition write_result ::
  "u8 \<Rightarrow> (nat \<Rightarrow> u16) \<Rightarrow> nat \<times> u16 \<times> u16 \<times> mem \<times> 'a usb_scheme \<Rightarrow>
   Endpoint_Stream_RW_ErrorCodes \<times> u16 option \<times> mem \<times> 'a usb_scheme \<Rightarrow> bool" where
  "write_result e pos = (\<lambda>(k, Length, b, m, s) (code, p, m', s'). ep_sel 0 (io s) = e \<longrightarrow>
     (\<exists>n \<le> unat Length. wrote e s (map (\<lambda>k. m (pos k)) [k..<k + n]) s' \<and> m' = m \<and> p = None \<and>
       (code = ENDPOINT_RWSTREAM_NoError \<longrightarrow> n = unat Length)))"

lemma write_result_extend:
  assumes "write_result e pos (k + j, Length', b', m, s1) r" and "j \<le> unat Length" and "unat Length' = unat Length - j"
    and "ep_sel 0 (io s) = e \<Longrightarrow> wrote e s (map (\<lambda>k. m (pos k)) [k..<k + j]) s1"
  shows "write_result e pos (k, Length, b, m, s) r"
proof -
  obtain code p m' s' where r: "r = (code, p, m', s')" by (cases r)
  show ?thesis unfolding write_result_def r prod.case
  proof
    assume sel: "ep_sel 0 (io s) = e"
    note wr = assms(4) [OF this]
    obtain n where n: "n \<le> unat Length'" "wrote e s1 (map (\<lambda>k. m (pos k)) [k + j..<k + j + n]) s'" "m' = m" "p = None"
      "code = ENDPOINT_RWSTREAM_NoError \<longrightarrow> n = unat Length'"
      using assms(1) wrote_sel [OF wr sel] unfolding r write_result_def prod.case by blast
    have "[k..<k + (j + n)] = [k..<k + j] @ [k + j..<k + j + n]"
      using upt_add_eq_append [of k "k + j" n] by (simp add: add.assoc)
    then have "wrote e s (map (\<lambda>k. m (pos k)) [k..<k + (j + n)]) s'" using wrote_trans [OF wr n(2)] by simp
    then show "\<exists>n \<le> unat Length. wrote e s (map (\<lambda>k. m (pos k)) [k..<k + n]) s' \<and> m' = m \<and> p = None \<and>
        (code = ENDPOINT_RWSTREAM_NoError \<longrightarrow> n = unat Length)"
      using n assms(2,3) by (intro exI [of _ "j + n"]) auto
  qed
qed

lemma write_result_byte:
  assumes "write_result e pos (k + 1, Length - 1, b + 1, m, Endpoint_Write_8 (m (pos k)) s1) r" and "Length \<noteq> 0"
    and "Endpoint_IsReadWriteAllowed w s = (a, s1)"
  shows "write_result e pos (k, Length, b, m, s) r"
proof (rule write_result_extend [OF assms(1)])
  show "1 \<le> unat Length" using assms(2) by (simp add: Suc_le_eq unat_gt_0)
  show "unat (Length - 1) = unat Length - 1" using assms(2) by (simp add: unat_minus_one)
  show "wrote e s (map (\<lambda>k. m (pos k)) [k..<k + 1]) (Endpoint_Write_8 (m (pos k)) s1)"
    using wrote_trans [OF wrote_poll [OF assms(3)] wrote_Write_8] by simp
qed

text \<open>\<open>read_result e pos x r\<close>: the read loop, started in \<open>x\<close>, ends with \<open>r\<close>; it has stored bytes at the next positions
  of the buffer only, at all of them if there was no error, and it has written no data.\<close>

definition read_result ::
  "u8 \<Rightarrow> (nat \<Rightarrow> u16) \<Rightarrow> nat \<times> u16 \<times> u16 \<times> mem \<times> 'a usb_scheme \<Rightarrow>
   Endpoint_Stream_RW_ErrorCodes \<times> u16 option \<times> mem \<times> 'a usb_scheme \<Rightarrow> bool" where
  "read_result e pos = (\<lambda>(k, Length, b, m, s) (code, p, m', s'). ep_sel 0 (io s) = e \<longrightarrow>
     wrote e s [] s' \<and> (\<exists>n \<le> unat Length. (\<forall>a. a \<notin> pos ` {k..<k + n} \<longrightarrow> m' a = m a) \<and>
       (code = ENDPOINT_RWSTREAM_NoError \<longrightarrow> n = unat Length)))"

lemma read_result_extend:
  assumes "read_result e pos (k + j, Length', b', m1, s1) r" and "j \<le> unat Length" and "unat Length' = unat Length - j"
    and "ep_sel 0 (io s) = e \<Longrightarrow> wrote e s [] s1" and "\<forall>a. a \<notin> pos ` {k..<k + j} \<longrightarrow> m1 a = m a"
  shows "read_result e pos (k, Length, b, m, s) r"
proof -
  obtain code p m' s' where r: "r = (code, p, m', s')" by (cases r)
  show ?thesis unfolding read_result_def r prod.case
  proof
    assume sel: "ep_sel 0 (io s) = e"
    note wr = assms(4) [OF this]
    obtain n where n: "n \<le> unat Length'" "wrote e s1 [] s'" "\<forall>a. a \<notin> pos ` {k + j..<k + j + n} \<longrightarrow> m' a = m1 a"
      "code = ENDPOINT_RWSTREAM_NoError \<longrightarrow> n = unat Length'"
      using assms(1) wrote_sel [OF wr sel] unfolding r read_result_def prod.case by blast
    have "{k..<k + (j + n)} = {k..<k + j} \<union> {k + j..<k + j + n}" by auto
    then have "\<forall>a. a \<notin> pos ` {k..<k + (j + n)} \<longrightarrow> m' a = m a" using n(3) assms(5) by (simp add: image_Un)
    then show "wrote e s [] s' \<and> (\<exists>n \<le> unat Length. (\<forall>a. a \<notin> pos ` {k..<k + n} \<longrightarrow> m' a = m a) \<and>
        (code = ENDPOINT_RWSTREAM_NoError \<longrightarrow> n = unat Length))"
      using wrote_trans [OF wr n(2)] n(1,4) assms(2,3) by (intro conjI exI [of _ "j + n"]) auto
  qed
qed

text \<open>What the streams need of the management task they call between two packets: it leaves the selected
  endpoint selected and writes no data to it. The hardware contributes one fact, that the register
  \<^verbatim>\<open>UENUM\<close> reads back the number that was written to it.\<close>

definition uenum_reads_back :: "world \<Rightarrow> bool" where
  "uenum_reads_back w \<longleftrightarrow> (\<forall>h. dev w h UENUM = ep_sel 0 h)"

locale usb_task =
  fixes task :: "world \<Rightarrow> 'a usb_scheme \<Rightarrow> 'a usb_scheme option"
  assumes task_keeps: "uenum_reads_back w \<Longrightarrow> ep_sel 0 (io s) = e \<Longrightarrow> e \<noteq> 0 \<Longrightarrow> e < 16 \<Longrightarrow> task w s = Some s' \<Longrightarrow>
    wrote e s [] s'"
begin

lemma packet_wrote_with:
  assumes "uenum_reads_back w" "e \<noteq> 0" "e < 16" "ep_sel 0 (io s) = e"
    and "Endpoint_IsReadWriteAllowed w s = (a, s1)" "task w (clear s1) = Some s2"
      "Endpoint_WaitUntilReady w s2 = Some (c, s3)" and clear: "\<And>s. wrote e s [] (clear s)"
  shows "wrote e s [] s3"
proof -
  have 1: "wrote e s [] (clear s1)"
    using wrote_trans [OF wrote_poll [OF assms(5)] clear] by simp
  have "wrote e (clear s1) [] s2"
    using wrote_sel [OF 1 assms(4)] assms by (intro task_keeps) auto
  from wrote_trans [OF wrote_trans [OF 1 this] wrote_WaitUntilReady [OF assms(7)]] show ?thesis by simp
qed

lemmas packet_wrote = packet_wrote_with [OF _ _ _ _ _ _ _ wrote_ClearIN]
  and packet_wrote_OUT = packet_wrote_with [OF _ _ _ _ _ _ _ wrote_ClearOUT]

lemma write_loop_bytes:
  assumes "RW_loop w (task w) (Endpoint_ClearIN w) (transfer_write pos) None x = Some r"
    and w: "uenum_reads_back w" "e \<noteq> 0" "e < 16"
  shows "write_result e pos x r"
  using assms(1) unfolding RW_loop_def
proof (induction rule: iterate_induct)
  case (stop x r)
  obtain k L b m s where x: "x = (k, L, b, m, s)" by (cases x)
  from stop [unfolded x] show ?case
  proof (cases rule: RW_turn_cases)
    case finish
    then show ?thesis by (simp add: x write_result_def wrote_refl)
  next
    case (packet s1 s2 c s3)
    then show ?thesis using packet_wrote [OF w _ packet(2-4)]
      by (auto simp: x write_result_def rw_code_NoError split: if_splits)
  qed simp
next
  case (go x x' r)
  obtain k L b m s where x: "x = (k, L, b, m, s)" by (cases x)
  from go(1) [unfolded x] show ?case
  proof (cases rule: RW_turn_cases)
    case (packet s1 s2 c s3)
    then have x': "x' = (k + 0, L, b, m, s3)" by (simp split: if_splits)
    show ?thesis unfolding x
    proof (rule write_result_extend [OF go(2) [unfolded x']])
      show "wrote e s (map (\<lambda>k. m (pos k)) [k..<k + 0]) s3" if "ep_sel 0 (io s) = e"
        using packet_wrote [OF w that packet(2-4)] by simp
    qed simp_all
  next
    case (byte s1 m1 s2)
    then have "x' = (k + 1, L - 1, b + 1, m, Endpoint_Write_8 (m (pos k)) s1)" by (auto simp: transfer_write_def)
    then show ?thesis unfolding x using go(2) by (intro write_result_byte [OF _ byte(1,2)]) simp
  qed simp
qed

lemma write_stream_bytes:
  assumes "Endpoint_Write_Stream_LE w (task w) m Buffer Length None s = Some (code, p, m', s')"
    and w: "uenum_reads_back w" "e \<noteq> 0" "e < 16" and sel: "ep_sel 0 (io s) = e"
  shows "\<exists>n \<le> unat Length. wrote e s (map (\<lambda>k. m (Buffer + of_nat k)) [0..<n]) s' \<and> m' = m \<and>
    (code = ENDPOINT_RWSTREAM_NoError \<longrightarrow> n = unat Length)"
proof -
  obtain c s1 where s1: "Endpoint_WaitUntilReady w s = Some (c, s1)"
    and rest: "(if c \<noteq> ENDPOINT_READYWAIT_NoError then Some (rw_code c, None, m, s1)
       else RW_loop w (task w) (Endpoint_ClearIN w) (transfer_write (pos_LE Buffer)) None (0, Length, 0, m, s1)) = Some (code, p, m', s')"
    using assms(1) by (auto simp: Endpoint_Write_Stream_LE_def RW_template_def split: bind_splits cong: if_cong)
  have wr: "wrote e s [] s1" by (rule wrote_WaitUntilReady [OF s1])
  show ?thesis
  proof (cases "c = ENDPOINT_READYWAIT_NoError")
    case True
    then have "RW_loop w (task w) (Endpoint_ClearIN w) (transfer_write (pos_LE Buffer)) None (0, Length, 0, m, s1) = Some (code, p, m', s')"
      using rest by simp
    from write_loop_bytes [OF this w] have "write_result e (pos_LE Buffer) (0 + 0, Length, 0, m, s1) (code, p, m', s')"
      by simp
    then have "write_result e (pos_LE Buffer) (0, Length, 0, m, s) (code, p, m', s')"
      by (rule write_result_extend) (simp_all add: wr)
    then show ?thesis using sel by (auto simp: write_result_def pos_LE_def)
  next
    case False
    then show ?thesis using rest wr by (auto simp: rw_code_NoError)
  qed
qed

lemma read_loop_bytes:
  assumes "RW_loop w (task w) (Endpoint_ClearOUT w) (transfer_read w pos) None x = Some r"
    and w: "uenum_reads_back w" "e \<noteq> 0" "e < 16"
  shows "read_result e pos x r"
  using assms(1) unfolding RW_loop_def
proof (induction rule: iterate_induct)
  case (stop x r)
  obtain k L b m s where x: "x = (k, L, b, m, s)" by (cases x)
  from stop [unfolded x] show ?case
  proof (cases rule: RW_turn_cases)
    case finish
    then show ?thesis by (simp add: x read_result_def wrote_refl)
  next
    case (packet s1 s2 c s3)
    then show ?thesis using packet_wrote_OUT [OF w _ packet(2-4)]
      by (auto simp: x read_result_def rw_code_NoError split: if_splits)
  qed simp
next
  case (go x x' r)
  obtain k L b m s where x: "x = (k, L, b, m, s)" by (cases x)
  from go(1) [unfolded x] show ?case
  proof (cases rule: RW_turn_cases)
    case (packet s1 s2 c s3)
    then have x': "x' = (k + 0, L, b, m, s3)" by (simp split: if_splits)
    show ?thesis unfolding x
    proof (rule read_result_extend [OF go(2) [unfolded x']])
      show "wrote e s [] s3" if "ep_sel 0 (io s) = e" using packet_wrote_OUT [OF w that packet(2-4)] .
    qed simp_all
  next
    case (byte s1 m1 s2)
    obtain v where v: "Endpoint_Read_8 w s1 = (v, s2)" "m1 = m(pos k := v)"
      using byte(3) by (auto simp: transfer_read_def split: prod.splits)
    have x': "x' = (k + 1, L - 1, b + 1, m1, s2)" using byte(4) by simp
    show ?thesis unfolding x
    proof (rule read_result_extend [OF go(2) [unfolded x']])
      show "1 \<le> unat L" using byte(1) by (simp add: Suc_le_eq unat_gt_0)
      show "unat (L - 1) = unat L - 1" using byte(1) by (simp add: unat_minus_one)
      show "wrote e s [] s2" using wrote_trans [OF wrote_poll [OF byte(2)] wrote_Read_8 [OF v(1)]] by simp
      show "\<forall>a. a \<notin> pos ` {k..<k + 1} \<longrightarrow> m1 a = m a" by (simp add: v(2))
    qed
  qed simp
qed

lemma read_stream_bytes:
  assumes "Endpoint_Read_Stream_LE w (task w) m Buffer Length None s = Some (code, p, m', s')"
    and w: "uenum_reads_back w" "e \<noteq> 0" "e < 16" and sel: "ep_sel 0 (io s) = e"
  shows "wrote e s [] s' \<and> (\<exists>n \<le> unat Length. (\<forall>a. a \<notin> (\<lambda>k. Buffer + of_nat k) ` {0..<n} \<longrightarrow> m' a = m a) \<and>
    (code = ENDPOINT_RWSTREAM_NoError \<longrightarrow> n = unat Length))"
proof -
  obtain c s1 where s1: "Endpoint_WaitUntilReady w s = Some (c, s1)"
    and rest: "(if c \<noteq> ENDPOINT_READYWAIT_NoError then Some (rw_code c, None, m, s1)
       else RW_loop w (task w) (Endpoint_ClearOUT w) (transfer_read w (pos_LE Buffer)) None (0, Length, 0, m, s1)) = Some (code, p, m', s')"
    using assms(1) by (auto simp: Endpoint_Read_Stream_LE_def RW_template_def split: bind_splits cong: if_cong)
  have wr: "wrote e s [] s1" by (rule wrote_WaitUntilReady [OF s1])
  show ?thesis
  proof (cases "c = ENDPOINT_READYWAIT_NoError")
    case True
    then have "RW_loop w (task w) (Endpoint_ClearOUT w) (transfer_read w (pos_LE Buffer)) None (0, Length, 0, m, s1) = Some (code, p, m', s')"
      using rest by simp
    from read_loop_bytes [OF this w] have "read_result e (pos_LE Buffer) (0 + 0, Length, 0, m, s1) (code, p, m', s')"
      by simp
    then have "read_result e (pos_LE Buffer) (0, Length, 0, m, s) (code, p, m', s')"
      by (rule read_result_extend) (simp_all add: wr)
    then show ?thesis using sel by (auto simp: read_result_def pos_LE_def)
  next
    case False
    then show ?thesis using rest wr by (auto simp: rw_code_NoError)
  qed
qed

end

end
