(* ===== verification/ControlTransfer.thy ===== *)
theory ControlTransfer
  imports EndpointStream "HOL-Library.Sublist"
begin

text \<open>
  What the control streams of theory \<open>EndpointStream\<close> put on the bus. A packet is the run of bytes written
  to the bank between two hand-overs; the host of a control transfer is described by what it does with
  the packets it has received.
\<close>

subsection \<open>Packets\<close>

text \<open>The packets of a trace: the bytes written to \<^verbatim>\<open>UEDATX\<close> between two writes of \<^verbatim>\<open>UEINTX\<close>, which hand
  the bank over. \<open>bank_fill acc t\<close> is what the bank holds after \<open>t\<close>.\<close>

fun bank_fill :: "u8 list \<Rightarrow> history \<Rightarrow> u8 list" where
  "bank_fill acc [] = acc"
| "bank_fill acc (Wr r v # t) =
     (if r = UEDATX then bank_fill (acc @ [v]) t else if r = UEINTX then bank_fill [] t else bank_fill acc t)"
| "bank_fill acc (Rd r v # t) = bank_fill acc t"

fun packets :: "u8 list \<Rightarrow> history \<Rightarrow> u8 list list" where
  "packets acc [] = []"
| "packets acc (Wr r v # t) =
     (if r = UEDATX then packets (acc @ [v]) t else if r = UEINTX then acc # packets [] t else packets acc t)"
| "packets acc (Rd r v # t) = packets acc t"

lemma bank_fill_append [simp]: "bank_fill acc (t @ t') = bank_fill (bank_fill acc t) t'"
  by (induction acc t rule: bank_fill.induct) auto

lemma packets_append [simp]: "packets acc (t @ t') = packets acc t @ packets (bank_fill acc t) t'"
  by (induction acc t rule: bank_fill.induct) auto

lemma bank_data [simp]:
  "bank_fill acc (map (Wr UEDATX) xs) = acc @ xs" "packets acc (map (Wr UEDATX) xs) = []"
  "writes UENUM (map (Wr UEDATX) xs) = []"
  by (induction xs arbitrary: acc) auto

function control_packets :: "'b list \<Rightarrow> 'b list list" where
  "control_packets xs = (if length xs < 64 then [xs] else take 64 xs # control_packets (drop 64 xs))"
  by pat_completeness auto
termination by (relation "measure length") auto

declare control_packets.simps [simp del]

lemma concat_control_packets: "concat (control_packets xs) = xs"
  by (induction xs rule: control_packets.induct) (subst control_packets.simps, simp)

definition bank_counts :: "world \<Rightarrow> history \<Rightarrow> bool" where
  "bank_counts w h \<longleftrightarrow> (\<forall>t v. writes UENUM t = [] \<and> has v (bv TXINI) \<longrightarrow>
     dev w (h @ t @ [Rd UEINTX v]) UEBCLX = of_nat (length (bank_fill [] t)))"

lemma bank_counts_append:
  assumes "bank_counts w h" and "writes UENUM t = []" and "bank_fill [] t = []"
  shows "bank_counts w (h @ t)"
  unfolding bank_counts_def
proof (intro allI impI)
  fix t' v
  assume "writes UENUM t' = [] \<and> has v (bv TXINI)"
  then have "writes UENUM (t @ t') = [] \<and> has v (bv TXINI)" using assms(2) by simp
  then have "dev w (h @ (t @ t') @ [Rd UEINTX v]) UEBCLX = of_nat (length (bank_fill [] (t @ t')))"
    using assms(1) unfolding bank_counts_def by blast
  then show "dev w ((h @ t) @ t' @ [Rd UEINTX v]) UEBCLX = of_nat (length (bank_fill [] t'))"
    using assms(3) by simp
qed

lemma control_size [simp]: "(ucast FIXED_CONTROL_ENDPOINT_SIZE :: u16) = 64"
  by (simp add: FIXED_CONTROL_ENDPOINT_SIZE_def)

lemma fill_bank_eq:
  assumes "n \<le> 64" and "j = min (unat Length) (64 - unat n)"
  shows "fill_bank byte k Length n s =
    (k + j, Length - of_nat j, n + of_nat j, s\<lparr>io := io s @ map (Wr UEDATX) (map byte [k..<k + j])\<rparr>)"
  using assms
proof (induction j arbitrary: k Length n s)
  case 0
  then have "Length = 0 \<or> \<not> n < 64" by (auto simp: word_less_nat_alt min_def unat_eq_0 split: if_splits)
  then show ?case by (subst fill_bank.simps) auto
next
  case (Suc j)
  then have L: "Length \<noteq> 0" and n: "n < 64" by (auto simp: word_less_nat_alt)
  have n1: "unat (n + 1) = unat n + 1" using n by (simp add: word_less_nat_alt unat_word_ariths)
  have l1: "unat (Length - 1) = unat Length - 1" using L by (simp add: unat_minus_one)
  have le: "n + 1 \<le> 64" using n n1 by (simp add: word_le_nat_alt word_less_nat_alt)
  have j: "j = min (unat (Length - 1)) (64 - unat (n + 1))" using Suc.prems(2) n1 l1 by simp
  have up: "[k..<Suc (j + k)] = k # [Suc k..<Suc (j + k)]" by (simp add: upt_rec)
  show ?case using L n Suc.IH [OF le j, of "k + 1" "Endpoint_Write_8 (byte k) s"]
    by (subst fill_bank.simps) (simp add: up ep_io algebra_simps del: upt_Suc)
qed


text \<open>The packets that are left when \<open>Length\<close> bytes from the \<open>k\<close>-th on remain.\<close>

definition packets_left :: "(nat \<Rightarrow> u8) \<Rightarrow> nat \<Rightarrow> u16 \<Rightarrow> bool \<Rightarrow> u8 list list" where
  "packets_left byte k Length full =
     (if Length = 0 \<and> \<not> full then [] else control_packets (map byte [k..<k + unat Length]))"

lemma packets_left_step:
  assumes "Length \<noteq> 0 \<or> full" and "j = min (unat Length) 64"
  shows "packets_left byte k Length full =
    map byte [k..<k + j] # packets_left byte (k + j) (Length - of_nat j) (j = 64)"
proof -
  have l: "unat (Length - of_nat j) = unat Length - j"
    using assms(2) by (simp add: unat_sub_if' unat_of_nat_u16 le_less_trans [OF _ unat_u16_lt])
  show ?thesis
  proof (cases "unat Length < 64")
    case True
    then have "Length - of_nat j = 0" using assms(2) l by (simp add: unat_eq_0 [symmetric])
    then show ?thesis using True assms
      by (auto simp: packets_left_def control_packets.simps [of "map byte [k..<k + unat Length]"])
  next
    case False
    then have "j = 64" using assms(2) by simp
    moreover have "take 64 (map byte [k..<k + unat Length]) = map byte [k..<k + 64]"
      "drop 64 (map byte [k..<k + unat Length]) = map byte [k + 64..<k + unat Length]"
      using False by (simp_all add: take_map drop_map take_upt)
    ultimately show ?thesis using False assms(1) l
      by (simp add: packets_left_def control_packets.simps [of "map byte [k..<k + unat Length]"])
  qed
qed

text \<open>Why a loop of a control stream ended.\<close>

definition saw :: "world \<Rightarrow> history \<Rightarrow> nat \<Rightarrow> history \<Rightarrow> bool" where
  "saw w h b t \<longleftrightarrow> (\<exists>t0. t = t0 @ [Rd UEINTX (dev w (h @ t0) UEINTX)] \<and> has (dev w (h @ t0) UEINTX) (bv b))"

lemma saw_append: "saw w (h @ t) b t' \<Longrightarrow> saw w h b (t @ t')"
  by (auto simp: saw_def)

lemma saw_snoc: "v = dev w (h @ t) UEINTX \<Longrightarrow> has v (bv b) \<Longrightarrow> saw w h b (t @ [Rd UEINTX v])"
  by (auto simp: saw_def)

definition code_reason ::
  "world \<Rightarrow> history \<Rightarrow> Endpoint_ControlStream_RW_ErrorCodes \<Rightarrow> history \<Rightarrow> USB_Device_States_t \<Rightarrow> bool" where
  "code_reason w h code t st =
     (case code of
        ENDPOINT_RWCSTREAM_NoError \<Rightarrow> saw w h RXOUTI t
      | ENDPOINT_RWCSTREAM_HostAborted \<Rightarrow> saw w h RXSTPI t
      | ENDPOINT_RWCSTREAM_DeviceDisconnected \<Rightarrow> st = DEVICE_STATE_Unattached
      | ENDPOINT_RWCSTREAM_BusSuspended \<Rightarrow> st = DEVICE_STATE_Suspended)"

lemma code_reason_append: "code_reason w (h @ t) code t' st \<Longrightarrow> code_reason w h code (t @ t') st"
  by (auto simp: code_reason_def saw_append split: Endpoint_ControlStream_RW_ErrorCodes.splits)

definition W_result ::
  "world \<Rightarrow> u8 list list \<Rightarrow> 'a usb_scheme \<Rightarrow> Endpoint_ControlStream_RW_ErrorCodes option \<times> 'a usb_scheme \<Rightarrow> bool" where
  "W_result w ps s r \<longleftrightarrow>
     (\<exists>t st. snd r = s\<lparr>io := io s @ t, USB_DeviceState := st\<rparr> \<and> writes UENUM t = [] \<and>
       bank_fill [] t = [] \<and> prefix (packets [] t) ps \<and>
       (case fst r of None \<Rightarrow> packets [] t = ps \<or> saw w (io s) RXOUTI t
        | Some code \<Rightarrow> code \<noteq> ENDPOINT_RWCSTREAM_NoError \<and> code_reason w (io s) code t st))"

lemma W_result_extend:
  assumes "W_result w ps' (s\<lparr>io := io s @ t1, USB_DeviceState := st1\<rparr>) r" and "writes UENUM t1 = []" and "bank_fill [] t1 = []"
    and "ps = packets [] t1 @ ps'"
  shows "W_result w ps s r"
proof -
  obtain t st where "snd r = s\<lparr>io := io s @ (t1 @ t), USB_DeviceState := st\<rparr>" "writes UENUM t = []"
    "bank_fill [] t = []" "prefix (packets [] t) ps'" 
    "case fst r of None \<Rightarrow> packets [] t = ps' \<or> saw w (io s @ t1) RXOUTI t
     | Some code \<Rightarrow> code \<noteq> ENDPOINT_RWCSTREAM_NoError \<and> code_reason w (io s @ t1) code t st"
    using assms(1) unfolding W_result_def by (auto cong: option.case_cong)
  then show ?thesis unfolding W_result_def using assms(2-4)
    by (intro exI [of _ "t1 @ t"] exI [of _ st]) (auto simp: code_reason_append saw_append split: option.splits)
qed

lemma reads_only [simp]:
  assumes "list_all is_read t"
  shows "writes r t = []" and "bank_fill acc t = acc" and "packets acc t = []"
  using assms by (induction t) (auto elim: is_read.elims)

lemma bank_empty:
  assumes "bank_counts w h" and "list_all is_read t" and "has v (bv TXINI)"
  shows "dev w (h @ t @ [Rd UEINTX v]) UEBCLX = 0"
  using assms by (simp add: bank_counts_def)

text \<open>The accesses of one packet: the poll that found the bank free, the byte count, the data and the
  hand-over.\<close>

definition packet_trace :: "world \<Rightarrow> history \<Rightarrow> u8 list \<Rightarrow> history" where
  "packet_trace w h xs =
     (let t = Rd UEBCLX 0 # map (Wr UEDATX) xs; v = dev w (h @ t) UEINTX
      in t @ [Rd UEINTX v, Wr UEINTX (v AND NOT (bv TXINI OR bv FIFOCON))])"

lemma packet_trace_simps [simp]:
  "writes UENUM (packet_trace w h xs) = []" "bank_fill [] (packet_trace w h xs) = []"
  "packets [] (packet_trace w h xs) = [xs]"
  by (simp_all add: packet_trace_def Let_def)

lemma send_packet:
  assumes "dev w (io s) UEBCLX = 0" and "j = min (unat Length) 64"
  shows "(let (n, s) = Endpoint_BytesInEndpoint w s; (k, Length, n, s) = fill_bank byte k Length n s
          in f k Length (n = ucast FIXED_CONTROL_ENDPOINT_SIZE) (Endpoint_ClearIN w s)) =
    f (k + j) (Length - of_nat j) (j = 64)
      (s\<lparr>io := io s @ packet_trace w (io s) (map byte [k..<k + j])\<rparr>)"
proof -
  have "(of_nat j = (64 :: u16)) = (j = 64)"
    using assms(2) by (simp add: word_unat_eq_iff unat_of_nat_u16 min_def)
  then show ?thesis using assms
    by (simp add: fill_bank_eq [where j = j] ep_io packet_trace_def Let_def)
qed


text \<open>One turn of the loop, with the register accesses written out.\<close>

lemma Control_W_turn_eq:
  assumes "st = seen_state w s" and "v1 = dev w (io s) UEINTX"
    and "v2 = dev w (io s @ [Rd UEINTX v1]) UEINTX" and "v3 = dev w (io s @ [Rd UEINTX v1, Rd UEINTX v2]) UEINTX"
    and "has v3 (bv TXINI) \<Longrightarrow> dev w (io s @ [Rd UEINTX v1, Rd UEINTX v2, Rd UEINTX v3]) UEBCLX = 0"
    and "j = min (unat Length) 64" and "Length \<noteq> 0 \<or> full"
  shows "Control_W_turn w byte (k, Length, full, s) =
     (let s' = \<lambda>t. s\<lparr>io := io s @ t, USB_DeviceState := st\<rparr>; t3 = [Rd UEINTX v1, Rd UEINTX v2, Rd UEINTX v3]
      in if st = DEVICE_STATE_Unattached then Inl (Some ENDPOINT_RWCSTREAM_DeviceDisconnected, s' [])
      else if st = DEVICE_STATE_Suspended then Inl (Some ENDPOINT_RWCSTREAM_BusSuspended, s' [])
      else if has v1 (bv RXSTPI) then Inl (Some ENDPOINT_RWCSTREAM_HostAborted, s' [Rd UEINTX v1])
      else if has v2 (bv RXOUTI) then Inl (None, s' [Rd UEINTX v1, Rd UEINTX v2])
      else if has v3 (bv TXINI)
      then Inr (k + j, Length - of_nat j, j = 64, s' (t3 @ packet_trace w (io s @ t3) (map byte [k..<k + j])))
      else Inr (k, Length, full, s' t3))"
proof -
  let ?s3 = "s\<lparr>io := io s @ [Rd UEINTX v1, Rd UEINTX v2, Rd UEINTX v3], USB_DeviceState := st\<rparr>"
  have packet: "(let (n, s) = Endpoint_BytesInEndpoint w ?s3; (k, Length, n, s) = fill_bank byte k Length n s
      in Inr (k, Length, n = ucast FIXED_CONTROL_ENDPOINT_SIZE, Endpoint_ClearIN w s)) =
    Inr (k + j, Length - of_nat j, j = 64, ?s3\<lparr>io := io ?s3 @ packet_trace w (io ?s3) (map byte [k..<k + j])\<rparr>)"
    if "has v3 (bv TXINI)"
    using send_packet [of w ?s3 j Length byte k "\<lambda>k L f s. Inr (k, L, f, s)"] assms(5,6) that by simp
  have idle: "(Length = 0 \<and> \<not> full) = False" using assms(7) by blast
  have turn: "Control_W_turn w byte (k, Length, full, s) =
     (if st = DEVICE_STATE_Unattached then Inl (Some ENDPOINT_RWCSTREAM_DeviceDisconnected, s\<lparr>USB_DeviceState := st\<rparr>)
      else if st = DEVICE_STATE_Suspended then Inl (Some ENDPOINT_RWCSTREAM_BusSuspended, s\<lparr>USB_DeviceState := st\<rparr>)
      else if has v1 (bv RXSTPI)
      then Inl (Some ENDPOINT_RWCSTREAM_HostAborted, s\<lparr>io := io s @ [Rd UEINTX v1], USB_DeviceState := st\<rparr>)
      else if has v2 (bv RXOUTI)
      then Inl (None, s\<lparr>io := io s @ [Rd UEINTX v1, Rd UEINTX v2], USB_DeviceState := st\<rparr>)
      else if has v3 (bv TXINI) then
        (let (n, s) = Endpoint_BytesInEndpoint w ?s3; (k, Length, n, s) = fill_bank byte k Length n s
         in Inr (k, Length, n = ucast FIXED_CONTROL_ENDPOINT_SIZE, Endpoint_ClearIN w s))
      else Inr (k, Length, full, ?s3))"
    unfolding Control_W_turn_def case_prod_conv idle
    by (simp add: get_DeviceState_eq Endpoint_IsSETUPReceived_def Endpoint_IsOUTReceived_def Endpoint_IsINReady_def
        test_mask_eq assms(1-4) upd_order cong: if_cong)
  show ?thesis
  proof (cases "has v3 (bv TXINI)")
    case True
    show ?thesis unfolding turn packet [OF True] by (simp add: Let_def upd_order)
  qed (simp add: turn)
qed

lemma Control_W_turn_cases:
  assumes "Control_W_turn w byte (k, Length, full, s) = x" and "Length \<noteq> 0 \<or> full"
    and "bank_counts w (io s)"
  obtains (stop) t c where "x = Inl (c, s\<lparr>io := io s @ t, USB_DeviceState := seen_state w s\<rparr>)"
      and "list_all is_read t"
      and "case c of None \<Rightarrow> saw w (io s) RXOUTI t
           | Some code \<Rightarrow> code \<noteq> ENDPOINT_RWCSTREAM_NoError \<and> code_reason w (io s) code t (seen_state w s)"
    | (wait) v1 v2 v3 where
        "x = Inr (k, Length, full, s\<lparr>io := io s @ [Rd UEINTX v1, Rd UEINTX v2, Rd UEINTX v3], USB_DeviceState := seen_state w s\<rparr>)"
      and "v1 = dev w (io s) UEINTX" and "v2 = dev w (io s @ [Rd UEINTX v1]) UEINTX"
      and "v3 = dev w (io s @ [Rd UEINTX v1, Rd UEINTX v2]) UEINTX"
      and "\<not> has v2 (bv RXOUTI)" and "\<not> has v3 (bv TXINI)"
    | (send) t p k' Length' full' where "x = Inr (k', Length', full', s\<lparr>io := io s @ t, USB_DeviceState := seen_state w s\<rparr>)"
      and "packets [] t = [p]" and "writes UENUM t = []" and "bank_fill [] t = []"
      and "packets_left byte k Length full = p # packets_left byte k' Length' full'"
proof -
  define st where "st = seen_state w s"
  define v1 where "v1 = dev w (io s) UEINTX"
  define v2 where "v2 = dev w (io s @ [Rd UEINTX v1]) UEINTX"
  define v3 where "v3 = dev w (io s @ [Rd UEINTX v1, Rd UEINTX v2]) UEINTX"
  define j where "j = min (unat Length) 64"
  let ?t3 = "[Rd UEINTX v1, Rd UEINTX v2, Rd UEINTX v3]"
  have bcl: "dev w (io s @ ?t3) UEBCLX = 0" if "has v3 (bv TXINI)"
    using bank_empty [OF assms(3), of "[Rd UEINTX v1, Rd UEINTX v2]" v3] that by simp
  note turn = Control_W_turn_eq [OF st_def v1_def v2_def v3_def bcl j_def assms(2), of byte k, unfolded assms(1) Let_def]
  have saw1: "saw w (io s) b [Rd UEINTX v1]" if "has v1 (bv b)" for b
    using saw_snoc [of v1 w "io s" "[]" b] that v1_def by simp
  have saw2: "saw w (io s) b [Rd UEINTX v1, Rd UEINTX v2]" if "has v2 (bv b)" for b
    using saw_snoc [of v2 w "io s" "[Rd UEINTX v1]" b] that v2_def by simp
  note stop = stop [folded st_def] and wait = wait [folded st_def] and send = send [folded st_def]
  consider "st = DEVICE_STATE_Unattached" | "st = DEVICE_STATE_Suspended"
    | "st \<noteq> DEVICE_STATE_Unattached" "st \<noteq> DEVICE_STATE_Suspended" by blast
  then show thesis
  proof cases
    case 1
    then show thesis using turn
      by (intro stop [of "Some ENDPOINT_RWCSTREAM_DeviceDisconnected" "[]"]) (simp_all add: code_reason_def)
  next
    case 2
    then show thesis using turn
      by (intro stop [of "Some ENDPOINT_RWCSTREAM_BusSuspended" "[]"]) (simp_all add: code_reason_def)
  next
    case 3
    consider "has v1 (bv RXSTPI)" | "\<not> has v1 (bv RXSTPI)" "has v2 (bv RXOUTI)"
      | "\<not> has v1 (bv RXSTPI)" "\<not> has v2 (bv RXOUTI)" "has v3 (bv TXINI)"
      | "\<not> has v1 (bv RXSTPI)" "\<not> has v2 (bv RXOUTI)" "\<not> has v3 (bv TXINI)" by blast
    then show thesis
    proof cases
      case a: 1
      then show thesis using turn 3
        by (intro stop [of "Some ENDPOINT_RWCSTREAM_HostAborted" "[Rd UEINTX v1]"]) (simp_all add: code_reason_def saw1 saw2)
    next
      case b: 2
      then show thesis using turn 3
        by (intro stop [of None "[Rd UEINTX v1, Rd UEINTX v2]"]) (simp_all add: code_reason_def saw1 saw2)
    next
      case c: 3
      with turn 3 show thesis
        by (intro send [of _ _ _ "?t3 @ packet_trace w (io s @ ?t3) (map byte [k..<k + j])",
              OF _ _ _ _ packets_left_step [OF assms(2) j_def]]) simp_all
    next
      case d: 4
      then show thesis using turn 3 by (intro wait [OF _ v1_def v2_def v3_def]) simp_all
    qed
  qed
qed

lemma Control_W_turn_done: "Control_W_turn w byte (k, 0, False, s) = Inl (None, s)"
  by (simp add: Control_W_turn_def)

lemma Control_W_loop_sound:
  assumes "Control_W_loop w byte (k, Length, full, s) = Some r" and "bank_counts w (io s)"
  shows "W_result w (packets_left byte k Length full) s r"
proof -
  let ?P = "\<lambda>x r. case x of (k, Length, full, s) \<Rightarrow> bank_counts w (io s) \<longrightarrow> W_result w (packets_left byte k Length full) s r"
  have "?P (k, Length, full, s) r"
    using assms(1) unfolding Control_W_loop_def
  proof (induction rule: iterate_induct)
    case (stop x r)
    obtain k Length full s where x: "x = (k, Length, full, s)" by (cases x)
    show ?case unfolding x prod.case
    proof (rule impI, cases "Length = 0 \<and> \<not> full")
      case True
      then have "r = (None, s)" using stop x by (simp add: Control_W_turn_done)
      then show "W_result w (packets_left byte k Length full) s r" unfolding W_result_def using True
        by (intro exI [of _ "[]"] exI [of _ "USB_DeviceState s"]) (simp add: packets_left_def)
    next
      case False
      assume bc: "bank_counts w (io s)"
      have more: "Length \<noteq> 0 \<or> full" using False by blast
      have turn: "Control_W_turn w byte (k, Length, full, s) = Inl r" using stop x by simp
      from turn more bc show "W_result w (packets_left byte k Length full) s r"
      proof (cases rule: Control_W_turn_cases)
        case (stop t c)
        then show ?thesis unfolding W_result_def
          by (intro exI [of _ t] exI [of _ "seen_state w s"]) (auto split: option.splits)
      qed simp_all
    qed
  next
    case (go x x' r)
    obtain k Length full s where x: "x = (k, Length, full, s)" by (cases x)
    show ?case unfolding x prod.case
    proof
      assume bc: "bank_counts w (io s)"
      have more: "Length \<noteq> 0 \<or> full" using go(1) x by (cases full) (auto simp: Control_W_turn_done)
      have turn: "Control_W_turn w byte (k, Length, full, s) = Inr x'" using go(1) x by simp
      from turn more bc show "W_result w (packets_left byte k Length full) s r"
      proof (cases rule: Control_W_turn_cases)
        case (wait v1 v2 v3)
        then have "W_result w (packets_left byte k Length full)
            (s\<lparr>io := io s @ [Rd UEINTX v1, Rd UEINTX v2, Rd UEINTX v3], USB_DeviceState := seen_state w s\<rparr>) r"
          using go(2) bank_counts_append [OF bc, of "[Rd UEINTX v1, Rd UEINTX v2, Rd UEINTX v3]"] by simp
        then show ?thesis by (rule W_result_extend) (use wait in simp_all)
      next
        case (send t p k' L' full')
        then have "W_result w (packets_left byte k' L' full') (s\<lparr>io := io s @ t, USB_DeviceState := seen_state w s\<rparr>) r"
          using go(2) bank_counts_append [OF bc, of t] by simp
        then show ?thesis by (rule W_result_extend) (use send in simp_all)
      qed simp
    qed
  qed
  with assms(2) show ?thesis by simp
qed

lemma Control_W_status_turn_cases:
  assumes "Control_W_status_turn w s = x"
  obtains (stop) t st code where "x = Inl (code, s\<lparr>io := io s @ t, USB_DeviceState := st\<rparr>)" and "list_all is_read t"
      and "code_reason w (io s) code t st" and "st = USB_DeviceState s \<or> st = seen_state w (s\<lparr>io := rd_history w UEINTX (io s)\<rparr>)"
    | (wait) v1 v2 where "x = Inr (s\<lparr>io := io s @ [Rd UEINTX v1, Rd UEINTX v2],
          USB_DeviceState := seen_state w (s\<lparr>io := rd_history w UEINTX (io s)\<rparr>)\<rparr>)"
      and "v1 = dev w (io s) UEINTX" and "v2 = dev w (io s @ [Rd UEINTX v1]) UEINTX" and "\<not> has v1 (bv RXOUTI)"
proof -
  define v1 where "v1 = dev w (io s) UEINTX"
  define s1 where "s1 = s\<lparr>io := io s @ [Rd UEINTX v1]\<rparr>"
  define st where "st = seen_state w s1"
  define v2 where "v2 = dev w (io s @ [Rd UEINTX v1]) UEINTX"
  define s2 where "s2 = s\<lparr>io := io s @ [Rd UEINTX v1, Rd UEINTX v2], USB_DeviceState := st\<rparr>"
  have seen: "seen_state w (s\<lparr>io := rd_history w UEINTX (io s)\<rparr>) = st"
    by (simp add: st_def s1_def v1_def rd_history_def)
  have e1: "Endpoint_IsOUTReceived w s = (has v1 (bv RXOUTI), s1)"
    by (simp add: Endpoint_IsOUTReceived_def test_mask_eq s1_def v1_def)
  have e2: "get_DeviceState w s1 = (st, s1\<lparr>USB_DeviceState := st\<rparr>)" by (simp add: get_DeviceState_eq st_def)
  have e3: "Endpoint_IsSETUPReceived w (s1\<lparr>USB_DeviceState := st\<rparr>) = (has v2 (bv RXSTPI), s2)"
    by (simp add: Endpoint_IsSETUPReceived_def test_mask_eq s1_def v2_def s2_def upd_order)
  have body: "x = (if has v1 (bv RXOUTI) then Inl (ENDPOINT_RWCSTREAM_NoError, s1)
     else if st = DEVICE_STATE_Unattached then Inl (ENDPOINT_RWCSTREAM_DeviceDisconnected, s1\<lparr>USB_DeviceState := st\<rparr>)
     else if st = DEVICE_STATE_Suspended then Inl (ENDPOINT_RWCSTREAM_BusSuspended, s1\<lparr>USB_DeviceState := st\<rparr>)
     else if has v2 (bv RXSTPI) then Inl (ENDPOINT_RWCSTREAM_HostAborted, s2) else Inr s2)"
    using assms unfolding Control_W_status_turn_def by (simp only: Let_def case_prod_conv e1 e2 e3)
  have saw1: "saw w (io s) b [Rd UEINTX v1]" if "has v1 (bv b)" for b
    using saw_snoc [of v1 w "io s" "[]" b] that v1_def by simp
  have saw2: "saw w (io s) b [Rd UEINTX v1, Rd UEINTX v2]" if "has v2 (bv b)" for b
    using saw_snoc [of v2 w "io s" "[Rd UEINTX v1]" b] that v2_def by simp
  note stop = stop [unfolded seen] and wait = wait [unfolded seen]
  consider "has v1 (bv RXOUTI)" | c where "x = Inl (c, s1\<lparr>USB_DeviceState := st\<rparr>)" "code_reason w (io s) c [Rd UEINTX v1] st"
    | "x = Inl (ENDPOINT_RWCSTREAM_HostAborted, s2)" "has v2 (bv RXSTPI)" | "x = Inr s2" "\<not> has v1 (bv RXOUTI)"
    using body by (auto simp: code_reason_def split: if_splits)
  then show thesis
  proof cases
    case 1
    then show thesis using body saw1
      by (intro stop [of ENDPOINT_RWCSTREAM_NoError "USB_DeviceState s" "[Rd UEINTX v1]"]) (simp_all add: s1_def code_reason_def)
  next
    case (2 c)
    then show thesis by (intro stop [of c st "[Rd UEINTX v1]"]) (simp_all add: s1_def)
  next
    case 3
    then show thesis using saw2
      by (intro stop [of ENDPOINT_RWCSTREAM_HostAborted st "[Rd UEINTX v1, Rd UEINTX v2]"]) (simp_all add: s2_def code_reason_def)
  next
    case 4
    then show thesis by (intro wait [OF _ v1_def v2_def]) (simp_all add: s2_def)
  qed
qed

lemma Control_W_status_sound:
  assumes "Control_W_status w s = Some r"
  shows "\<exists>t st. snd r = s\<lparr>io := io s @ t, USB_DeviceState := st\<rparr> \<and> list_all is_read t \<and> code_reason w (io s) (fst r) t st"
  using assms unfolding Control_W_status_def
proof (induction rule: iterate_induct)
  case (stop s r)
  then have "Control_W_status_turn w s = Inl r" by simp
  then show ?case by (cases rule: Control_W_status_turn_cases) auto
next
  case (go s s' r)
  then have "Control_W_status_turn w s = Inr s'" by simp
  then show ?case
  proof (cases rule: Control_W_status_turn_cases)
    case (wait v1 v2)
    let ?t = "[Rd UEINTX v1, Rd UEINTX v2]"
    obtain t st where t: "snd r = s'\<lparr>io := io s' @ t, USB_DeviceState := st\<rparr>" "list_all is_read t"
      "code_reason w (io s') (fst r) t st" using go(2) by blast
    have "snd r = s\<lparr>io := io s @ (?t @ t), USB_DeviceState := st\<rparr>" using t(1) wait(1) by simp
    moreover have "code_reason w (io s) (fst r) (?t @ t) st"
      using t(3) wait(1) by (intro code_reason_append) simp
    ultimately show ?thesis using t(2) by (intro exI [of _ "?t @ t"] exI [of _ st]) simp
  qed simp
qed

subsection \<open>The packets of a whole transfer\<close>

definition control_reply :: "(nat \<Rightarrow> u8) \<Rightarrow> u16 \<Rightarrow> u16 \<Rightarrow> u8 list list" where
  "control_reply byte Length n =
     (if Length > n then packets_left byte 0 n False
      else if Length = 0 then [[]] else packets_left byte 0 Length False)"

lemma concat_packets_left: "concat (packets_left byte k Length full) = map byte [k..<k + unat Length]"
  by (simp add: packets_left_def concat_control_packets)

lemma concat_control_reply:
  "concat (control_reply byte Length n) = map byte [0..<min (unat Length) (unat n)]"
  by (auto simp: control_reply_def concat_packets_left word_less_nat_alt min_def)

lemma length_control_packets: "p \<in> set (control_packets xs) \<Longrightarrow> length p \<le> 64"
proof (induction xs rule: control_packets.induct)
  case (1 xs)
  then show ?case by (cases "length xs < 64") (auto simp: control_packets.simps [of xs])
qed

lemma short_packet_is_last:
  "prefix ps (control_packets xs) \<Longrightarrow> ps \<noteq> [] \<Longrightarrow> length (last ps) < 64 \<Longrightarrow> ps = control_packets xs"
proof (induction xs arbitrary: ps rule: control_packets.induct)
  case (1 xs)
  show ?case
  proof (cases "length xs < 64")
    case True
    then show ?thesis using 1 by (auto simp: control_packets.simps [of xs] prefix_Cons)
  next
    case False
    then obtain ps' where ps: "ps = take 64 xs # ps'" "prefix ps' (control_packets (drop 64 xs))"
      using 1(2,3) by (auto simp: control_packets.simps [of xs] prefix_Cons)
    then have "ps' \<noteq> []" using 1(4) False by auto
    then show ?thesis using 1(1) [OF False ps(2)] 1(4) ps False by (simp add: control_packets.simps [of xs])
  qed
qed

lemma control_packets_end: "control_packets xs \<noteq> [] \<and> length (last (control_packets xs)) < 64"
proof (induction xs rule: control_packets.induct)
  case (1 xs)
  then show ?case by (cases "length xs < 64") (auto simp: control_packets.simps [of xs])
qed

text \<open>The first step of \<^verbatim>\<open>Endpoint_Write_Control_Stream\<close>: the length is cut to what the host asked for; an
  empty reply is handed over at once.\<close>

lemma Control_W_cases:
  fixes s :: "'a usb_scheme"
  assumes "n = wLength (USB_ControlRequest s)"
  obtains s1 L t where "Control_W w byte Length s = do {
        (r, s) \<leftarrow> Control_W_loop w byte (0, L, False, s1);
        (case r of Some code \<Rightarrow> Some (code, s) | None \<Rightarrow> Control_W_status w s) }"
    and "s1 = s\<lparr>io := io s @ t\<rparr>" and "writes UENUM t = []" and "bank_fill [] t = []"
    and "control_reply byte Length n = packets [] t @ packets_left byte 0 L False"
proof -
  consider "Length > n" | "Length \<le> n" "Length = 0" | "Length \<le> n" "Length \<noteq> 0" by fastforce
  then show thesis
  proof cases
    case 1
    then show thesis using that [of n s "[]"] assms
      by (simp add: Control_W_def control_reply_def Let_def)
  next
    case 2
    let ?v = "dev w (io s) UEINTX"
    let ?t = "[Rd UEINTX ?v, Wr UEINTX (?v AND NOT (bv TXINI OR bv FIFOCON))]"
    from 2 show thesis using that [of 0 "s\<lparr>io := io s @ ?t\<rparr>" ?t] assms
      by (simp add: Control_W_def control_reply_def ep_io packets_left_def Let_def)
  next
    case 3
    then have "\<not> n < Length" by simp
    then show thesis using 3(2) that [of Length s "[]"] assms
      by (simp add: Control_W_def control_reply_def Let_def)
  qed
qed

text \<open>C17: Sending a reply on the control endpoint: whatever the host and the interrupts do, the packets handed to
  the hardware are an initial part of the reply cut to the length the host asked for, in packets of
  64 bytes ended by a shorter one; no other endpoint and no other variable is touched; and the result
  code names what happened last on the bus: the host's status packet, a new request, a
  disconnection, or a suspended bus.\<close>

theorem control_write_sound:
  assumes "bank_counts w (io s)" and "Control_W w byte Length s = Some (code, s')"
  shows "\<exists>t st. s' = s\<lparr>io := io s @ t, USB_DeviceState := st\<rparr> \<and> writes UENUM t = [] \<and>
    prefix (packets [] t) (control_reply byte Length (wLength (USB_ControlRequest s))) \<and>
    code_reason w (io s) code t st"
proof -
  obtain s1 L t where run: "Control_W w byte Length s = do {
        (r, s) \<leftarrow> Control_W_loop w byte (0, L, False, s1);
        (case r of Some code \<Rightarrow> Some (code, s) | None \<Rightarrow> Control_W_status w s) }"
    and s1': "s1 = s\<lparr>io := io s @ t\<rparr>" and t: "writes UENUM t = []" "bank_fill [] t = []"
    and P: "control_reply byte Length (wLength (USB_ControlRequest s)) = packets [] t @ packets_left byte 0 L False"
    by (rule Control_W_cases [OF refl])
  have s1: "s1 = s\<lparr>io := io s @ t, USB_DeviceState := USB_DeviceState s\<rparr>" using s1' by simp
  obtain c s2 where loop: "Control_W_loop w byte (0, L, False, s1) = Some (c, s2)"
    and rest: "(case c of Some code \<Rightarrow> Some (code, s2) | None \<Rightarrow> Control_W_status w s2) = Some (code, s')"
    using run assms(2) by (auto split: bind_splits)
  have "bank_counts w (io s1)" unfolding s1 using bank_counts_append [OF assms(1) t] by simp
  from Control_W_loop_sound [OF loop this]
  have "W_result w (control_reply byte Length (wLength (USB_ControlRequest s))) s (c, s2)"
    unfolding s1 by (rule W_result_extend [OF _ t P])
  then obtain t2 st where s2: "s2 = s\<lparr>io := io s @ t2, USB_DeviceState := st\<rparr>" and t2: "writes UENUM t2 = []"
    "bank_fill [] t2 = []" "prefix (packets [] t2) (control_reply byte Length (wLength (USB_ControlRequest s)))"
    and c: "\<And>code. c = Some code \<Longrightarrow> code_reason w (io s) code t2 st"
    unfolding W_result_def by (auto split: option.splits)
  show ?thesis
  proof (cases c)
    case (Some code')
    then show ?thesis using rest s2 t2 c by auto
  next
    case None
    then have "Control_W_status w s2 = Some (code, s')" using rest by simp
    from Control_W_status_sound [OF this] obtain t3 st' where
      t3: "s' = s2\<lparr>io := io s2 @ t3, USB_DeviceState := st'\<rparr>" "list_all is_read t3" "code_reason w (io s2) code t3 st'"
      by auto
    have "code_reason w (io s) code (t2 @ t3) st'" using t3(3) s2 by (intro code_reason_append) simp
    then show ?thesis using t3 s2 t2 by (intro exI [of _ "t2 @ t3"] exI [of _ st']) simp
  qed
qed

subsection \<open>A host that reads the reply\<close>

text \<open>A host that asked for \<open>n\<close> bytes is done when it has received them, or a packet shorter than the endpoint.\<close>

definition host_done :: "nat \<Rightarrow> u8 list list \<Rightarrow> bool" where
  "host_done n ps \<longleftrightarrow> n \<le> length (concat ps) \<or> (ps \<noteq> [] \<and> length (last ps) < 64)"

text \<open>\<open>control_host w h n\<close>: after the history \<open>h\<close>, and as long as the control endpoint stays selected, the host
  reads \<open>n\<close> bytes on it: there are no interrupts and no new request, the status packet comes only when the
  host is done, and the host does not wait forever: the flag the firmware waits for (\<^verbatim>\<open>TXINI\<close> until the host is
  done, then \<^verbatim>\<open>RXOUTI\<close>) gets closer with every poll and stays set while it is only read.\<close>

definition next_flag :: "nat \<Rightarrow> history \<Rightarrow> nat" where
  "next_flag n t = (if host_done n (packets [] t) then RXOUTI else TXINI)"

definition host_ok :: "world \<Rightarrow> history \<Rightarrow> nat \<Rightarrow> (history \<Rightarrow> nat) \<Rightarrow> bool" where
  "host_ok w h n rank \<longleftrightarrow> (\<forall>t. writes UENUM t = [] \<longrightarrow>
     irq w (h @ t) = None \<and>
     \<not> has (dev w (h @ t) UEINTX) (bv RXSTPI) \<and>
     (has (dev w (h @ t) UEINTX) (bv RXOUTI) \<longrightarrow> host_done n (packets [] t)) \<and>
     rank (rd_history w UEINTX (h @ t)) \<le> rank (h @ t) \<and>
     (if has (dev w (h @ t) UEINTX) (bv (next_flag n t))
      then has (dev w (rd_history w UEINTX (h @ t)) UEINTX) (bv (next_flag n t))
      else rank (rd_history w UEINTX (h @ t)) < rank (h @ t)))"

definition control_host :: "world \<Rightarrow> history \<Rightarrow> nat \<Rightarrow> bool" where
  "control_host w h n \<longleftrightarrow> (\<exists>rank. host_ok w h n rank)"

definition attached :: "'a usb_scheme \<Rightarrow> bool" where
  "attached s \<longleftrightarrow> USB_DeviceState s \<noteq> DEVICE_STATE_Unattached \<and> USB_DeviceState s \<noteq> DEVICE_STATE_Suspended"

lemma host_okD:
  assumes "host_ok w h n rank" and "writes UENUM t = []"
  shows "irq w (h @ t) = None" and "\<not> has (dev w (h @ t) UEINTX) (bv RXSTPI)"
    and "has (dev w (h @ t) UEINTX) (bv RXOUTI) \<Longrightarrow> host_done n (packets [] t)"
    and "rank (rd_history w UEINTX (h @ t)) \<le> rank (h @ t)"
    and "has (dev w (h @ t) UEINTX) (bv (next_flag n t)) \<Longrightarrow>
      has (dev w (rd_history w UEINTX (h @ t)) UEINTX) (bv (next_flag n t))"
    and "\<not> has (dev w (h @ t) UEINTX) (bv (next_flag n t)) \<Longrightarrow> rank (rd_history w UEINTX (h @ t)) < rank (h @ t)"
proof -
  note * = assms(1) [unfolded host_ok_def, rule_format, OF assms(2)]
  show "irq w (h @ t) = None" "\<not> has (dev w (h @ t) UEINTX) (bv RXSTPI)"
    "has (dev w (h @ t) UEINTX) (bv RXOUTI) \<Longrightarrow> host_done n (packets [] t)"
    "rank (rd_history w UEINTX (h @ t)) \<le> rank (h @ t)"
    "has (dev w (h @ t) UEINTX) (bv (next_flag n t)) \<Longrightarrow>
      has (dev w (rd_history w UEINTX (h @ t)) UEINTX) (bv (next_flag n t))"
    "\<not> has (dev w (h @ t) UEINTX) (bv (next_flag n t)) \<Longrightarrow> rank (rd_history w UEINTX (h @ t)) < rank (h @ t)"
    using * by simp_all
qed

lemma host_seen:
  assumes "host_ok w h n rank" and "writes UENUM t = []" and "io s = h @ t"
  shows "seen_state w s = USB_DeviceState s"
  using host_okD(1) [OF assms(1,2)] assms(3) by (simp add: seen_state_def)

lemma host_saw:
  assumes "host_ok w h n rank" and "writes UENUM t = []" and "list_all is_read t'"
  shows "\<not> saw w (h @ t) RXSTPI t'" and "saw w (h @ t) RXOUTI t' \<Longrightarrow> host_done n (packets [] t)"
proof -
  have step: "\<not> has (dev w (h @ t @ t0) UEINTX) (bv RXSTPI) \<and>
      (has (dev w (h @ t @ t0) UEINTX) (bv RXOUTI) \<longrightarrow> host_done n (packets [] t))"
    if "t' = t0 @ [Rd UEINTX v]" for t0 v
  proof -
    have r: "list_all is_read t0" using that assms(3) by simp
    then have u: "writes UENUM (t @ t0) = []" using assms(2) by simp
    show ?thesis using host_okD(2,3) [OF assms(1) u] r by auto
  qed
  show "\<not> saw w (h @ t) RXSTPI t'" using step by (auto simp: saw_def)
  show "saw w (h @ t) RXOUTI t' \<Longrightarrow> host_done n (packets [] t)" using step unfolding saw_def by auto
qed

lemma host_closer:
  assumes ok: "host_ok w h n rank" and t: "writes UENUM t = []"
    and v: "v1 = dev w (h @ t) UEINTX" "v2 = dev w (h @ t @ [Rd UEINTX v1]) UEINTX"
      "v3 = dev w (h @ t @ [Rd UEINTX v1, Rd UEINTX v2]) UEINTX"
    and no: "\<not> has v2 (bv RXOUTI)" "\<not> has v3 (bv TXINI)"
  shows "rank (h @ t @ [Rd UEINTX v1, Rd UEINTX v2, Rd UEINTX v3]) < rank (h @ t)"
proof -
  have t2: "writes UENUM (t @ [Rd UEINTX v1]) = []" and t3: "writes UENUM (t @ [Rd UEINTX v1, Rd UEINTX v2]) = []"
    using t by simp_all
  note s1 = host_okD [OF ok t] and s2 = host_okD [OF ok t2] and s3 = host_okD [OF ok t3]
  have fl: "next_flag n (t @ [Rd UEINTX v1]) = next_flag n t" by (simp add: next_flag_def)
  have h1: "rd_history w UEINTX (h @ t) = h @ t @ [Rd UEINTX v1]"
    and h2: "rd_history w UEINTX (h @ t @ [Rd UEINTX v1]) = h @ t @ [Rd UEINTX v1, Rd UEINTX v2]"
    and h3: "rd_history w UEINTX (h @ t @ [Rd UEINTX v1, Rd UEINTX v2]) =
      h @ t @ [Rd UEINTX v1, Rd UEINTX v2, Rd UEINTX v3]"
    unfolding rd_history_def by (simp_all flip: v)
  have f1: "has v2 (bv (next_flag n t))" if "has v1 (bv (next_flag n t))" using s1(5) that h1 v by simp
  have f2: "has v3 (bv (next_flag n t))" if "has v2 (bv (next_flag n t))" using s2(5) that h2 v fl by simp
  have "\<not> has v1 (bv (next_flag n t))" using f1 f2 no by (auto simp: next_flag_def split: if_splits)
  then have "rank (h @ t @ [Rd UEINTX v1]) < rank (h @ t)" using s1(6) h1 v(1) by simp
  then show ?thesis using s2(4) s3(4) h2 h3 by simp
qed

definition W_inv where
  "W_inv w h byte s0 P = (\<lambda>(k, Length, full, s).
     \<exists>t. s = s0\<lparr>io := h @ t\<rparr> \<and> writes UENUM t = [] \<and> bank_fill [] t = [] \<and>
       P = packets [] t @ packets_left byte k Length full)"

definition W_post where
  "W_post n s0 h P r \<longleftrightarrow> (\<exists>t. r = (None :: Endpoint_ControlStream_RW_ErrorCodes option, s0\<lparr>io := h @ t\<rparr>) \<and>
     writes UENUM t = [] \<and> bank_fill [] t = [] \<and> prefix (packets [] t) P \<and> host_done n (packets [] t))"

abbreviation W_measure where
  "W_measure byte rank \<equiv> measures [\<lambda>(k, L, f, s). length (packets_left byte k L f), \<lambda>(k, L, f, s). rank (io s)]"

lemma W_inv_go:
  assumes ok: "host_ok w h n rank" and bc: "bank_counts w h"
    and inv: "W_inv w h byte s0 P (k, Length, full, s)" and turn: "Control_W_turn w byte (k, Length, full, s) = Inr x'"
  shows "W_inv w h byte s0 P x' \<and> (x', (k, Length, full, s)) \<in> W_measure byte rank"
proof -
  obtain t where s: "s = s0\<lparr>io := h @ t\<rparr>" and t: "writes UENUM t = []" "bank_fill [] t = []"
    and P: "P = packets [] t @ packets_left byte k Length full"
    using inv unfolding W_inv_def by auto
  have more: "Length \<noteq> 0 \<or> full" using turn by (cases full) (auto simp: Control_W_turn_done)
  have bcs: "bank_counts w (io s)" using bank_counts_append [OF bc t] s by simp
  have st: "s0\<lparr>io := a, USB_DeviceState := seen_state w s\<rparr> = s0\<lparr>io := a\<rparr>" for a
    using host_seen [OF ok t(1), of s] s by simp
  from turn more bcs show ?thesis
  proof (cases rule: Control_W_turn_cases)
    case (wait v1 v2 v3)
    let ?t = "t @ [Rd UEINTX v1, Rd UEINTX v2, Rd UEINTX v3]"
    have "x' = (k, Length, full, s0\<lparr>io := h @ ?t\<rparr>)" using wait(1) s st by simp
    moreover have "rank (h @ ?t) < rank (h @ t)" by (rule host_closer [OF ok t(1)]) (use wait s in simp_all)
    ultimately show ?thesis using t P s by (auto simp: W_inv_def intro!: exI [of _ ?t])
  next
    case (send t' p k' L' full')
    have "x' = (k', L', full', s0\<lparr>io := h @ (t @ t')\<rparr>)" using send(1) s st by simp
    then show ?thesis using send(2-5) t P s by (auto simp: W_inv_def intro!: exI [of _ "t @ t'"])
  qed simp
qed

lemma W_inv_stop:
  assumes ok: "host_ok w h n rank" and bc: "bank_counts w h" and att: "attached s0" and complete: "host_done n P"
    and inv: "W_inv w h byte s0 P (k, Length, full, s)" and turn: "Control_W_turn w byte (k, Length, full, s) = Inl r"
  shows "W_post n s0 h P r"
proof -
  obtain t where s: "s = s0\<lparr>io := h @ t\<rparr>" and t: "writes UENUM t = []" "bank_fill [] t = []"
    and P: "P = packets [] t @ packets_left byte k Length full"
    using inv unfolding W_inv_def by auto
  show ?thesis
  proof (cases "Length = 0 \<and> \<not> full")
    case True
    then show ?thesis using turn s t P complete
      by (auto simp: Control_W_turn_done W_post_def packets_left_def intro!: exI [of _ t])
  next
    case False
    then have more: "Length \<noteq> 0 \<or> full" by blast
    have bcs: "bank_counts w (io s)" using bank_counts_append [OF bc t] s by simp
    from turn more bcs show ?thesis
    proof (cases rule: Control_W_turn_cases)
      case (stop t' c)
      have seen: "seen_state w s = USB_DeviceState s0" using host_seen [OF ok t(1), of s] s by simp
      note saw = host_saw [OF ok t(1) stop(2)]
      have c: "c = None"
      proof (rule ccontr)
        assume "c \<noteq> None"
        then obtain code where "code \<noteq> ENDPOINT_RWCSTREAM_NoError" "code_reason w (h @ t) code t' (USB_DeviceState s0)"
          using stop(3) seen s by auto
        then show False using att saw(1) by (cases code) (auto simp: code_reason_def attached_def)
      qed
      then have "host_done n (packets [] t)" using stop(3) saw(2) s by simp
      then show ?thesis using stop(1,2) c s seen t P
        by (auto simp: W_post_def intro!: exI [of _ "t @ t'"])
    qed simp_all
  qed
qed

lemma Control_W_loop_returns:
  assumes "host_ok w h n rank" and "bank_counts w h" and "attached s0" and "host_done n P"
    and "W_inv w h byte s0 P x"
  shows "\<exists>r. Control_W_loop w byte x = Some r \<and> W_post n s0 h P r"
  unfolding Control_W_loop_def
proof (rule iterate_returns [of "W_measure byte rank" "W_inv w h byte s0 P"])
  show "W_inv w h byte s0 P y \<and> (y, x) \<in> W_measure byte rank"
    if "W_inv w h byte s0 P x" and "Some (Control_W_turn w byte x) = Some (Inr y)" for x y
    using that W_inv_go [OF assms(1,2)] by (cases x) simp
  show "W_post n s0 h P r" if "W_inv w h byte s0 P x" and "Some (Control_W_turn w byte x) = Some (Inl r)" for x r
    using that W_inv_stop [OF assms(1-4)] by (cases x) simp
qed (use assms(5) in simp_all)

lemma Control_W_status_returns:
  assumes ok: "host_ok w h n rank" and att: "attached s0" and t: "writes UENUM t = []" "host_done n (packets [] t)"
  shows "\<exists>t'. list_all is_read t' \<and> Control_W_status w (s0\<lparr>io := h @ t\<rparr>) =
    Some (ENDPOINT_RWCSTREAM_NoError, s0\<lparr>io := h @ t @ t'\<rparr>)"
proof -
  let ?I = "\<lambda>s. \<exists>t'. s = s0\<lparr>io := h @ (t @ t')\<rparr> \<and> list_all is_read t'"
  let ?Q = "\<lambda>r. \<exists>t'. r = (ENDPOINT_RWCSTREAM_NoError, s0\<lparr>io := h @ t @ t'\<rparr>) \<and> list_all is_read t'"
  have seen: "seen_state w (s0\<lparr>io := h @ t @ t'\<rparr>) = USB_DeviceState s0" if "list_all is_read t'" for t'
    using host_seen [OF ok, of "t @ t'" "s0\<lparr>io := h @ t @ t'\<rparr>"] that t by simp
  have "\<exists>r. iterate (\<lambda>s. Some (Control_W_status_turn w s)) (s0\<lparr>io := h @ t\<rparr>) = Some r \<and> ?Q r"
  proof (rule iterate_returns [of "measure (\<lambda>s. rank (io s))" ?I])
    show "?I (s0\<lparr>io := h @ t\<rparr>)" by (rule exI [of _ "[]"]) simp
  next
    fix s s'
    assume "?I s" and "Some (Control_W_status_turn w s) = Some (Inr s')"
    then obtain t' where s: "s = s0\<lparr>io := h @ (t @ t')\<rparr>" and t': "list_all is_read t'"
      and turn: "Control_W_status_turn w s = Inr s'" by blast
    have u: "writes UENUM (t @ t') = []" "writes UENUM (t @ t' @ [Rd UEINTX v]) = []" for v using t(1) t' by simp_all
    have fl: "next_flag n (t @ t') = RXOUTI" using t t' by (simp add: next_flag_def)
    from turn show "?I s' \<and> (s', s) \<in> measure (\<lambda>s. rank (io s))"
    proof (cases rule: Control_W_status_turn_cases)
      case (wait v1 v2)
      let ?t = "t' @ [Rd UEINTX v1, Rd UEINTX v2]"
      have "rank (h @ t @ t' @ [Rd UEINTX v1]) < rank (h @ t @ t')"
        using host_okD(6) [OF ok u(1)] fl wait(2,4) s by (simp add: rd_history_def)
      moreover have "rank (h @ t @ ?t) \<le> rank (h @ t @ t' @ [Rd UEINTX v1])"
        using host_okD(4) [OF ok u(2)] wait(3) s by (simp add: rd_history_def)
      moreover have "s' = s0\<lparr>io := h @ (t @ ?t)\<rparr>"
        using wait(1) seen [of "t' @ [Rd UEINTX v1]"] s t' by (simp add: rd_history_def wait(2))
      ultimately show ?thesis using s t' by (auto intro!: exI [of _ ?t])
    qed simp
  next
    fix s r
    assume "?I s" and "Some (Control_W_status_turn w s) = Some (Inl r)"
    then obtain t' where s: "s = s0\<lparr>io := h @ (t @ t')\<rparr>" and t': "list_all is_read t'"
      and turn: "Control_W_status_turn w s = Inl r" by blast
    from turn show "?Q r"
    proof (cases rule: Control_W_status_turn_cases)
      case (stop t2 st code)
      have st: "st = USB_DeviceState s0"
        using stop(4) seen [of "t' @ [Rd UEINTX (dev w (io s) UEINTX)]"] s t' by (auto simp: rd_history_def)
      have "\<not> saw w (h @ (t @ t')) RXSTPI t2" using host_saw(1) [OF ok _ stop(2), of "t @ t'"] t(1) t' by simp
      then have "code = ENDPOINT_RWCSTREAM_NoError"
        using stop(3) att st s by (cases code) (auto simp: code_reason_def attached_def)
      then show ?thesis using stop(1,2) s st t' by (auto intro!: exI [of _ "t' @ t2"])
    qed simp
  qed simp_all
  then show ?thesis by (auto simp: Control_W_status_def)
qed

lemma host_done_reply: "host_done (unat n) (control_reply byte Length n)"
proof (cases "Length > n")
  case True
  then have "concat (control_reply byte Length n) = map byte [0..<unat n]"
    by (simp add: concat_control_reply word_less_nat_alt)
  then show ?thesis by (simp add: host_done_def)
next
  case False
  then show ?thesis using control_packets_end [of "map byte [0..<unat Length]"]
    by (auto simp: host_done_def control_reply_def packets_left_def)
qed

lemma host_done_prefix:
  assumes "prefix ps (control_reply byte Length n)" and "host_done (unat n) ps"
  shows "concat ps = map byte [0..<min (unat Length) (unat n)]"
proof -
  obtain qs where P: "control_reply byte Length n = ps @ qs" using assms(1) by (auto simp: prefix_def)
  have total: "concat ps @ concat qs = map byte [0..<min (unat Length) (unat n)]"
    using concat_control_reply [of byte Length n] P by simp
  have "length (concat qs) = 0"
  proof (cases "unat n \<le> length (concat ps)")
    case True
    then show ?thesis using arg_cong [OF total, of length] unfolding length_append length_map length_upt by linarith
  next
    case False
    then have short: "ps \<noteq> []" "length (last ps) < 64" using assms(2) by (auto simp: host_done_def)
    then have "ps = control_reply byte Length n"
      using short_packet_is_last [OF _ short] assms(1)
      by (auto simp: control_reply_def packets_left_def prefix_Cons split: if_splits)
    then show ?thesis using P by simp
  qed
  then have "concat qs = []" unfolding length_0_conv .
  from total [unfolded this append_Nil2] show ?thesis .
qed

lemma Control_W_runs:
  assumes "bank_counts w (io s)" and "control_host w (io s) (unat (wLength (USB_ControlRequest s)))" and "attached s"
  shows "\<exists>t. Control_W w byte Length s = Some (ENDPOINT_RWCSTREAM_NoError, s\<lparr>io := io s @ t\<rparr>) \<and>
    writes UENUM t = [] \<and> bank_fill [] t = [] \<and>
    prefix (packets [] t) (control_reply byte Length (wLength (USB_ControlRequest s))) \<and>
    host_done (unat (wLength (USB_ControlRequest s))) (packets [] t)"
proof -
  let ?n = "wLength (USB_ControlRequest s)"
  obtain rank where ok: "host_ok w (io s) (unat ?n) rank" using assms(2) by (auto simp: control_host_def)
  obtain s1 L t where run: "Control_W w byte Length s = do {
        (r, s) \<leftarrow> Control_W_loop w byte (0, L, False, s1);
        (case r of Some code \<Rightarrow> Some (code, s) | None \<Rightarrow> Control_W_status w s) }"
    and s1: "s1 = s\<lparr>io := io s @ t\<rparr>" and t: "writes UENUM t = []" "bank_fill [] t = []"
    and P: "control_reply byte Length ?n = packets [] t @ packets_left byte 0 L False"
    by (rule Control_W_cases [OF refl])
  have "W_inv w (io s) byte s (control_reply byte Length ?n) (0, L, False, s1)"
    using s1 t P by (auto simp: W_inv_def)
  from Control_W_loop_returns [OF ok assms(1,3) host_done_reply this]
  obtain t2 where loop: "Control_W_loop w byte (0, L, False, s1) = Some (None, s\<lparr>io := io s @ t2\<rparr>)"
    and t2: "writes UENUM t2 = []" "prefix (packets [] t2) (control_reply byte Length ?n)" "host_done (unat ?n) (packets [] t2)"
    and e: "bank_fill [] t2 = []"
    unfolding W_post_def by blast
  obtain t3 where t3: "list_all is_read t3"
    "Control_W_status w (s\<lparr>io := io s @ t2\<rparr>) = Some (ENDPOINT_RWCSTREAM_NoError, s\<lparr>io := io s @ t2 @ t3\<rparr>)"
    using Control_W_status_returns [OF ok assms(3) t2(1,3)] by blast
  show ?thesis using run loop t2 t3 e by (intro exI [of _ "t2 @ t3"]) simp
qed

text \<open>C16: A host that keeps reading gets its reply: the call returns without error, nothing but the packets and
  polls of the flag register has happened, and the data of the packets is exactly the reply, cut to
  the requested length.\<close>

theorem control_write_delivers:
  assumes "bank_counts w (io s)" and "control_host w (io s) (unat (wLength (USB_ControlRequest s)))" and "attached s"
  shows "\<exists>t. Control_W w byte Length s = Some (ENDPOINT_RWCSTREAM_NoError, s\<lparr>io := io s @ t\<rparr>) \<and>
    writes UENUM t = [] \<and> prefix (packets [] t) (control_reply byte Length (wLength (USB_ControlRequest s))) \<and>
    concat (packets [] t) = map byte [0..<min (unat Length) (unat (wLength (USB_ControlRequest s)))]"
  using Control_W_runs [OF assms, of byte Length] host_done_prefix by blast

subsection \<open>A prompt host\<close>

text \<open>A host that takes every packet at once and sends the status packet as soon as it is done; it asks for
  \<open>n\<close> bytes after the history \<open>h0\<close>.\<close>

definition prompt_host :: "history \<Rightarrow> nat \<Rightarrow> world" where
  "prompt_host h0 n =
     \<lparr>dev = (\<lambda>h r. let t = drop (length h0) h in
        if r = UEINTX then (if host_done n (packets [] t) then bv TXINI OR bv RXOUTI else bv TXINI)
        else if r = UEBCLX then of_nat (length (bank_fill [] t)) else 0),
      irq = (\<lambda>h. None), sig_row = (\<lambda>a. 0)\<rparr>"

lemma prompt_host_counts: "bank_counts (prompt_host h0 n) h0"
  by (simp add: bank_counts_def prompt_host_def)

lemma prompt_host_flags:
  "has (bv TXINI) (bv TXINI)" "\<not> has (bv TXINI) (bv RXOUTI)" "\<not> has (bv TXINI) (bv RXSTPI)"
  "has (bv TXINI OR bv RXOUTI) (bv TXINI)" "has (bv TXINI OR bv RXOUTI) (bv RXOUTI)"
  "\<not> has (bv TXINI OR bv RXOUTI) (bv RXSTPI)"
  by (simp_all add: has_def bv_def)

lemma prompt_host_ok: "control_host (prompt_host h0 n) h0 n"
  unfolding control_host_def host_ok_def
  by (rule exI [of _ "\<lambda>h. 0"])
    (simp add: prompt_host_def rd_history_def next_flag_def prompt_host_flags)

text \<open>The state after power-up, attached to the bus, with a request for \<open>n\<close> bytes.\<close>

definition asked :: "u16 \<Rightarrow> usb" where
  "asked n = usb_init\<lparr>USB_DeviceState := DEVICE_STATE_Default,
     USB_ControlRequest := \<lparr>bmRequestType = 0x80, bRequest = 6, wValue = 0x0100, wIndex = 0, wLength = n\<rparr>\<rparr>"

lemma asked_simps [simp]:
  "io (asked n) = []" "wLength (USB_ControlRequest (asked n)) = n" "attached (asked n)"
  by (simp_all add: asked_def usb_init_def attached_def)

theorem control_write_sound_witness:
  "\<exists>t st s'. Control_W (prompt_host [] 64) (\<lambda>k. 7) 100 (asked 64) = Some (ENDPOINT_RWCSTREAM_NoError, s') \<and>
     s' = (asked 64)\<lparr>io := t, USB_DeviceState := st\<rparr> \<and> saw (prompt_host [] 64) [] RXOUTI t"
proof -
  obtain s' where "Control_W (prompt_host [] 64) (\<lambda>k. 7) 100 (asked 64) = Some (ENDPOINT_RWCSTREAM_NoError, s')"
    using Control_W_runs [of "prompt_host [] 64" "asked 64" "\<lambda>k. 7" 100] prompt_host_counts [of "[]"] prompt_host_ok [of "[]"] by auto
  with control_write_sound [OF _ this] prompt_host_counts [of "[]" 64] show ?thesis
    by (auto simp: code_reason_def)
qed

theorem control_write_delivers_witness:
  "\<exists>t. Control_W (prompt_host [] 64) (\<lambda>k. 7) 100 (asked 64) =
      Some (ENDPOINT_RWCSTREAM_NoError, (asked 64)\<lparr>io := t\<rparr>) \<and> concat (packets [] t) = replicate 64 7"
  using control_write_delivers [of "prompt_host [] 64" "asked 64" "\<lambda>k. 7" 100]
    prompt_host_counts [of "[]" 64] prompt_host_ok [of "[]" 64]
  by (auto simp: map_replicate_const)

end
