(* ===== verification/DeviceStandardReq.thy ===== *)
theory DeviceStandardReq
  imports ControlTransfer
begin

text \<open>
  The standard control requests (\<^verbatim>\<open>Core/DeviceStandardReq.c\<close>), the signature row serial number
  (\<^verbatim>\<open>Core/AVR8/Device_AVR8.h\<close>) and the management task (\<^verbatim>\<open>Core/USBTask.c\<close>). The library calls back into the
  application: the descriptor callback is the one of theory \<open>Descriptors\<close>, and the two events the task fires
  are a record \<open>usb_events\<close> that theory \<open>Joystick\<close> fills in. A handler that may wait for the host forever
  returns an option.
\<close>

subsection \<open>Requests\<close>

definition REQDIR_HOSTTODEVICE :: u8 where "REQDIR_HOSTTODEVICE = 0"
definition REQTYPE_STANDARD :: u8 where "REQTYPE_STANDARD = 0"
definition REQTYPE_CLASS :: u8 where "REQTYPE_CLASS = 0x20"
definition REQREC_DEVICE :: u8 where "REQREC_DEVICE = 0"
definition REQREC_INTERFACE :: u8 where "REQREC_INTERFACE = 1"
definition REQREC_ENDPOINT :: u8 where "REQREC_ENDPOINT = 2"
definition CONTROL_REQTYPE_RECIPIENT :: u8 where "CONTROL_REQTYPE_RECIPIENT = 0x1F"

definition REQ_GetStatus :: u8 where "REQ_GetStatus = 0"
definition REQ_ClearFeature :: u8 where "REQ_ClearFeature = 1"
definition REQ_SetFeature :: u8 where "REQ_SetFeature = 3"
definition REQ_SetAddress :: u8 where "REQ_SetAddress = 5"
definition REQ_GetDescriptor :: u8 where "REQ_GetDescriptor = 6"
definition REQ_GetConfiguration :: u8 where "REQ_GetConfiguration = 8"
definition REQ_SetConfiguration :: u8 where "REQ_SetConfiguration = 9"

definition FEATURE_SEL_EndpointHalt :: u8 where "FEATURE_SEL_EndpointHalt = 0"
definition FEATURE_SEL_DeviceRemoteWakeup :: u8 where "FEATURE_SEL_DeviceRemoteWakeup = 1"
definition FEATURE_SELFPOWERED_ENABLED :: u8 where "FEATURE_SELFPOWERED_ENABLED = bv 0"
definition FEATURE_REMOTE_WAKEUP_ENABLED :: u8 where "FEATURE_REMOTE_WAKEUP_ENABLED = bv 1"

lemmas request_defs = REQDIR_HOSTTODEVICE_def REQDIR_DEVICETOHOST_def REQTYPE_STANDARD_def REQTYPE_CLASS_def
  REQREC_DEVICE_def REQREC_INTERFACE_def REQREC_ENDPOINT_def CONTROL_REQTYPE_RECIPIENT_def
  REQ_GetStatus_def REQ_ClearFeature_def REQ_SetFeature_def REQ_SetAddress_def REQ_GetDescriptor_def
  REQ_GetConfiguration_def REQ_SetConfiguration_def

text \<open>The events of the application that the management task fires.\<close>

record 's usb_events =
  ControlRequest_event :: "world \<Rightarrow> 's \<Rightarrow> 's option"
  ConfigurationChanged_event :: "world \<Rightarrow> 's \<Rightarrow> 's option"

subsection \<open>Handlers\<close>

text \<open>\<^verbatim>\<open>while (!(Endpoint_IsINReady()));\<close>\<close>

definition spin_INReady :: "world \<Rightarrow> 'a usb_scheme \<Rightarrow> 'a usb_scheme option" where
  "spin_INReady w = iterate (\<lambda>s. let (b, s) = Endpoint_IsINReady w s in Some (if b then Inl s else Inr s))"

definition USB_Device_SetAddress :: "world \<Rightarrow> 'a usb_scheme \<Rightarrow> 'a usb_scheme option" where
  "USB_Device_SetAddress w s =
     (let DeviceAddress = lo8 (wValue (USB_ControlRequest s) AND 0x7F);
          s = USB_Device_SetDeviceAddress w DeviceAddress s;
          s = Endpoint_ClearSETUP w s
      in do {
        s \<leftarrow> Endpoint_ClearStatusStage w s;
        s \<leftarrow> spin_INReady w s;
        let s = USB_Device_EnableDeviceAddress w DeviceAddress s;
        Some (s\<lparr>USB_DeviceState := if DeviceAddress \<noteq> 0 then DEVICE_STATE_Addressed else DEVICE_STATE_Default\<rparr>)
      })"

definition USB_Device_SetConfiguration :: "world \<Rightarrow> 'a usb_scheme usb_events \<Rightarrow> 'a usb_scheme \<Rightarrow> 'a usb_scheme option" where
  "USB_Device_SetConfiguration w app s =
     (if lo8 (wValue (USB_ControlRequest s)) > FIXED_NUM_CONFIGURATIONS then Some s
      else
        let s = Endpoint_ClearSETUP w s;
            s = s\<lparr>USB_Device_ConfigurationNumber := lo8 (wValue (USB_ControlRequest s))\<rparr>
        in do {
          s \<leftarrow> Endpoint_ClearStatusStage w s;
          let s = (if USB_Device_ConfigurationNumber s \<noteq> 0 then s\<lparr>USB_DeviceState := DEVICE_STATE_Configured\<rparr>
                   else let (b, s) = USB_Device_IsAddressSet w s
                        in s\<lparr>USB_DeviceState := if b then DEVICE_STATE_Configured else DEVICE_STATE_Powered\<rparr>);
          ConfigurationChanged_event app w s
        })"

definition USB_Device_GetConfiguration :: "world \<Rightarrow> 'a usb_scheme \<Rightarrow> 'a usb_scheme option" where
  "USB_Device_GetConfiguration w s =
     (let s = Endpoint_ClearSETUP w s;
          s = Endpoint_Write_8 (USB_Device_ConfigurationNumber s) s;
          s = Endpoint_ClearIN w s
      in Endpoint_ClearStatusStage w s)"

subsection \<open>The serial number string\<close>

definition INTERNAL_SERIAL_LENGTH_BITS :: nat where "INTERNAL_SERIAL_LENGTH_BITS = 80"
definition INTERNAL_SERIAL_START_ADDRESS :: u8 where "INTERNAL_SERIAL_START_ADDRESS = 0x0E"
definition USE_INTERNAL_SERIAL :: u8 where "USE_INTERNAL_SERIAL = 0xDC"

text \<open>The loop of \<^verbatim>\<open>USB_Device_GetSerialString\<close>: \<open>n\<close> more characters, from character \<open>SerialCharNum\<close> on.\<close>

fun serial_loop :: "(u8 \<Rightarrow> u8) \<Rightarrow> nat \<Rightarrow> nat \<Rightarrow> u8 \<Rightarrow> u16 list" where
  "serial_loop sig 0 SerialCharNum SigReadAddress = []"
| "serial_loop sig (Suc n) SerialCharNum SigReadAddress =
     (let SerialByte = sig SigReadAddress;
          (SerialByte, SigReadAddress) =
            (if odd SerialCharNum then (drop_bit 4 SerialByte, SigReadAddress + 1) else (SerialByte, SigReadAddress));
          SerialByte = SerialByte AND 0x0F
      in (if SerialByte \<ge> 10 then (0x41 - 10) + ucast SerialByte else 0x30 + ucast SerialByte) #
         serial_loop sig n (SerialCharNum + 1) SigReadAddress)"

definition USB_Device_GetSerialString :: "world \<Rightarrow> u16 list" where
  "USB_Device_GetSerialString w =
     serial_loop (sig_row w) (INTERNAL_SERIAL_LENGTH_BITS div 4) 0 INTERNAL_SERIAL_START_ADDRESS"

definition SignatureDescriptor :: "world \<Rightarrow> u8 list" where
  "SignatureDescriptor w =
     bytes_of_Header \<lparr>Size = 2 + of_nat (INTERNAL_SERIAL_LENGTH_BITS div 4) * 2, Type = DTYPE_String\<rparr> @
     concat (map le16 (USB_Device_GetSerialString w))"

text \<open>A byte list as memory, seen from the address of its first byte.\<close>

definition object_mem :: "u8 list \<Rightarrow> mem" where
  "object_mem bs a = bs ! unat a"

definition USB_Device_GetInternalSerialDescriptor :: "world \<Rightarrow> 'a usb_scheme \<Rightarrow> 'a usb_scheme option" where
  "USB_Device_GetInternalSerialDescriptor w s =
     do {
       (_, s) \<leftarrow> Endpoint_Write_Control_Stream_LE w (object_mem (SignatureDescriptor w)) 0
                  (of_nat (length (SignatureDescriptor w))) (Endpoint_ClearSETUP w s);
       Some (Endpoint_ClearOUT w s)
     }"

definition USB_Device_GetDescriptor :: "world \<Rightarrow> 'a usb_scheme \<Rightarrow> 'a usb_scheme option" where
  "USB_Device_GetDescriptor w s =
     (if wValue (USB_ControlRequest s) = join16 DTYPE_String USE_INTERNAL_SERIAL
      then USB_Device_GetInternalSerialDescriptor w s
      else
        let (DescriptorSize, DescriptorPointer) =
              CALLBACK_USB_GetDescriptor (wValue (USB_ControlRequest s)) (wIndex (USB_ControlRequest s))
        in if DescriptorSize = ucast NO_DESCRIPTOR then Some s
           else do {
             (_, s) \<leftarrow> Endpoint_Write_Control_PStream_LE w (object_mem (flash_at DescriptorPointer)) 0
                        DescriptorSize (Endpoint_ClearSETUP w s);
             Some (Endpoint_ClearOUT w s)
           })"

subsection \<open>Status and features\<close>

definition USB_Device_GetStatus :: "world \<Rightarrow> 'a usb_scheme \<Rightarrow> 'a usb_scheme option" where
  "USB_Device_GetStatus w s =
     (let bmRequestType = bmRequestType (USB_ControlRequest s);
          reply = (\<lambda>(CurrentStatus :: u8) s.
            let s = Endpoint_ClearSETUP w s;
                s = Endpoint_Write_16_LE (ucast CurrentStatus) s;
                s = Endpoint_ClearIN w s
            in Endpoint_ClearStatusStage w s)
      in
        if bmRequestType = REQDIR_DEVICETOHOST OR REQTYPE_STANDARD OR REQREC_DEVICE then
          reply ((if USB_Device_CurrentlySelfPowered s then FEATURE_SELFPOWERED_ENABLED else 0) OR
                 (if USB_Device_RemoteWakeupEnabled s then FEATURE_REMOTE_WAKEUP_ENABLED else 0)) s
        else if bmRequestType = REQDIR_DEVICETOHOST OR REQTYPE_STANDARD OR REQREC_ENDPOINT then
          let EndpointIndex = lo8 (wIndex (USB_ControlRequest s)) AND ENDPOINT_EPNUM_MASK in
          if unat EndpointIndex \<ge> ENDPOINT_TOTAL_ENDPOINTS then Some s
          else
            let s = Endpoint_SelectEndpoint EndpointIndex s;
                (b, s) = Endpoint_IsStalled w s;
                s = Endpoint_SelectEndpoint ENDPOINT_CONTROLEP s
            in reply (if b then 1 else 0) s
        else Some s)"

definition USB_Device_ClearSetFeature :: "world \<Rightarrow> 'a usb_scheme \<Rightarrow> 'a usb_scheme option" where
  "USB_Device_ClearSetFeature w s =
     (let req = USB_ControlRequest s;
          recipient = bmRequestType req AND CONTROL_REQTYPE_RECIPIENT;
          acknowledge = (\<lambda>s.
            let s = Endpoint_SelectEndpoint ENDPOINT_CONTROLEP s;
                s = Endpoint_ClearSETUP w s
            in Endpoint_ClearStatusStage w s)
      in
        if recipient = REQREC_DEVICE then
          if lo8 (wValue req) = FEATURE_SEL_DeviceRemoteWakeup
          then acknowledge (s\<lparr>USB_Device_RemoteWakeupEnabled := bRequest req = REQ_SetFeature\<rparr>)
          else Some s
        else if recipient = REQREC_ENDPOINT then
          if lo8 (wValue req) = FEATURE_SEL_EndpointHalt then
            let EndpointIndex = lo8 (wIndex req) AND ENDPOINT_EPNUM_MASK in
            if EndpointIndex = ENDPOINT_CONTROLEP \<or> unat EndpointIndex \<ge> ENDPOINT_TOTAL_ENDPOINTS then Some s
            else
              let s = Endpoint_SelectEndpoint EndpointIndex s;
                  (enabled, s) = Endpoint_IsEnabled w s
              in acknowledge
                   (if \<not> enabled then s
                    else if bRequest req = REQ_SetFeature then Endpoint_StallTransaction w s
                    else Endpoint_ResetDataToggle w (Endpoint_ResetEndpoint EndpointIndex (Endpoint_ClearStall w s)))
          else acknowledge s
        else Some s)"

subsection \<open>Dispatch\<close>

text \<open>The loop that reads the request header byte by byte, and the bytes as the structure.\<close>

fun header_loop :: "world \<Rightarrow> nat \<Rightarrow> 'a usb_scheme \<Rightarrow> u8 list \<times> 'a usb_scheme" where
  "header_loop w 0 s = ([], s)"
| "header_loop w (Suc n) s =
     (let (b, s) = Endpoint_Read_8 w s; (bs, s) = header_loop w n s in (b # bs, s))"

definition header_of_bytes :: "u8 list \<Rightarrow> USB_Request_Header_t" where
  "header_of_bytes bs =
     \<lparr>bmRequestType = bs ! 0, bRequest = bs ! 1, wValue = join16 (bs ! 3) (bs ! 2),
      wIndex = join16 (bs ! 5) (bs ! 4), wLength = join16 (bs ! 7) (bs ! 6)\<rparr>"

definition standard_request :: "world \<Rightarrow> 'a usb_scheme usb_events \<Rightarrow> 'a usb_scheme \<Rightarrow> 'a usb_scheme option" where
  "standard_request w app s =
     (let bmRequestType = bmRequestType (USB_ControlRequest s);
          bRequest = bRequest (USB_ControlRequest s)
      in
        if bRequest = REQ_GetStatus then
          if bmRequestType = REQDIR_DEVICETOHOST OR REQTYPE_STANDARD OR REQREC_DEVICE \<or>
             bmRequestType = REQDIR_DEVICETOHOST OR REQTYPE_STANDARD OR REQREC_ENDPOINT
          then USB_Device_GetStatus w s else Some s
        else if bRequest = REQ_ClearFeature \<or> bRequest = REQ_SetFeature then
          if bmRequestType = REQDIR_HOSTTODEVICE OR REQTYPE_STANDARD OR REQREC_DEVICE \<or>
             bmRequestType = REQDIR_HOSTTODEVICE OR REQTYPE_STANDARD OR REQREC_ENDPOINT
          then USB_Device_ClearSetFeature w s else Some s
        else if bRequest = REQ_SetAddress then
          if bmRequestType = REQDIR_HOSTTODEVICE OR REQTYPE_STANDARD OR REQREC_DEVICE
          then USB_Device_SetAddress w s else Some s
        else if bRequest = REQ_GetDescriptor then
          if bmRequestType = REQDIR_DEVICETOHOST OR REQTYPE_STANDARD OR REQREC_DEVICE \<or>
             bmRequestType = REQDIR_DEVICETOHOST OR REQTYPE_STANDARD OR REQREC_INTERFACE
          then USB_Device_GetDescriptor w s else Some s
        else if bRequest = REQ_GetConfiguration then
          if bmRequestType = REQDIR_DEVICETOHOST OR REQTYPE_STANDARD OR REQREC_DEVICE
          then USB_Device_GetConfiguration w s else Some s
        else if bRequest = REQ_SetConfiguration then
          if bmRequestType = REQDIR_HOSTTODEVICE OR REQTYPE_STANDARD OR REQREC_DEVICE
          then USB_Device_SetConfiguration w app s else Some s
        else Some s)"

definition USB_Device_ProcessControlRequest ::
  "world \<Rightarrow> 'a usb_scheme usb_events \<Rightarrow> 'a usb_scheme \<Rightarrow> 'a usb_scheme option" where
  "USB_Device_ProcessControlRequest w app s =
     (let (RequestHeader, s) = header_loop w 8 s;
          s = s\<lparr>USB_ControlRequest := header_of_bytes RequestHeader\<rparr>
      in do {
        s \<leftarrow> ControlRequest_event app w s;
        let (setup, s) = Endpoint_IsSETUPReceived w s;
        s \<leftarrow> (if setup then standard_request w app s else Some s);
        let (setup, s) = Endpoint_IsSETUPReceived w s;
        Some (if setup then Endpoint_StallTransaction w (Endpoint_ClearSETUP w s) else s)
      })"

definition USB_DeviceTask :: "world \<Rightarrow> 'a usb_scheme usb_events \<Rightarrow> 'a usb_scheme \<Rightarrow> 'a usb_scheme option" where
  "USB_DeviceTask w app s =
     (let (st, s) = get_DeviceState w s in
      if st = DEVICE_STATE_Unattached then Some s
      else
        let (PrevEndpoint, s) = Endpoint_GetCurrentEndpoint w s;
            s = Endpoint_SelectEndpoint ENDPOINT_CONTROLEP s;
            (setup, s) = Endpoint_IsSETUPReceived w s
        in do {
          s \<leftarrow> (if setup then USB_Device_ProcessControlRequest w app s else Some s);
          Some (Endpoint_SelectEndpoint PrevEndpoint s)
        })"

definition USB_USBTask :: "world \<Rightarrow> 'a usb_scheme usb_events \<Rightarrow> 'a usb_scheme \<Rightarrow> 'a usb_scheme option" where
  "USB_USBTask w app s = USB_DeviceTask w app s"

subsection \<open>Waiting for a flag\<close>

text \<open>The polls of \<^verbatim>\<open>UEINTX\<close> in a waiting loop: \<open>flag_polls w h t\<close> says that \<open>t\<close> consists of them.\<close>

definition wait_flag :: "nat \<Rightarrow> world \<Rightarrow> 'a usb_scheme \<Rightarrow> (bool \<times> 'a usb_scheme) option" where
  "wait_flag b w = iterate (\<lambda>s.
     let (x, s) = test_mask w UEINTX (bv b) s in
     if x then Some (Inl (True, s))
     else let (st, s) = get_DeviceState w s in
       Some (if st = DEVICE_STATE_Unattached then Inl (False, s) else Inr s))"

lemma wait_flag_eqs: "wait_OUT_or_unattached = wait_flag RXOUTI" "wait_IN_or_unattached = wait_flag TXINI"
  by (intro ext, simp add: wait_flag_def wait_OUT_or_unattached_def wait_IN_or_unattached_def endpoint_defs)+

lemma wait_flag_sound:
  assumes "wait_flag b w s = Some (got, s')"
  shows "\<exists>t st. s' = s\<lparr>io := io s @ t, USB_DeviceState := st\<rparr> \<and> list_all is_read t \<and>
    (if got then saw w (io s) b t else st = DEVICE_STATE_Unattached)"
  using assms unfolding wait_flag_def
proof (induction s "(got, s')" rule: iterate_induct)
  case (stop s)
  let ?v = "dev w (io s) UEINTX"
  from stop have "if has ?v (bv b) then got \<and> s' = s\<lparr>io := io s @ [Rd UEINTX ?v]\<rparr>
      else \<not> got \<and> (\<exists>st. st = DEVICE_STATE_Unattached \<and> s' = s\<lparr>io := io s @ [Rd UEINTX ?v], USB_DeviceState := st\<rparr>)"
    by (auto simp: io_simps get_DeviceState_eq upd_order split: if_splits)
  then show ?case
    by (intro exI [of _ "[Rd UEINTX ?v]"] exI [of _ "USB_DeviceState s'"]) (auto simp: saw_def split: if_splits)
next
  case (go s s1)
  let ?v = "dev w (io s) UEINTX"
  from go(1) obtain st1 where s1: "s1 = s\<lparr>io := io s @ [Rd UEINTX ?v], USB_DeviceState := st1\<rparr>"
    by (auto simp: io_simps get_DeviceState_eq upd_order split: if_splits)
  from go(2) obtain t st where "s' = s1\<lparr>io := io s1 @ t, USB_DeviceState := st\<rparr>" "list_all is_read t"
    "if got then saw w (io s1) b t else st = DEVICE_STATE_Unattached" by blast
  then show ?case
    using saw_append [of w "io s" "[Rd UEINTX ?v]" b t]
    by (intro exI [of _ "[Rd UEINTX ?v] @ t"] exI [of _ st]) (auto simp: s1 split: if_splits)
qed

text \<open>A host that lets the flag come: however long the flag is polled, it is set at some poll. With an
  attached device, the loop then ends with the flag.\<close>

definition flag_comes :: "world \<Rightarrow> nat \<Rightarrow> bool" where
  "flag_comes w b \<longleftrightarrow> (\<forall>h. irq w h = None \<and> (\<exists>k. has (dev w ((rd_history w UEINTX ^^ k) h) UEINTX) (bv b)))"

lemma wait_flag_go:
  assumes "irq w (rd_history w UEINTX (io s)) = None" and "USB_DeviceState s \<noteq> DEVICE_STATE_Unattached"
    and "\<not> has (dev w (io s) UEINTX) (bv b)"
  shows "wait_flag b w s = wait_flag b w (s\<lparr>io := rd_history w UEINTX (io s)\<rparr>)"
  unfolding wait_flag_def using assms
  by (intro iterate_go) (simp add: io_simps get_DeviceState_def rd_history_def)

lemma wait_flag_returns:
  assumes "flag_comes w b" and "USB_DeviceState s \<noteq> DEVICE_STATE_Unattached"
  shows "\<exists>t. wait_flag b w s = Some (True, s\<lparr>io := io s @ t\<rparr>) \<and> list_all is_read t \<and> saw w (io s) b t"
proof -
  obtain k where "has (dev w ((rd_history w UEINTX ^^ k) (io s)) UEINTX) (bv b)"
    using assms(1) unfolding flag_comes_def by blast
  then have "\<exists>got s'. wait_flag b w s = Some (got, s') \<and> USB_DeviceState s' = USB_DeviceState s" using assms(2)
  proof (induction k arbitrary: s)
    case 0
    then show ?case unfolding wait_flag_def by (subst iterate_stop) (auto simp: io_simps)
  next
    case (Suc k)
    show ?case
    proof (cases "has (dev w (io s) UEINTX) (bv b)")
      case True
      then show ?thesis unfolding wait_flag_def by (subst iterate_stop) (auto simp: io_simps)
    next
      case False
      have "irq w (rd_history w UEINTX (io s)) = None" using assms(1) by (simp add: flag_comes_def)
      from wait_flag_go [OF this Suc.prems(2) False] show ?thesis
        using Suc.IH [of "s\<lparr>io := rd_history w UEINTX (io s)\<rparr>"] Suc.prems by (simp add: funpow_Suc_right del: funpow.simps)
    qed
  qed
  then obtain got s' where r: "wait_flag b w s = Some (got, s')" "USB_DeviceState s' = USB_DeviceState s" by blast
  from wait_flag_sound [OF r(1)] obtain t st where t: "s' = s\<lparr>io := io s @ t, USB_DeviceState := st\<rparr>" "list_all is_read t"
    "if got then saw w (io s) b t else st = DEVICE_STATE_Unattached" by blast
  then show ?thesis using r assms(2) by (intro exI [of _ t]) (auto split: if_splits)
qed

subsection \<open>Which registers the handlers write\<close>

lemma touches_reads:
  assumes "s' = s\<lparr>io := io s @ t, USB_DeviceState := st\<rparr>" and "list_all is_read t"
  shows "touches W s s'"
  unfolding touches_def using assms by (intro exI [of _ t] exI [of _ st]) (auto simp: list_all_iff)

lemma touches_wait_flag: "wait_flag b w s = Some (got, s') \<Longrightarrow> touches W s s'"
  using wait_flag_sound touches_reads by blast

lemma touches_IsINReady: "Endpoint_IsINReady w s = (b, s') \<Longrightarrow> touches W s s'"
  by (auto simp: Endpoint_IsINReady_def intro: touches_test_mask)

lemma touches_spin_INReady: "spin_INReady w s = Some s' \<Longrightarrow> touches W s s'"
  unfolding spin_INReady_def
proof (induction rule: iterate_induct)
  case (stop s r)
  then show ?case by (auto split: prod.splits if_splits intro: touches_IsINReady)
next
  case (go s s1 r)
  then show ?case by (auto split: prod.splits if_splits intro: touches_IsINReady touches_trans)
qed

lemma touches_flags:
  assumes "UEINTX \<in> W"
  shows "touches W s (Endpoint_ClearSETUP w s)" and "touches W s (Endpoint_ClearIN w s)" and "touches W s (Endpoint_ClearOUT w s)"
  using assms by (simp_all add: endpoint_defs touches_clear_mask)

lemma touches_ClearStatusStage:
  assumes "Endpoint_ClearStatusStage w s = Some s'" and "UEINTX \<in> W"
  shows "touches W s s'"
  using assms
  by (auto simp: Endpoint_ClearStatusStage_def wait_flag_eqs split: bind_splits if_splits
      intro: touches_wait_flag touches_trans [OF touches_wait_flag touches_flags(2)] touches_trans [OF touches_wait_flag touches_flags(3)])

lemma touches_fill_bank:
  assumes "UEDATX \<in> W"
  shows "fill_bank byte k L n s = (k', L', n', s') \<Longrightarrow> touches W s s'"
proof (induction byte k L n s rule: fill_bank.induct)
  case (1 byte k L n s)
  have "touches W s (Endpoint_Write_8 (byte k) s)" using assms by (simp add: endpoint_defs touches_wr)
  then show ?case using 1 by (subst (asm) (2) fill_bank.simps) (auto split: if_splits intro: touches_trans touches_refl)
qed

lemma touches_poll:
  "Endpoint_IsSETUPReceived w s = (b, s') \<Longrightarrow> touches W s s'" "Endpoint_IsOUTReceived w s = (b, s') \<Longrightarrow> touches W s s'"
  "Endpoint_BytesInEndpoint w s = (n, s') \<Longrightarrow> touches W s s'"
  by (auto simp: endpoint_defs touches_test_mask dest: touches_rd split: prod.splits)

text \<open>A result that carries a state, and the rules for the operations a turn of a control loop is made of.\<close>

definition leads :: "reg set \<Rightarrow> 'a usb_scheme \<Rightarrow> ('y \<Rightarrow> 'a usb_scheme) \<Rightarrow> 'y \<Rightarrow> bool" where
  "leads W s st y \<longleftrightarrow> touches W s (st y)"

lemma leads_let:
  assumes "\<And>b s'. f s = (b, s') \<Longrightarrow> touches W s s'" and "\<And>b s'. leads W s' st (g b s')"
  shows "leads W s st (let (b, s') = f s in g b s')"
  using assms unfolding leads_def by (auto split: prod.splits intro: touches_trans)

lemma leads_if: "(b \<Longrightarrow> leads W s st x) \<Longrightarrow> (\<not> b \<Longrightarrow> leads W s st y) \<Longrightarrow> leads W s st (if b then x else y)"
  by simp

lemma leads_refl: "st y = s \<Longrightarrow> leads W s st y"
  by (simp add: leads_def touches_refl)

definition W_turn_state :: "('c \<times> 'a usb_scheme) + 'k \<times> 'l \<times> 'f \<times> 'a usb_scheme \<Rightarrow> 'a usb_scheme" where
  "W_turn_state y = (case y of Inl (c, s) \<Rightarrow> s | Inr (k, l, f, s) \<Rightarrow> s)"

lemma leads_Control_W_turn:
  assumes "UEDATX \<in> W" and "UEINTX \<in> W"
  shows "leads W s W_turn_state (Control_W_turn w byte (k, L, full, s))"
proof -
  have packet: "leads W s W_turn_state (let (n, s) = Endpoint_BytesInEndpoint w s; (k, Length, n, s) = fill_bank byte k L n s
      in Inr (k, Length, n = ucast FIXED_CONTROL_ENDPOINT_SIZE, Endpoint_ClearIN w s))" for s
  proof (rule leads_let [OF touches_poll(3)])
    fix n s'
    obtain k' L' n' s2 where f: "fill_bank byte k L n s' = (k', L', n', s2)" by (cases "fill_bank byte k L n s'")
    show "leads W s' W_turn_state (let (k, Length, n, s) = fill_bank byte k L n s'
        in Inr (k, Length, n = ucast FIXED_CONTROL_ENDPOINT_SIZE, Endpoint_ClearIN w s))"
      using touches_trans [OF touches_fill_bank [OF assms(1) f] touches_flags(2) [OF assms(2)]]
      by (simp add: f leads_def W_turn_state_def)
  qed
  show ?thesis unfolding Control_W_turn_def case_prod_conv
    by (rule leads_if leads_let [OF touches_get_DeviceState] leads_let [OF touches_poll(1)] leads_let [OF touches_poll(2)]
        leads_let [OF touches_IsINReady] packet | simp add: leads_refl W_turn_state_def)+
qed

lemma touches_Control_W_loop:
  assumes "Control_W_loop w byte x = Some r" and "UEDATX \<in> W" and "UEINTX \<in> W"
  shows "touches W (snd (snd (snd x))) (snd r)"
  using assms(1) unfolding Control_W_loop_def
proof (induction rule: iterate_induct)
  case (stop x r)
  obtain k L full s where x: "x = (k, L, full, s)" by (cases x)
  show ?case using stop leads_Control_W_turn [OF assms(2,3), of s w byte k L full]
    by (simp add: x leads_def W_turn_state_def split: prod.splits)
next
  case (go x x' r)
  obtain k L full s where x: "x = (k, L, full, s)" by (cases x)
  show ?case using go leads_Control_W_turn [OF assms(2,3), of s w byte k L full]
    by (cases x') (auto simp: x leads_def W_turn_state_def intro: touches_trans)
qed

lemma touches_Control_W_status: "Control_W_status w s = Some (code, s') \<Longrightarrow> touches W s s'"
  using Control_W_status_sound [of w s "(code, s')"] by (auto intro: touches_reads [OF refl])

lemma touches_Control_W:
  assumes "Control_W w byte Length s = Some (code, s')" and "UEDATX \<in> W" and "UEINTX \<in> W"
  shows "touches W s s'"
proof -
  define s0 where "s0 = (if Length > wLength (USB_ControlRequest s) then s else if Length = 0 then Endpoint_ClearIN w s else s)"
  have s0: "touches W s s0" unfolding s0_def using assms(3) by (simp add: touches_refl touches_flags)
  obtain L where "do { (r, s) \<leftarrow> Control_W_loop w byte (0, L, False, s0);
       (case r of Some code \<Rightarrow> Some (code, s) | None \<Rightarrow> Control_W_status w s) } = Some (code, s')"
    using assms(1) by (auto simp: Control_W_def s0_def split: if_splits)
  then obtain r s1 where s1: "Control_W_loop w byte (0, L, False, s0) = Some (r, s1)"
    and r: "(case r of Some code \<Rightarrow> Some (code, s1) | None \<Rightarrow> Control_W_status w s1) = Some (code, s')"
    by (auto split: bind_splits)
  have "touches W s0 s1" using touches_Control_W_loop [OF s1 assms(2,3)] by simp
  moreover have "touches W s1 s'" using r by (auto split: option.splits intro: touches_Control_W_status touches_refl)
  ultimately show ?thesis using s0 by (blast intro: touches_trans)
qed

subsection \<open>The management task stays on the control endpoint\<close>

text \<open>\<open>data_ep0 s s'\<close>: between \<open>s\<close> and \<open>s'\<close>, started with the control endpoint selected, data bytes were written to the
  control endpoint only, and the globals of the application did not change. \<open>stays_ep0\<close> says in addition that
  the control endpoint is selected at the end.\<close>

definition data_ep0 :: "'a usb_scheme \<Rightarrow> 'a usb_scheme \<Rightarrow> bool" where
  "data_ep0 s s' \<longleftrightarrow> usb.more s' = usb.more s \<and>
     (\<exists>t. io s' = io s @ t \<and> (\<forall>(e, r, v) \<in> set (ep_writes 0 t). r = UEDATX \<longrightarrow> e = 0))"

definition stays_ep0 :: "'a usb_scheme \<Rightarrow> 'a usb_scheme \<Rightarrow> bool" where
  "stays_ep0 s s' \<longleftrightarrow> usb.more s' = usb.more s \<and>
     (\<exists>t. io s' = io s @ t \<and> ep_sel 0 t = 0 \<and> (\<forall>(e, r, v) \<in> set (ep_writes 0 t). r = UEDATX \<longrightarrow> e = 0))"

definition no_data :: "'a usb_scheme \<Rightarrow> 'a usb_scheme \<Rightarrow> bool" where
  "no_data s s' \<longleftrightarrow> usb.more s' = usb.more s \<and> (\<exists>t. io s' = io s @ t \<and> (\<forall>v. Wr UEDATX v \<notin> set t))"

lemma stays_data: "stays_ep0 s s' \<Longrightarrow> data_ep0 s s'"
  unfolding stays_ep0_def data_ep0_def by blast

lemma stays_refl: "io s' = io s \<Longrightarrow> usb.more s' = usb.more s \<Longrightarrow> stays_ep0 s s'"
  by (simp add: stays_ep0_def)

lemma stays_data_trans:
  assumes "stays_ep0 s s'" and "data_ep0 s' s''"
  shows "data_ep0 s s''"
proof -
  obtain t t' where "io s' = io s @ t" "ep_sel 0 t = 0" "\<forall>(e, r, v) \<in> set (ep_writes 0 t). r = UEDATX \<longrightarrow> e = 0"
    and "io s'' = io s' @ t'" "\<forall>(e, r, v) \<in> set (ep_writes 0 t'). r = UEDATX \<longrightarrow> e = 0"
    using assms unfolding stays_ep0_def data_ep0_def by blast
  then show ?thesis using assms unfolding stays_ep0_def data_ep0_def by (intro conjI exI [of _ "t @ t'"]) auto
qed

lemma stays_trans [trans]:
  assumes "stays_ep0 s s'" and "stays_ep0 s' s''"
  shows "stays_ep0 s s''"
proof -
  obtain t t' where "io s' = io s @ t" "ep_sel 0 t = 0" "\<forall>(e, r, v) \<in> set (ep_writes 0 t). r = UEDATX \<longrightarrow> e = 0"
    and "io s'' = io s' @ t'" "ep_sel 0 t' = 0" "\<forall>(e, r, v) \<in> set (ep_writes 0 t'). r = UEDATX \<longrightarrow> e = 0"
    using assms unfolding stays_ep0_def by blast
  then show ?thesis using assms unfolding stays_ep0_def by (intro conjI exI [of _ "t @ t'"]) auto
qed

lemma no_UENUM:
  assumes "\<forall>v. Wr UENUM v \<notin> set t"
  shows "ep_sel e t = e" and "(e', r, v) \<in> set (ep_writes e t) \<Longrightarrow> e' = e"
  using assms by (induction e t rule: ep_writes.induct) (auto split: if_splits)

lemma no_UEDATX: "\<forall>v. Wr UEDATX v \<notin> set t \<Longrightarrow> (e', r, v) \<in> set (ep_writes e t) \<Longrightarrow> r \<noteq> UEDATX"
  by (induction e t rule: ep_writes.induct) (auto split: if_splits)

lemma touches_stays:
  assumes "touches W s s'" and "UENUM \<notin> W"
  shows "stays_ep0 s s'"
proof -
  obtain t st where t: "s' = s\<lparr>io := io s @ t, USB_DeviceState := st\<rparr>" "\<forall>r v. Wr r v \<in> set t \<longrightarrow> r \<in> W"
    using assms(1) unfolding touches_def by blast
  then have "\<forall>v. Wr UENUM v \<notin> set t" using assms(2) by blast
  note this [THEN no_UENUM(1)] this [THEN no_UENUM(2)]
  then show ?thesis unfolding stays_ep0_def using t(1) by (intro conjI exI [of _ t]) auto
qed

lemma no_data_data: "no_data s s' \<Longrightarrow> data_ep0 s s'"
  unfolding no_data_def data_ep0_def using no_UEDATX by fast

text \<open>The steps the handlers are made of.\<close>

abbreviation "ep0_regs \<equiv> - {UENUM}"

lemmas stays_steps = touches_stays [OF touches_flags(1) [of ep0_regs]] touches_stays [OF touches_flags(2) [of ep0_regs]]
  touches_stays [OF touches_flags(3) [of ep0_regs]] touches_stays [OF touches_wr [of _ ep0_regs]]
  touches_stays [OF touches_set_mask [of _ ep0_regs]] touches_stays [OF touches_clear_mask [of _ ep0_regs]]

lemma stays_calls:
  "Endpoint_ClearStatusStage w s = Some s' \<Longrightarrow> stays_ep0 s s'"
  "spin_INReady w s = Some s' \<Longrightarrow> stays_ep0 s s'"
  "Control_W w byte Length s = Some (code, s') \<Longrightarrow> stays_ep0 s s'"
  by (auto intro: touches_stays [of ep0_regs] touches_ClearStatusStage touches_spin_INReady touches_Control_W)

lemma stays_SetAddress:
  assumes "USB_Device_SetAddress w s = Some s'"
  shows "stays_ep0 s s'"
proof -
  let ?a = "lo8 (wValue (USB_ControlRequest s) AND 0x7F)"
  let ?s1 = "USB_Device_SetDeviceAddress w ?a s"
  obtain s2 s3 where s2: "Endpoint_ClearStatusStage w (Endpoint_ClearSETUP w ?s1) = Some s2"
    and s3: "spin_INReady w s2 = Some s3"
    and s': "s' = (USB_Device_EnableDeviceAddress w ?a s3)\<lparr>USB_DeviceState := if ?a \<noteq> 0 then DEVICE_STATE_Addressed else DEVICE_STATE_Default\<rparr>"
    using assms by (auto simp: USB_Device_SetAddress_def Let_def split: bind_splits)
  have "stays_ep0 s ?s1"
    by (auto simp: USB_Device_SetDeviceAddress_def io_simps intro!: touches_stays [OF touches_trace [of _ ep0_regs]])
  also have "stays_ep0 ?s1 (Endpoint_ClearSETUP w ?s1)" by (rule stays_steps(1)) simp_all
  also have "stays_ep0 \<dots> s2" by (rule stays_calls(1) [OF s2])
  also have "stays_ep0 \<dots> s3" by (rule stays_calls(2) [OF s3])
  also have "stays_ep0 \<dots> (USB_Device_EnableDeviceAddress w ?a s3)"
    unfolding USB_Device_EnableDeviceAddress_def by (rule stays_steps(5)) simp_all
  also have "stays_ep0 \<dots> s'" unfolding s' by (rule stays_refl) simp_all
  finally show ?thesis .
qed

lemma stays_GetConfiguration:
  assumes "USB_Device_GetConfiguration w s = Some s'"
  shows "stays_ep0 s s'"
proof -
  let ?s1 = "Endpoint_ClearSETUP w s"
  have s': "Endpoint_ClearStatusStage w (Endpoint_ClearIN w (Endpoint_Write_8 (USB_Device_ConfigurationNumber ?s1) ?s1)) = Some s'"
    using assms by (simp add: USB_Device_GetConfiguration_def Let_def)
  have "stays_ep0 s ?s1" by (rule stays_steps(1)) simp_all
  also have "stays_ep0 ?s1 (Endpoint_Write_8 (USB_Device_ConfigurationNumber ?s1) ?s1)"
    unfolding Endpoint_Write_8_def by (rule stays_steps(4)) simp_all
  also have "stays_ep0 \<dots> (Endpoint_ClearIN w \<dots>)" by (rule stays_steps(2)) simp_all
  also have "stays_ep0 \<dots> s'" by (rule stays_calls(1) [OF s'])
  finally show ?thesis .
qed

lemma stays_reply:
  assumes "do { (c, s) \<leftarrow> Control_W w byte Length (Endpoint_ClearSETUP w s); Some (Endpoint_ClearOUT w s) } = Some s'"
  shows "stays_ep0 s s'"
proof -
  obtain c s1 where s1: "Control_W w byte Length (Endpoint_ClearSETUP w s) = Some (c, s1)" and s': "s' = Endpoint_ClearOUT w s1"
    using assms by (auto split: bind_splits)
  have "stays_ep0 s (Endpoint_ClearSETUP w s)" by (rule stays_steps(1)) simp_all
  also have "stays_ep0 \<dots> s1" by (rule stays_calls(3) [OF s1])
  also have "stays_ep0 \<dots> s'" unfolding s' by (rule stays_steps(3)) simp_all
  finally show ?thesis .
qed

lemma stays_GetDescriptor:
  assumes "USB_Device_GetDescriptor w s = Some s'"
  shows "stays_ep0 s s'"
  using assms
  by (auto simp: USB_Device_GetDescriptor_def USB_Device_GetInternalSerialDescriptor_def Endpoint_Write_Control_PStream_LE_def
      Endpoint_Write_Control_Stream_LE_def stays_refl split: if_splits prod.splits intro: stays_reply)

text \<open>A call that satisfies \<open>P\<close> when it returns; the rules follow the branches of a handler.\<close>

definition lands :: "('s \<Rightarrow> bool) \<Rightarrow> 's option \<Rightarrow> bool" where
  "lands P y \<longleftrightarrow> (\<forall>s'. y = Some s' \<longrightarrow> P s')"

lemma lands_call: "(\<And>s'. y = Some s' \<Longrightarrow> P s') \<Longrightarrow> lands P y"
  by (simp add: lands_def)

lemma lands_if: "(b \<Longrightarrow> lands P x) \<Longrightarrow> (\<not> b \<Longrightarrow> lands P y) \<Longrightarrow> lands P (if b then x else y)"
  by simp

lemma lands_Some: "P s \<Longrightarrow> lands P (Some s)"
  by (simp add: lands_def)

lemma landsD: "lands P y \<Longrightarrow> y = Some s' \<Longrightarrow> P s'"
  by (simp add: lands_def)

lemma stays_status_reply:
  assumes "Endpoint_ClearStatusStage w (Endpoint_ClearIN w (Endpoint_Write_16_LE x (Endpoint_ClearSETUP w s))) = Some s'"
  shows "stays_ep0 s s'"
proof -
  let ?s1 = "Endpoint_ClearSETUP w s"
  have "stays_ep0 s ?s1" by (rule stays_steps(1)) simp_all
  also have "stays_ep0 ?s1 (wr UEDATX (lo8 x) ?s1)" by (rule stays_steps(4)) simp_all
  also have "stays_ep0 \<dots> (Endpoint_Write_16_LE x ?s1)" unfolding Endpoint_Write_16_LE_def by (rule stays_steps(4)) simp_all
  also have "stays_ep0 \<dots> (Endpoint_ClearIN w \<dots>)" by (rule stays_steps(2)) simp_all
  also have "stays_ep0 \<dots> s'" by (rule stays_calls(1) [OF assms])
  finally show ?thesis .
qed

lemma stays_visit:
  assumes "io s' = io s @ Wr UENUM e # t @ [Wr UENUM 0]" and "usb.more s' = usb.more s" and "\<forall>r v. Wr r v \<in> set t \<longrightarrow> r \<noteq> UEDATX \<and> r \<noteq> UENUM"
  shows "stays_ep0 s s'"
  unfolding stays_ep0_def
proof (intro conjI exI [of _ "Wr UENUM e # t @ [Wr UENUM 0]"] assms(1,2))
  show "ep_sel 0 (Wr UENUM e # t @ [Wr UENUM 0]) = 0" by simp
  show "\<forall>(e', r, v) \<in> set (ep_writes 0 (Wr UENUM e # t @ [Wr UENUM 0])). r = UEDATX \<longrightarrow> e' = 0"
    using no_UEDATX [of t] assms(3) by fastforce
qed

lemma stays_GetStatus:
  assumes "USB_Device_GetStatus w s = Some s'"
  shows "stays_ep0 s s'"
proof -
  let ?e = "lo8 (wIndex (USB_ControlRequest s)) AND ENDPOINT_EPNUM_MASK"
  obtain b s1 where s1: "Endpoint_IsStalled w (Endpoint_SelectEndpoint ?e s) = (b, s1)" by fastforce
  have "stays_ep0 s (Endpoint_SelectEndpoint ENDPOINT_CONTROLEP s1)"
    using s1 by (auto simp: ep_io ENDPOINT_CONTROLEP_def
        intro!: stays_visit [of _ _ "?e AND ENDPOINT_EPNUM_MASK" "[Rd UECONX (dev w (io s @ [Wr UENUM (?e AND ENDPOINT_EPNUM_MASK)]) UECONX)]"])
  then show ?thesis using assms s1
    by (auto simp: USB_Device_GetStatus_def Let_def stays_refl split: if_splits
        intro: stays_status_reply stays_trans [OF _ stays_status_reply])
qed

lemma stays_acknowledge:
  assumes "Endpoint_ClearStatusStage w (Endpoint_ClearSETUP w s) = Some s'"
  shows "stays_ep0 s s'"
proof -
  have "stays_ep0 s (Endpoint_ClearSETUP w s)" by (rule stays_steps(1)) simp_all
  also have "stays_ep0 \<dots> s'" by (rule stays_calls(1) [OF assms])
  finally show ?thesis .
qed

lemma stays_ClearSetFeature:
  assumes "USB_Device_ClearSetFeature w s = Some s'"
  shows "stays_ep0 s s'"
proof -
  let ?req = "USB_ControlRequest s"
  let ?e = "lo8 (wIndex ?req) AND ENDPOINT_EPNUM_MASK"
  let ?sel = "Endpoint_SelectEndpoint ENDPOINT_CONTROLEP"
  obtain b s1 where s1: "Endpoint_IsEnabled w (Endpoint_SelectEndpoint ?e s) = (b, s1)" by fastforce
  let ?s2 = "if \<not> b then s1
    else if bRequest ?req = REQ_SetFeature then Endpoint_StallTransaction w s1
    else Endpoint_ResetDataToggle w (Endpoint_ResetEndpoint ?e (Endpoint_ClearStall w s1))"
  have visit: "stays_ep0 s (?sel ?s2)"
    unfolding stays_ep0_def using s1 by (auto simp: ep_io ENDPOINT_CONTROLEP_def)
  have self: "stays_ep0 s (?sel s)" and wake: "stays_ep0 s (?sel (s\<lparr>USB_Device_RemoteWakeupEnabled := x\<rparr>))" for x
    unfolding stays_ep0_def by (auto simp: ep_io ENDPOINT_CONTROLEP_def)
  have ack: "lands (stays_ep0 s) (Endpoint_ClearStatusStage w (Endpoint_ClearSETUP w s3))" if "stays_ep0 s s3" for s3
    by (rule lands_call) (rule stays_trans [OF that stays_acknowledge])
  have "lands (stays_ep0 s) (USB_Device_ClearSetFeature w s)"
    unfolding USB_Device_ClearSetFeature_def Let_def s1 prod.case
    by (intro lands_if lands_Some ack wake self visit stays_refl refl)
  then show ?thesis using assms by (rule landsD)
qed

lemma header_loop_stays: "header_loop w n s = (bs, s') \<Longrightarrow> stays_ep0 s s'"
proof (induction n arbitrary: s bs)
  case 0
  then show ?case by (simp add: stays_refl)
next
  case (Suc n)
  obtain b s1 where s1: "Endpoint_Read_8 w s = (b, s1)" by fastforce
  obtain bs' where "header_loop w n s1 = (bs', s')" using Suc.prems s1 by (auto split: prod.splits)
  then have "stays_ep0 s1 s'" by (rule Suc.IH)
  moreover have "stays_ep0 s s1" using s1 unfolding Endpoint_Read_8_def by (intro touches_stays [of "{}"] touches_rd) simp_all
  ultimately show ?case by (rule stays_trans [rotated])
qed

lemma stays_IsSETUPReceived: "Endpoint_IsSETUPReceived w s = (b, s') \<Longrightarrow> stays_ep0 s s'"
  by (intro touches_stays [of "{}"] touches_poll(1)) simp_all

lemma data_no_data:
  assumes "data_ep0 s s'" and "no_data s' s''"
  shows "data_ep0 s s''"
proof -
  obtain t t' where "io s' = io s @ t" "\<forall>(e, r, v) \<in> set (ep_writes 0 t). r = UEDATX \<longrightarrow> e = 0"
    and t': "io s'' = io s' @ t'" "\<forall>v. Wr UEDATX v \<notin> set t'"
    using assms unfolding data_ep0_def no_data_def by blast
  moreover have "(e, UEDATX, v) \<notin> set (ep_writes (ep_sel 0 t) t')" for e v
    using no_UEDATX [OF t'(2)] by blast
  ultimately show ?thesis using assms unfolding data_ep0_def no_data_def by (intro conjI exI [of _ "t @ t'"]) auto
qed

lemma endpoint_mask:
  assumes "e < 16"
  shows "(((e AND ENDPOINT_EPNUM_MASK) OR (if b then ENDPOINT_DIR_IN else ENDPOINT_DIR_OUT)) AND ENDPOINT_EPNUM_MASK) = (e :: u8)"
proof -
  have m: "ENDPOINT_EPNUM_MASK = mask 4" by (simp add: ENDPOINT_EPNUM_MASK_def mask_eq_exp_minus_1)
  have e: "take_bit 4 e = e" using less_mask_eq [of e 4] assms by (simp add: take_bit_eq_mask)
  have d: "take_bit 4 (if b then ENDPOINT_DIR_IN else ENDPOINT_DIR_OUT) = 0"
    by (simp add: ENDPOINT_DIR_IN_def ENDPOINT_DIR_OUT_def)
  show ?thesis unfolding m by (simp add: d e flip: take_bit_eq_mask)
qed

lemma data_to_other:
  assumes "\<forall>(e', r, v) \<in> set (ep_writes 0 t). r = UEDATX \<longrightarrow> e' = 0" and "e \<noteq> 0"
    and "list_all is_read t0"
  shows "data_to e e (t0 @ [Wr UENUM 0, Rd r v] @ t @ [Wr UENUM e]) = []"
proof -
  have "filter (\<lambda>(e', r, v). e' = e \<and> r = UEDATX) (ep_writes 0 t) = []"
    using assms(1,2) by (auto simp: filter_empty_conv)
  then show ?thesis using assms(3) by (simp add: data_to_def)
qed

text \<open>What the library relies on in the application: the handler of control requests leaves the control
  endpoint selected and sends data on no other endpoint, the handler of configuration changes sends no
  data, and neither changes the application's globals. The lemmas below hold for every such application.\<close>

locale usb_application =
  fixes app :: "'a usb_scheme usb_events"
  assumes control_event: "ControlRequest_event app w s = Some s' \<Longrightarrow> stays_ep0 s s'"
    and config_event: "ConfigurationChanged_event app w s = Some s' \<Longrightarrow> no_data s s'"
begin

lemma data_SetConfiguration:
  assumes "USB_Device_SetConfiguration w app s = Some s'"
  shows "data_ep0 s s'"
proof (cases "lo8 (wValue (USB_ControlRequest s)) > FIXED_NUM_CONFIGURATIONS")
  case True
  then show ?thesis using assms by (simp add: USB_Device_SetConfiguration_def stays_data stays_refl)
next
  case False
  let ?s1 = "(Endpoint_ClearSETUP w s)\<lparr>USB_Device_ConfigurationNumber := lo8 (wValue (USB_ControlRequest (Endpoint_ClearSETUP w s)))\<rparr>"
  obtain s2 where s2: "Endpoint_ClearStatusStage w ?s1 = Some s2"
    and s3: "ConfigurationChanged_event app w (if USB_Device_ConfigurationNumber s2 \<noteq> 0 then s2\<lparr>USB_DeviceState := DEVICE_STATE_Configured\<rparr>
       else let (b, s) = USB_Device_IsAddressSet w s2
            in s\<lparr>USB_DeviceState := if b then DEVICE_STATE_Configured else DEVICE_STATE_Powered\<rparr>) = Some s'"
      (is "ConfigurationChanged_event app w ?s3 = _")
    using assms False by (auto simp: USB_Device_SetConfiguration_def Let_def split: bind_splits)
  have "stays_ep0 s (Endpoint_ClearSETUP w s)" by (rule stays_steps(1)) simp_all
  also have "stays_ep0 \<dots> ?s1" by (rule stays_refl) simp_all
  also have "stays_ep0 \<dots> s2" by (rule stays_calls(1) [OF s2])
  also have "stays_ep0 \<dots> ?s3" unfolding stays_ep0_def
    by (auto simp: USB_Device_IsAddressSet_def io_simps)
  finally have "stays_ep0 s ?s3" .
  from stays_data_trans [OF this no_data_data [OF config_event [OF s3]]] show ?thesis .
qed

lemma data_standard_request:
  assumes "standard_request w app s = Some s'"
  shows "data_ep0 s s'"
proof -
  note handlers = stays_GetStatus stays_ClearSetFeature stays_SetAddress stays_GetDescriptor stays_GetConfiguration
  have "lands (data_ep0 s) (standard_request w app s)" unfolding standard_request_def Let_def
    by (intro lands_if lands_Some stays_data [OF stays_refl] refl; rule lands_call, rule data_SetConfiguration handlers [THEN stays_data], assumption)
  then show ?thesis using assms by (rule landsD)
qed

lemma data_ProcessControlRequest:
  assumes "USB_Device_ProcessControlRequest w app s = Some s'"
  shows "data_ep0 s s'"
proof -
  obtain bs s1 where s1: "header_loop w 8 s = (bs, s1)" by fastforce
  let ?s1 = "s1\<lparr>USB_ControlRequest := header_of_bytes bs\<rparr>"
  obtain s2 where s2: "ControlRequest_event app w ?s1 = Some s2"
    using assms s1 by (auto simp: USB_Device_ProcessControlRequest_def split: bind_splits)
  obtain b s3 where s3: "Endpoint_IsSETUPReceived w s2 = (b, s3)" by fastforce
  obtain s4 where s4: "(if b then standard_request w app s3 else Some s3) = Some s4"
    using assms s1 s2 s3 by (auto simp: USB_Device_ProcessControlRequest_def split: bind_splits)
  obtain b' s5 where s5: "Endpoint_IsSETUPReceived w s4 = (b', s5)" by fastforce
  have s': "s' = (if b' then Endpoint_StallTransaction w (Endpoint_ClearSETUP w s5) else s5)"
    using assms s1 s2 s3 s4 s5 by (simp add: USB_Device_ProcessControlRequest_def)
  have "stays_ep0 s s1" by (rule header_loop_stays [OF s1])
  also have "stays_ep0 s1 ?s1" by (rule stays_refl) simp_all
  also have "stays_ep0 \<dots> s2" by (rule control_event [OF s2])
  also have "stays_ep0 s2 s3" by (rule stays_IsSETUPReceived [OF s3])
  finally have "stays_ep0 s s3" .
  moreover have "data_ep0 s3 s4" using s4 by (auto split: if_splits intro: data_standard_request stays_data stays_refl)
  ultimately have "data_ep0 s s4" by (rule stays_data_trans)
  moreover have "no_data s4 s'" using s5 by (auto simp: s' no_data_def ep_io)
  ultimately show ?thesis by (rule data_no_data)
qed

lemma USBTask_keeps:
  assumes w: "uenum_reads_back w" and e: "ep_sel 0 (io s) = e" "e \<noteq> 0" "e < 16" and run: "USB_USBTask w app s = Some s'"
  shows "wrote e s [] s'"
proof -
  obtain st s0 where s0: "get_DeviceState w s = (st, s0)" by fastforce
  have s0': "io s0 = io s" "usb.more s0 = usb.more s" using s0 by (auto simp: get_DeviceState_eq)
  show ?thesis
  proof (cases "st = DEVICE_STATE_Unattached")
    case True
    then have "s' = s0" using run s0 by (simp add: USB_USBTask_def USB_DeviceTask_def)
    then show ?thesis using s0' by (simp add: wrote_def)
  next
    case False
    obtain p s1 where s1: "Endpoint_GetCurrentEndpoint w s0 = (p, s1)" by fastforce
    then have p: "p AND ENDPOINT_EPNUM_MASK = e" "usb.more s1 = usb.more s"
      and t1: "\<exists>c. io s1 = io s @ [Rd UENUM e, Rd UECFG0X c]"
      using s0' w e endpoint_mask [of e]
      by (auto simp: Endpoint_GetCurrentEndpoint_def Endpoint_GetEndpointDirection_def io_simps uenum_reads_back_def)
    let ?s2 = "Endpoint_SelectEndpoint ENDPOINT_CONTROLEP s1"
    obtain b s3 where s3: "Endpoint_IsSETUPReceived w ?s2 = (b, s3)" by fastforce
    obtain s4 where s4: "(if b then USB_Device_ProcessControlRequest w app s3 else Some s3) = Some s4"
      and s': "s' = Endpoint_SelectEndpoint p s4"
      using run s0 s1 s3 False by (auto simp: USB_USBTask_def USB_DeviceTask_def split: bind_splits)
    have "data_ep0 s3 s4" using s4 by (auto split: if_splits intro: data_ProcessControlRequest stays_data stays_refl)
    then obtain t where t: "io s4 = io s3 @ t" "\<forall>(e, r, v) \<in> set (ep_writes 0 t). r = UEDATX \<longrightarrow> e = 0" "usb.more s4 = usb.more s3"
      unfolding data_ep0_def by blast
    obtain c v where "io s3 = io s @ [Rd UENUM e, Rd UECFG0X c] @ [Wr UENUM 0, Rd UEINTX v]" "usb.more s3 = usb.more s"
      using s3 t1 p(2) by (auto simp: ep_io ENDPOINT_CONTROLEP_def)
    then have "io s' = io s @ [Rd UENUM e, Rd UECFG0X c] @ [Wr UENUM 0, Rd UEINTX v] @ t @ [Wr UENUM e]" "usb.more s' = usb.more s"
      using t p s' by (simp_all add: ep_io)
    moreover have "data_to e e ([Rd UENUM e, Rd UECFG0X c] @ [Wr UENUM 0, Rd UEINTX v] @ t @ [Wr UENUM e]) = []"
      by (rule data_to_other [OF t(2) e(2)]) simp
    ultimately show ?thesis unfolding wrote_def
      using t(2) by (intro conjI exI [of _ "[Rd UENUM e, Rd UECFG0X c] @ [Wr UENUM 0, Rd UEINTX v] @ t @ [Wr UENUM e]"]) auto
  qed
qed

end

sublocale usb_application \<subseteq> usb_task "\<lambda>w. USB_USBTask w app"
  by unfold_locales (use USBTask_keeps in blast)

subsection \<open>Requests that are not supported\<close>

text \<open>The standard requests the device answers, by their fields; all others are rejected.\<close>

definition accepted :: "USB_Request_Header_t \<Rightarrow> bool" where
  "accepted h \<longleftrightarrow>
     (let ep = lo8 (wIndex h) AND 0x0F in
      (bRequest h = 0 \<and> (bmRequestType h = 0x80 \<or> bmRequestType h = 0x82 \<and> unat ep < 5)) \<or>
      ((bRequest h = 1 \<or> bRequest h = 3) \<and>
         (bmRequestType h = 0 \<and> lo8 (wValue h) = 1 \<or>
          bmRequestType h = 2 \<and> (lo8 (wValue h) = 0 \<longrightarrow> ep \<noteq> 0 \<and> unat ep < 5))) \<or>
      (bRequest h = 5 \<and> bmRequestType h = 0) \<or>
      (bRequest h = 6 \<and> (bmRequestType h = 0x80 \<or> bmRequestType h = 0x81) \<and>
         (wValue h = 0x03DC \<or> fst (CALLBACK_USB_GetDescriptor (wValue h) (wIndex h)) \<noteq> 0)) \<or>
      (bRequest h = 8 \<and> bmRequestType h = 0x80) \<or>
      (bRequest h = 9 \<and> bmRequestType h = 0 \<and> lo8 (wValue h) \<le> 1))"

lemma serial_wValue: "join16 DTYPE_String USE_INTERNAL_SERIAL = 0x03DC"
  by (simp add: join16_def DTYPE_String_def USE_INTERNAL_SERIAL_def)

lemma request_types:
  "REQDIR_DEVICETOHOST OR REQTYPE_STANDARD OR REQREC_DEVICE = 0x80" "REQDIR_DEVICETOHOST OR REQTYPE_STANDARD OR REQREC_ENDPOINT = 0x82"
  "REQDIR_DEVICETOHOST OR REQTYPE_STANDARD OR REQREC_INTERFACE = 0x81" "REQDIR_HOSTTODEVICE OR REQTYPE_STANDARD OR REQREC_DEVICE = 0"
  "REQDIR_HOSTTODEVICE OR REQTYPE_STANDARD OR REQREC_ENDPOINT = 2"
  by (simp_all add: request_defs)

lemmas endpoint_consts = ENDPOINT_EPNUM_MASK_def ENDPOINT_CONTROLEP_def ENDPOINT_TOTAL_ENDPOINTS_def

lemma handlers_reject:
  "bmRequestType (USB_ControlRequest s) = 0x82 \<Longrightarrow> \<not> unat (lo8 (wIndex (USB_ControlRequest s)) AND 0x0F) < 5 \<Longrightarrow>
     USB_Device_GetStatus w s = Some s"
  "bmRequestType (USB_ControlRequest s) = 0 \<Longrightarrow> lo8 (wValue (USB_ControlRequest s)) \<noteq> 1 \<Longrightarrow> USB_Device_ClearSetFeature w s = Some s"
  "bmRequestType (USB_ControlRequest s) = 2 \<Longrightarrow> lo8 (wValue (USB_ControlRequest s)) = 0 \<Longrightarrow>
     lo8 (wIndex (USB_ControlRequest s)) AND 0x0F = 0 \<or> \<not> unat (lo8 (wIndex (USB_ControlRequest s)) AND 0x0F) < 5 \<Longrightarrow>
     USB_Device_ClearSetFeature w s = Some s"
  "wValue (USB_ControlRequest s) \<noteq> 0x03DC \<Longrightarrow>
     fst (CALLBACK_USB_GetDescriptor (wValue (USB_ControlRequest s)) (wIndex (USB_ControlRequest s))) = 0 \<Longrightarrow>
     USB_Device_GetDescriptor w s = Some s"
  "\<not> lo8 (wValue (USB_ControlRequest s)) \<le> 1 \<Longrightarrow> USB_Device_SetConfiguration w app s = Some s"
  by (auto simp: USB_Device_GetStatus_def USB_Device_ClearSetFeature_def USB_Device_GetDescriptor_def USB_Device_SetConfiguration_def
      request_types request_defs FIXED_NUM_CONFIGURATIONS_def FEATURE_SEL_EndpointHalt_def FEATURE_SEL_DeviceRemoteWakeup_def
      endpoint_consts NO_DESCRIPTOR_def serial_wValue Let_def split: prod.splits)

lemma if_Some: "(b \<Longrightarrow> x = Some s) \<Longrightarrow> (\<not> b \<Longrightarrow> y = Some s) \<Longrightarrow> (if b then x else y) = Some s"
  by simp

lemma not_accepted:
  assumes "\<not> accepted (USB_ControlRequest s)"
  shows "standard_request w app s = Some s"
proof -
  let ?h = "USB_ControlRequest s"
  have n: "bRequest ?h = 0 \<Longrightarrow> \<not> (bmRequestType ?h = 0x80 \<or> bmRequestType ?h = 0x82 \<and> unat (lo8 (wIndex ?h) AND 0x0F) < 5)"
    "bRequest ?h = 1 \<or> bRequest ?h = 3 \<Longrightarrow> \<not> (bmRequestType ?h = 0 \<and> lo8 (wValue ?h) = 1 \<or>
          bmRequestType ?h = 2 \<and> (lo8 (wValue ?h) = 0 \<longrightarrow> lo8 (wIndex ?h) AND 0x0F \<noteq> 0 \<and> unat (lo8 (wIndex ?h) AND 0x0F) < 5))"
    "bRequest ?h = 5 \<Longrightarrow> bmRequestType ?h \<noteq> 0"
    "bRequest ?h = 6 \<Longrightarrow> \<not> ((bmRequestType ?h = 0x80 \<or> bmRequestType ?h = 0x81) \<and>
         (wValue ?h = 0x03DC \<or> fst (CALLBACK_USB_GetDescriptor (wValue ?h) (wIndex ?h)) \<noteq> 0))"
    "bRequest ?h = 8 \<Longrightarrow> bmRequestType ?h \<noteq> 0x80"
    "bRequest ?h = 9 \<Longrightarrow> \<not> (bmRequestType ?h = 0 \<and> lo8 (wValue ?h) \<le> 1)"
    using assms unfolding accepted_def Let_def by blast+
  note codes = REQ_GetStatus_def REQ_ClearFeature_def REQ_SetFeature_def REQ_SetAddress_def REQ_GetDescriptor_def
    REQ_GetConfiguration_def REQ_SetConfiguration_def
  show ?thesis unfolding standard_request_def Let_def request_types codes
  proof (intro if_Some refl)
    show "USB_Device_GetStatus w s = Some s" if "bRequest ?h = 0" "bmRequestType ?h = 0x80 \<or> bmRequestType ?h = 0x82"
      using handlers_reject(1) n(1) that by blast
    show "USB_Device_ClearSetFeature w s = Some s" if "bRequest ?h = 1 \<or> bRequest ?h = 3" "bmRequestType ?h = 0 \<or> bmRequestType ?h = 2"
      using handlers_reject(2,3) n(2) that by blast
    show "USB_Device_SetAddress w s = Some s" if "bRequest ?h = 5" "bmRequestType ?h = 0" using n(3) that by blast
    show "USB_Device_GetDescriptor w s = Some s" if "bRequest ?h = 6" "bmRequestType ?h = 0x80 \<or> bmRequestType ?h = 0x81"
      using handlers_reject(4) n(4) that by blast
    show "USB_Device_GetConfiguration w s = Some s" if "bRequest ?h = 8" "bmRequestType ?h = 0x80" using n(5) that by blast
    show "USB_Device_SetConfiguration w app s = Some s" if "bRequest ?h = 9" "bmRequestType ?h = 0"
      using handlers_reject(5) n(6) that by blast
  qed
qed

text \<open>C33: A request the device does not support is refused: when neither the application nor a standard handler
  takes it, all that happens after the header has been read is that the request is acknowledged and the
  control endpoint is stalled; no byte is sent and no variable changes.\<close>

theorem unsupported_request_stalled:
  fixes s :: "'a usb_scheme"
  assumes "header_loop w 8 s = (bs, s1)" and "ControlRequest_event app w (s1\<lparr>USB_ControlRequest := header_of_bytes bs\<rparr>) = Some s2"
    and "\<not> accepted (USB_ControlRequest s2)"
    and "v1 = dev w (io s2) UEINTX" and "has v1 (bv RXSTPI)"
    and "v2 = dev w (io s2 @ [Rd UEINTX v1]) UEINTX" and "has v2 (bv RXSTPI)"
  shows "\<exists>v3 c. USB_Device_ProcessControlRequest w app s =
    Some (s2\<lparr>io := io s2 @ [Rd UEINTX v1, Rd UEINTX v2, Rd UEINTX v3, Wr UEINTX (v3 AND NOT (bv RXSTPI)),
      Rd UECONX c, Wr UECONX (c OR bv STALLRQ)]\<rparr>)"
proof -
  let ?s3 = "s2\<lparr>io := io s2 @ [Rd UEINTX v1]\<rparr>"
  have "standard_request w app ?s3 = Some ?s3" using assms(3) by (intro not_accepted) simp
  then show ?thesis using assms(1,2,4-) by (simp add: USB_Device_ProcessControlRequest_def ep_io) (intro exI, rule refl)
qed

definition quiet_app :: "'s usb_events" where
  "quiet_app = \<lparr>ControlRequest_event = (\<lambda>w s. Some s), ConfigurationChanged_event = (\<lambda>w s. Some s)\<rparr>"

text \<open>A vendor request (all header bytes are \<open>0x48\<close>).\<close>

theorem unsupported_request_stalled_witness:
  "\<exists>s'. USB_Device_ProcessControlRequest (const_world (\<lambda>r. 0x48)) quiet_app usb_init = Some s' \<and>
     (\<exists>c. last (io s') = Wr UECONX (c OR bv STALLRQ))"
proof -
  let ?w = "const_world (\<lambda>r. 0x48)"
  let ?s1 = "usb_init\<lparr>io := replicate 8 (Rd UEDATX 0x48)\<rparr>"
  let ?s2 = "?s1\<lparr>USB_ControlRequest := header_of_bytes (replicate 8 0x48)\<rparr>"
  have 1: "header_loop ?w 8 usb_init = (replicate 8 0x48, ?s1)"
    by (simp add: eval_nat_numeral ep_io)
  have 2: "ControlRequest_event quiet_app ?w ?s2 = Some ?s2" by (simp add: quiet_app_def)
  have 3: "\<not> accepted (USB_ControlRequest ?s2)"
    by (simp add: accepted_def header_of_bytes_def)
  have 4: "has 0x48 (bv RXSTPI)" by (simp add: has_def bv_def)
  show ?thesis using unsupported_request_stalled [OF 1 2 3 refl _ refl] 4 by auto
qed

subsection \<open>Setting the address\<close>

lemma spin_INReady_now:
  assumes "has (dev w (io s) UEINTX) (bv TXINI)"
  shows "\<exists>t. spin_INReady w s = Some (s\<lparr>io := io s @ t\<rparr>) \<and> list_all is_read t \<and> saw w (io s) TXINI t"
proof (intro exI conjI)
  let ?t = "[Rd UEINTX (dev w (io s) UEINTX)]"
  show "spin_INReady w s = Some (s\<lparr>io := io s @ ?t\<rparr>)" unfolding spin_INReady_def using assms
    by (intro iterate_stop) (simp add: ep_io)
  show "saw w (io s) TXINI ?t" using saw_snoc [of _ w "io s" "[]"] assms by simp
qed simp

lemma spin_INReady_returns:
  assumes "flag_comes w TXINI"
  shows "\<exists>t. spin_INReady w s = Some (s\<lparr>io := io s @ t\<rparr>) \<and> list_all is_read t \<and> saw w (io s) TXINI t"
proof -
  obtain k where "has (dev w ((rd_history w UEINTX ^^ k) (io s)) UEINTX) (bv TXINI)"
    using assms unfolding flag_comes_def by blast
  then show ?thesis
  proof (induction k arbitrary: s)
    case 0
    then show ?case using spin_INReady_now [of w s] by simp
  next
    case (Suc k)
    let ?v = "dev w (io s) UEINTX"
    let ?s1 = "s\<lparr>io := rd_history w UEINTX (io s)\<rparr>"
    show ?case
    proof (cases "has ?v (bv TXINI)")
      case True
      then show ?thesis by (rule spin_INReady_now)
    next
      case False
      have "spin_INReady w s = spin_INReady w ?s1" unfolding spin_INReady_def using False
        by (intro iterate_go) (simp add: ep_io rd_history_def)
      moreover obtain t where "spin_INReady w ?s1 = Some (?s1\<lparr>io := io ?s1 @ t\<rparr>)" "list_all is_read t" "saw w (io ?s1) TXINI t"
        using Suc.IH [of ?s1] Suc.prems by (auto simp: funpow_Suc_right simp del: funpow.simps)
      ultimately show ?thesis using saw_append [of w "io s" "[Rd UEINTX ?v]" TXINI t]
        by (intro exI [of _ "[Rd UEINTX ?v] @ t"]) (simp add: rd_history_def)
    qed
  qed
qed

text \<open>The status stage of a request without a data stage, or with one from the host: an empty packet is
  handed over once the bank is free.\<close>

lemma ClearStatusStage_returns:
  assumes "flag_comes w TXINI" and "USB_DeviceState s \<noteq> DEVICE_STATE_Unattached"
    and "\<not> has (bmRequestType (USB_ControlRequest s)) REQDIR_DEVICETOHOST"
  shows "\<exists>t v. Endpoint_ClearStatusStage w s = Some (s\<lparr>io := io s @ t @
      [Rd UEINTX v, Wr UEINTX (v AND NOT (bv TXINI OR bv FIFOCON))]\<rparr>) \<and> list_all is_read t \<and> saw w (io s) TXINI t"
proof -
  obtain t where "wait_flag TXINI w s = Some (True, s\<lparr>io := io s @ t\<rparr>)" "list_all is_read t" "saw w (io s) TXINI t"
    using wait_flag_returns [OF assms(1,2)] by blast
  then show ?thesis using assms(3)
    by (intro exI [of _ t] exI [of _ "dev w (io s @ t) UEINTX"]) (simp add: Endpoint_ClearStatusStage_def wait_flag_eqs ep_io)
qed

text \<open>C19: The new address is used only after the host has the answer to the request: the address is stored
  without being enabled, the request is acknowledged, the empty status packet is handed over, and the
  address is enabled after the bank was seen free again, which means that the host took the packet. The
  device is then addressed, or back in the default state for address zero.\<close>

theorem set_address_after_status_stage:
  assumes "flag_comes w TXINI" and "USB_DeviceState s \<noteq> DEVICE_STATE_Unattached"
    and "\<not> has (bmRequestType (USB_ControlRequest s)) REQDIR_DEVICETOHOST"
    and "a = lo8 (wValue (USB_ControlRequest s) AND 0x7F)"
  shows "\<exists>t u v t1 c t2 x. USB_Device_SetAddress w s = Some (s\<lparr>io := io s @ t,
      USB_DeviceState := if a \<noteq> 0 then DEVICE_STATE_Addressed else DEVICE_STATE_Default\<rparr>) \<and>
    t = [Rd UDADDR u, Wr UDADDR ((u AND bv ADDEN) OR (a AND 0x7F)), Rd UEINTX v, Wr UEINTX (v AND NOT (bv RXSTPI))] @
      t1 @ [Rd UEINTX c, Wr UEINTX (c AND NOT (bv TXINI OR bv FIFOCON))] @ t2 @ [Rd UDADDR x, Wr UDADDR (x OR bv ADDEN)] \<and>
    list_all is_read (t1 @ t2) \<and> (\<exists>t3 v. t2 = t3 @ [Rd UEINTX v] \<and> has v (bv TXINI))"
proof -
  define u where "u = dev w (io s) UDADDR"
  define h1 where "h1 = [Rd UDADDR u, Wr UDADDR ((u AND bv ADDEN) OR (a AND 0x7F))]"
  define v where "v = dev w (io s @ h1) UEINTX"
  define h2 where "h2 = h1 @ [Rd UEINTX v, Wr UEINTX (v AND NOT (bv RXSTPI))]"
  let ?s2 = "s\<lparr>io := io s @ h2\<rparr>"
  have s2: "Endpoint_ClearSETUP w (USB_Device_SetDeviceAddress w a s) = ?s2"
    by (simp add: USB_Device_SetDeviceAddress_def ep_io h2_def h1_def u_def v_def)
  obtain t1 c where t1: "Endpoint_ClearStatusStage w ?s2 = Some (?s2\<lparr>io := io ?s2 @ t1 @
      [Rd UEINTX c, Wr UEINTX (c AND NOT (bv TXINI OR bv FIFOCON))]\<rparr>)" "list_all is_read t1"
    using ClearStatusStage_returns [OF assms(1), of ?s2] assms(2,3) by auto
  define s3 where "s3 = ?s2\<lparr>io := io ?s2 @ t1 @ [Rd UEINTX c, Wr UEINTX (c AND NOT (bv TXINI OR bv FIFOCON))]\<rparr>"
  obtain t2 where t2: "spin_INReady w s3 = Some (s3\<lparr>io := io s3 @ t2\<rparr>)" "list_all is_read t2" "saw w (io s3) TXINI t2"
    using spin_INReady_returns [OF assms(1)] by blast
  have run: "USB_Device_SetAddress w s = do {
      s \<leftarrow> Endpoint_ClearStatusStage w (Endpoint_ClearSETUP w (USB_Device_SetDeviceAddress w a s)); s \<leftarrow> spin_INReady w s;
      Some ((USB_Device_EnableDeviceAddress w a s)\<lparr>USB_DeviceState := if a \<noteq> 0 then DEVICE_STATE_Addressed else DEVICE_STATE_Default\<rparr>) }"
    by (simp add: USB_Device_SetAddress_def Let_def flip: assms(4))
  define x where "x = dev w (io s3 @ t2) UDADDR"
  have last: "\<exists>t3 v. t2 = t3 @ [Rd UEINTX v] \<and> has v (bv TXINI)" using t2(3) by (auto simp: saw_def)
  have final: "USB_Device_SetAddress w s = Some (s\<lparr>io := io s @ h2 @ t1 @ [Rd UEINTX c, Wr UEINTX (c AND NOT (bv TXINI OR bv FIFOCON))] @ t2 @
      [Rd UDADDR x, Wr UDADDR (x OR bv ADDEN)], USB_DeviceState := if a \<noteq> 0 then DEVICE_STATE_Addressed else DEVICE_STATE_Default\<rparr>)"
    unfolding run s2 t1(1) bind.bind_lunit s3_def [symmetric] t2(1)
    by (simp add: USB_Device_EnableDeviceAddress_def set_mask_eq x_def s3_def)
  show ?thesis
    by (rule exI, rule exI [of _ u], rule exI [of _ v], rule exI [of _ t1], rule exI [of _ c], rule exI [of _ t2], rule exI [of _ x],
        intro conjI, rule final, simp add: h2_def h1_def, simp add: t1(2) t2(2), rule last)
qed

lemma flag_comes_const: "has (f UEINTX) (bv b) \<Longrightarrow> flag_comes (const_world f) b"
  by (auto simp: flag_comes_def intro: exI [of _ 0])

text \<open>A state in which the host has sent the request \<open>req\<close>.\<close>

definition requested :: "USB_Request_Header_t \<Rightarrow> usb" where
  "requested req = usb_init\<lparr>USB_DeviceState := DEVICE_STATE_Default, USB_ControlRequest := req\<rparr>"

lemma requested_simps [simp]:
  "io (requested req) = []" "USB_DeviceState (requested req) = DEVICE_STATE_Default" "USB_ControlRequest (requested req) = req"
  "USB_Device_RemoteWakeupEnabled (requested req) = False" "USB_Device_CurrentlySelfPowered (requested req) = False"
  "USB_Device_ConfigurationNumber (requested req) = 0"
  by (simp_all add: requested_def usb_init_def)

theorem set_address_after_status_stage_witness:
  "\<exists>s'. USB_Device_SetAddress (const_world (\<lambda>r. 1))
      (requested \<lparr>bmRequestType = 0, bRequest = 5, wValue = 7, wIndex = 0, wLength = 0\<rparr>) = Some s' \<and>
     USB_DeviceState s' = DEVICE_STATE_Addressed"
proof -
  let ?r = "\<lparr>bmRequestType = 0, bRequest = 5, wValue = 7, wIndex = 0, wLength = 0\<rparr>"
  have "has 1 (bv TXINI)" by (simp add: has_def bv_def)
  then have 1: "flag_comes (const_world (\<lambda>r. 1)) TXINI" by (rule flag_comes_const)
  have 2: "USB_DeviceState (requested ?r) \<noteq> DEVICE_STATE_Unattached" by simp
  have 3: "\<not> has (bmRequestType (USB_ControlRequest (requested ?r))) REQDIR_DEVICETOHOST" by (simp add: has_def)
  have 4: "7 = lo8 (wValue (USB_ControlRequest (requested ?r)) AND 0x7F)" by (simp add: lo8_def)
  from set_address_after_status_stage [OF 1 2 3 4] show ?thesis by auto
qed

text \<open>The second wait of the address request has no way out: when the device is detached before the bank of the
  control endpoint becomes free again, the status stage gives up as it should, but the loop behind it runs
  forever and the firmware hangs.\<close>

theorem set_address_hangs_after_detach:
  assumes "\<forall>h. \<not> has (dev w h UEINTX) (bv TXINI)" and "\<forall>h. irq w h = Some DEVICE_STATE_Unattached"
    and "\<not> has (bmRequestType (USB_ControlRequest s)) REQDIR_DEVICETOHOST"
  shows "(\<exists>s'. Endpoint_ClearStatusStage w s = Some s' \<and> USB_DeviceState s' = DEVICE_STATE_Unattached) \<and>
    USB_Device_SetAddress w s = None"
proof
  have "wait_flag TXINI w s = Some (False, s\<lparr>io := io s @ [Rd UEINTX (dev w (io s) UEINTX)], USB_DeviceState := DEVICE_STATE_Unattached\<rparr>)"
    unfolding wait_flag_def using assms(1,2) by (intro iterate_stop) (simp add: io_simps get_DeviceState_def)
  then show "\<exists>s'. Endpoint_ClearStatusStage w s = Some s' \<and> USB_DeviceState s' = DEVICE_STATE_Unattached"
    using assms(3) by (simp add: Endpoint_ClearStatusStage_def wait_flag_eqs)
  have "spin_INReady w s = None" for s :: "'a usb_scheme"
    unfolding spin_INReady_def using assms(1) by (intro iterate_hangs [of "\<lambda>_. True"]) (auto simp: ep_io)
  then show "USB_Device_SetAddress w s = None"
    by (simp add: USB_Device_SetAddress_def Let_def split: bind_splits)
qed

theorem set_address_hangs_after_detach_witness:
  "USB_Device_SetAddress \<lparr>dev = (\<lambda>h r. 0), irq = (\<lambda>h. Some DEVICE_STATE_Unattached), sig_row = (\<lambda>a. 0)\<rparr> usb_init = None"
  by (rule set_address_hangs_after_detach [THEN conjunct2]) (simp_all add: has_def usb_init_def)

subsection \<open>Choosing the configuration\<close>

lemma ClearSETUP_eq:
  "Endpoint_ClearSETUP w s = s\<lparr>io := io s @ [Rd UEINTX (dev w (io s) UEINTX), Wr UEINTX (dev w (io s) UEINTX AND NOT (bv RXSTPI))]\<rparr>"
  by (simp add: ep_io)



subsection \<open>Short replies and features\<close>

lemma ClearStatusStage_returns_OUT:
  assumes "flag_comes w RXOUTI" and "USB_DeviceState s \<noteq> DEVICE_STATE_Unattached"
    and "has (bmRequestType (USB_ControlRequest s)) REQDIR_DEVICETOHOST"
  shows "\<exists>t v. Endpoint_ClearStatusStage w s = Some (s\<lparr>io := io s @ t @
      [Rd UEINTX v, Wr UEINTX (v AND NOT (bv RXOUTI OR bv FIFOCON))]\<rparr>) \<and> list_all is_read t \<and> saw w (io s) RXOUTI t"
proof -
  obtain t where "wait_flag RXOUTI w s = Some (True, s\<lparr>io := io s @ t\<rparr>)" "list_all is_read t" "saw w (io s) RXOUTI t"
    using wait_flag_returns [OF assms(1,2)] by blast
  then show ?thesis using assms(3)
    by (intro exI [of _ t] exI [of _ "dev w (io s @ t) UEINTX"]) (simp add: Endpoint_ClearStatusStage_def wait_flag_eqs ep_io)
qed

text \<open>A reply of a few bytes: acknowledge the request, write the bytes, hand the bank over and wait for the
  status packet of the host.\<close>

definition put_bytes :: "u8 list \<Rightarrow> 'a usb_scheme \<Rightarrow> 'a usb_scheme" where
  "put_bytes xs s = s\<lparr>io := io s @ map (Wr UEDATX) xs\<rparr>"

lemma short_reply:
  assumes "flag_comes w RXOUTI" and "USB_DeviceState s \<noteq> DEVICE_STATE_Unattached"
    and "has (bmRequestType (USB_ControlRequest s)) REQDIR_DEVICETOHOST"
  shows "\<exists>t. Endpoint_ClearStatusStage w (Endpoint_ClearIN w (put_bytes xs (Endpoint_ClearSETUP w s))) = Some (s\<lparr>io := io s @ t\<rparr>) \<and>
    packets [] t = [[], xs, []] \<and> writes UENUM t = []"
proof -
  define v where "v = dev w (io s) UEINTX"
  define h where "h = [Rd UEINTX v, Wr UEINTX (v AND NOT (bv RXSTPI))] @ map (Wr UEDATX) xs"
  define c where "c = dev w (io s @ h) UEINTX"
  define h2 where "h2 = h @ [Rd UEINTX c, Wr UEINTX (c AND NOT (bv TXINI OR bv FIFOCON))]"
  let ?s2 = "s\<lparr>io := io s @ h2\<rparr>"
  have s2: "Endpoint_ClearIN w (put_bytes xs (Endpoint_ClearSETUP w s)) = ?s2"
    by (simp add: ep_io put_bytes_def h2_def h_def v_def c_def)
  obtain t d where t: "Endpoint_ClearStatusStage w ?s2 = Some (?s2\<lparr>io := io ?s2 @ t @
      [Rd UEINTX d, Wr UEINTX (d AND NOT (bv RXOUTI OR bv FIFOCON))]\<rparr>)" "list_all is_read t"
    using ClearStatusStage_returns_OUT [OF assms(1), of ?s2] assms(2,3) by auto
  show ?thesis unfolding s2 t(1)
    by (rule exI [of _ "h2 @ t @ [Rd UEINTX d, Wr UEINTX (d AND NOT (bv RXOUTI OR bv FIFOCON))]"]) (simp add: h2_def h_def t(2))
qed

lemma put_bytes_eqs: "Endpoint_Write_8 x s = put_bytes [x] s" "Endpoint_Write_16_LE y s = put_bytes (le16 y) s"
  by (simp_all add: put_bytes_def ep_io Endpoint_Write_16_LE_def le16_def)

lemma le16_ucast: "le16 (ucast (x :: u8)) = [x, 0]"
proof -
  have "lo8 (ucast x) = x" by (rule bit_word_eqI) (auto simp: lo8_def byte_bits)
  moreover have "hi8 (ucast x) = 0" by (rule bit_word_eqI) (auto simp: hi8_def byte_bits)
  ultimately show ?thesis by (simp add: le16_def)
qed

lemma writes_sel: "writes UENUM t = [] \<Longrightarrow> ep_sel e t = e"
  by (induction e t rule: ep_sel.induct) (auto split: if_splits)

text \<open>The short replies are right and complete. With a host that finishes the transfer, the handlers return
  and send: the selected configuration; for the device, two bytes with the self-powered and the remote wakeup
  bit; for an endpoint, two bytes with the halt bit read from that endpoint's register. No variable
  changes and the control endpoint is selected at the end.\<close>

theorem standard_replies:
  assumes "flag_comes w RXOUTI" and "USB_DeviceState s \<noteq> DEVICE_STATE_Unattached"
    and "has (bmRequestType (USB_ControlRequest s)) REQDIR_DEVICETOHOST" and "e = lo8 (wIndex (USB_ControlRequest s)) AND 0x0F"
  shows "(\<exists>t. USB_Device_GetConfiguration w s = Some (s\<lparr>io := io s @ t\<rparr>) \<and>
      concat (packets [] t) = [USB_Device_ConfigurationNumber s] \<and> ep_sel 0 t = 0) \<and>
    (bmRequestType (USB_ControlRequest s) = 0x80 \<longrightarrow> (\<exists>t. USB_Device_GetStatus w s = Some (s\<lparr>io := io s @ t\<rparr>) \<and>
      concat (packets [] t) = [(if USB_Device_CurrentlySelfPowered s then 1 else 0) OR (if USB_Device_RemoteWakeupEnabled s then 2 else 0), 0] \<and>
      ep_sel 0 t = 0)) \<and>
    (bmRequestType (USB_ControlRequest s) = 0x82 \<and> unat e < 5 \<longrightarrow> (\<exists>t. USB_Device_GetStatus w s = Some (s\<lparr>io := io s @ t\<rparr>) \<and>
      concat (packets [] t) = [if has (dev w (io s @ [Wr UENUM e]) UECONX) (bv STALLRQ) then 1 else 0, 0] \<and> ep_sel 0 t = 0))"
proof (intro conjI impI)
  show "\<exists>t. USB_Device_GetConfiguration w s = Some (s\<lparr>io := io s @ t\<rparr>) \<and>
      concat (packets [] t) = [USB_Device_ConfigurationNumber s] \<and> ep_sel 0 t = 0"
    using short_reply [OF assms(1-3), of "[USB_Device_ConfigurationNumber s]"]
    by (auto simp: USB_Device_GetConfiguration_def put_bytes_eqs ClearSETUP_eq Let_def writes_sel)
  show "\<exists>t. USB_Device_GetStatus w s = Some (s\<lparr>io := io s @ t\<rparr>) \<and>
      concat (packets [] t) = [(if USB_Device_CurrentlySelfPowered s then 1 else 0) OR (if USB_Device_RemoteWakeupEnabled s then 2 else 0), 0] \<and>
      ep_sel 0 t = 0" if "bmRequestType (USB_ControlRequest s) = 0x80"
  proof -
    let ?x = "(if USB_Device_CurrentlySelfPowered s then FEATURE_SELFPOWERED_ENABLED else 0) OR
      (if USB_Device_RemoteWakeupEnabled s then FEATURE_REMOTE_WAKEUP_ENABLED else 0)"
    have "USB_Device_GetStatus w s = Endpoint_ClearStatusStage w (Endpoint_ClearIN w (put_bytes [?x, 0] (Endpoint_ClearSETUP w s)))"
      using that by (simp add: USB_Device_GetStatus_def request_types put_bytes_eqs le16_ucast Let_def)
    moreover have "?x = (if USB_Device_CurrentlySelfPowered s then 1 else 0) OR (if USB_Device_RemoteWakeupEnabled s then 2 else 0)"
      by (simp add: FEATURE_SELFPOWERED_ENABLED_def FEATURE_REMOTE_WAKEUP_ENABLED_def bv_def)
    ultimately show ?thesis using short_reply [OF assms(1-3), of "[?x, 0]"] by (auto simp: writes_sel)
  qed
  show "\<exists>t. USB_Device_GetStatus w s = Some (s\<lparr>io := io s @ t\<rparr>) \<and>
      concat (packets [] t) = [if has (dev w (io s @ [Wr UENUM e]) UECONX) (bv STALLRQ) then 1 else 0, 0] \<and> ep_sel 0 t = 0"
    if "bmRequestType (USB_ControlRequest s) = 0x82 \<and> unat e < 5"
  proof -
    define c where "c = dev w (io s @ [Wr UENUM e]) UECONX"
    define h where "h = [Wr UENUM e, Rd UECONX c, Wr UENUM 0]"
    let ?s1 = "s\<lparr>io := io s @ h\<rparr>"
    let ?x = "if has c (bv STALLRQ) then 1 else 0"
    have mask: "e AND ENDPOINT_EPNUM_MASK = e" by (simp add: assms(4) ENDPOINT_EPNUM_MASK_def)
    obtain s0 where "Endpoint_IsStalled w (Endpoint_SelectEndpoint e s) = (has c (bv STALLRQ), s0)"
      "Endpoint_SelectEndpoint ENDPOINT_CONTROLEP s0 = ?s1"
      by (simp add: ep_io mask h_def c_def ENDPOINT_CONTROLEP_def)
    then have "USB_Device_GetStatus w s = Endpoint_ClearStatusStage w (Endpoint_ClearIN w (put_bytes [?x, 0] (Endpoint_ClearSETUP w ?s1)))"
      using that le16_ucast [of 0] le16_ucast [of 1]
      by (simp add: USB_Device_GetStatus_def request_types put_bytes_eqs Let_def ENDPOINT_EPNUM_MASK_def ENDPOINT_TOTAL_ENDPOINTS_def
          flip: assms(4))
    moreover obtain t where "Endpoint_ClearStatusStage w (Endpoint_ClearIN w (put_bytes [?x, 0] (Endpoint_ClearSETUP w ?s1))) =
        Some (?s1\<lparr>io := io ?s1 @ t\<rparr>)" "packets [] t = [[], [?x, 0], []]" "writes UENUM t = []"
      using short_reply [OF assms(1), of ?s1 "[?x, 0]"] assms(2,3) by auto
    ultimately show ?thesis by (intro exI [of _ "h @ t"]) (simp add: h_def c_def writes_sel)
  qed
qed

theorem standard_replies_witness:
  "\<exists>t. USB_Device_GetStatus (const_world (\<lambda>r. 0x24))
      (requested \<lparr>bmRequestType = 0x82, bRequest = 0, wValue = 0, wIndex = 0x81, wLength = 2\<rparr>) =
    Some ((requested \<lparr>bmRequestType = 0x82, bRequest = 0, wValue = 0, wIndex = 0x81, wLength = 2\<rparr>)\<lparr>io := t\<rparr>) \<and>
    concat (packets [] t) = [1, 0]"
proof -
  let ?s = "requested \<lparr>bmRequestType = 0x82, bRequest = 0, wValue = 0, wIndex = 0x81, wLength = 2\<rparr>"
  have "has 0x24 (bv RXOUTI)" by (simp add: has_def bv_def)
  then have 1: "flag_comes (const_world (\<lambda>r. 0x24)) RXOUTI" by (rule flag_comes_const)
  have 2: "USB_DeviceState ?s \<noteq> DEVICE_STATE_Unattached" by simp
  have 3: "has (bmRequestType (USB_ControlRequest ?s)) REQDIR_DEVICETOHOST" by (simp add: has_def REQDIR_DEVICETOHOST_def)
  have 4: "1 = lo8 (wIndex (USB_ControlRequest ?s)) AND 0x0F" by (simp add: lo8_def)
  have "has 0x24 (bv STALLRQ)" by (simp add: has_def bv_def)
  then show ?thesis using standard_replies [OF 1 2 3 4] by auto
qed

lemma acknowledge_returns:
  assumes "flag_comes w TXINI" and "USB_DeviceState s \<noteq> DEVICE_STATE_Unattached"
    and "\<not> has (bmRequestType (USB_ControlRequest s)) REQDIR_DEVICETOHOST"
  shows "\<exists>t a b. Endpoint_ClearStatusStage w (Endpoint_ClearSETUP w s) = Some (s\<lparr>io := io s @ t\<rparr>) \<and>
    ep_writes e t = [(e, UEINTX, a), (e, UEINTX, b)] \<and> ep_sel e t = e"
proof -
  define v where "v = dev w (io s) UEINTX"
  define h where "h = [Rd UEINTX v, Wr UEINTX (v AND NOT (bv RXSTPI))]"
  let ?s1 = "s\<lparr>io := io s @ h\<rparr>"
  obtain t c where "Endpoint_ClearStatusStage w ?s1 = Some (?s1\<lparr>io := io ?s1 @ t @
      [Rd UEINTX c, Wr UEINTX (c AND NOT (bv TXINI OR bv FIFOCON))]\<rparr>)" "list_all is_read t"
    using ClearStatusStage_returns [OF assms(1), of ?s1] assms(2,3) by auto
  then show ?thesis
    by (intro exI [of _ "h @ t @ [Rd UEINTX c, Wr UEINTX (c AND NOT (bv TXINI OR bv FIFOCON))]"])
      (simp add: ClearSETUP_eq h_def v_def)
qed

text \<open>The writes to the registers of endpoint \<open>e\<close> that set or clear its halt feature.\<close>

definition halt_writes :: "bool \<Rightarrow> u8 \<Rightarrow> u8 \<Rightarrow> u8 \<Rightarrow> (u8 \<times> reg \<times> u8) list" where
  "halt_writes halt e c d =
     (if halt then [(e, UECONX, c OR bv STALLRQ)]
      else [(e, UECONX, c OR bv STALLRQC), (e, UERST, bv (unat e)), (e, UERST, 0), (e, UECONX, d OR bv RSTDT)])"

lemma feature_branches:
  assumes "req = USB_ControlRequest s" and "e = lo8 (wIndex req) AND 0x0F"
  shows "bmRequestType req = 0 \<Longrightarrow> lo8 (wValue req) = 1 \<Longrightarrow> USB_Device_ClearSetFeature w s =
      Endpoint_ClearStatusStage w (Endpoint_ClearSETUP w (s\<lparr>USB_Device_RemoteWakeupEnabled := bRequest req = 3, io := io s @ [Wr UENUM 0]\<rparr>))"
    and "bmRequestType req = 2 \<Longrightarrow> lo8 (wValue req) \<noteq> 0 \<Longrightarrow> USB_Device_ClearSetFeature w s =
      Endpoint_ClearStatusStage w (Endpoint_ClearSETUP w (s\<lparr>io := io s @ [Wr UENUM 0]\<rparr>))"
    and "bmRequestType req = 2 \<Longrightarrow> lo8 (wValue req) = 0 \<Longrightarrow> e \<noteq> 0 \<Longrightarrow> unat e < 5 \<Longrightarrow>
      \<exists>t c d. USB_Device_ClearSetFeature w s = Endpoint_ClearStatusStage w (Endpoint_ClearSETUP w (s\<lparr>io := io s @ t @ [Wr UENUM 0]\<rparr>)) \<and>
        ep_writes 0 t = (if has (dev w (io s @ [Wr UENUM e]) UECONX) (bv EPEN) then halt_writes (bRequest req = 3) e c d else [])"
proof -
  note defs = USB_Device_ClearSetFeature_def request_defs FEATURE_SEL_EndpointHalt_def FEATURE_SEL_DeviceRemoteWakeup_def
    endpoint_consts ep_io Let_def
  show "bmRequestType req = 0 \<Longrightarrow> lo8 (wValue req) = 1 \<Longrightarrow> USB_Device_ClearSetFeature w s =
      Endpoint_ClearStatusStage w (Endpoint_ClearSETUP w (s\<lparr>USB_Device_RemoteWakeupEnabled := bRequest req = 3, io := io s @ [Wr UENUM 0]\<rparr>))"
    using assms(1) by (simp add: defs)
  show "bmRequestType req = 2 \<Longrightarrow> lo8 (wValue req) \<noteq> 0 \<Longrightarrow> USB_Device_ClearSetFeature w s =
      Endpoint_ClearStatusStage w (Endpoint_ClearSETUP w (s\<lparr>io := io s @ [Wr UENUM 0]\<rparr>))"
    using assms(1) by (simp add: defs)
  assume r: "bmRequestType req = 2" "lo8 (wValue req) = 0" "e \<noteq> 0" "unat e < 5"
  have mask: "e AND ENDPOINT_EPNUM_MASK = e" by (simp add: assms(2) ENDPOINT_EPNUM_MASK_def)
  let ?s1 = "Endpoint_SelectEndpoint e s"
  obtain b s2 where s2: "Endpoint_IsEnabled w ?s1 = (b, s2)" by fastforce
  then have b: "b = has (dev w (io s @ [Wr UENUM e]) UECONX) (bv EPEN)"
    and io2: "s2 = s\<lparr>io := io s @ [Wr UENUM e, Rd UECONX (dev w (io s @ [Wr UENUM e]) UECONX)]\<rparr>"
    using mask by (simp_all add: ep_io)
  let ?s3 = "if \<not> b then s2 else if bRequest req = 3 then Endpoint_StallTransaction w s2
    else Endpoint_ResetDataToggle w (Endpoint_ResetEndpoint e (Endpoint_ClearStall w s2))"
  have run: "USB_Device_ClearSetFeature w s = Endpoint_ClearStatusStage w (Endpoint_ClearSETUP w (Endpoint_SelectEndpoint ENDPOINT_CONTROLEP ?s3))"
    using r s2 assms by (simp add: USB_Device_ClearSetFeature_def request_defs FEATURE_SEL_EndpointHalt_def endpoint_consts Let_def)
  have "\<exists>t c d. ?s3 = s\<lparr>io := io s @ t\<rparr> \<and> ep_writes 0 t = (if b then halt_writes (bRequest req = 3) e c d else [])"
    using mask io2 by (auto simp: ep_io halt_writes_def) (rule exI, rule conjI, rule refl, auto)+
  then obtain t c d where "?s3 = s\<lparr>io := io s @ t\<rparr>" "ep_writes 0 t = (if b then halt_writes (bRequest req = 3) e c d else [])"
    by blast
  then show "\<exists>t c d. USB_Device_ClearSetFeature w s = Endpoint_ClearStatusStage w (Endpoint_ClearSETUP w (s\<lparr>io := io s @ t @ [Wr UENUM 0]\<rparr>)) \<and>
        ep_writes 0 t = (if has (dev w (io s @ [Wr UENUM e]) UECONX) (bv EPEN) then halt_writes (bRequest req = 3) e c d else [])"
    unfolding run b [symmetric] by (intro exI [of _ t] exI [of _ c] exI [of _ d]) (simp add: ep_io endpoint_consts)
qed



subsection \<open>The serial number\<close>

text \<open>The value of a hexadecimal digit in UTF-16.\<close>

definition hex_digit :: "u8 \<Rightarrow> u16" where
  "hex_digit n = (if n \<ge> 10 then 0x37 + ucast n else 0x30 + ucast n)"

lemma serial_loop_digits:
  "serial_loop sig (2 * n) (2 * k) a =
     concat (map (\<lambda>i. [hex_digit (sig (a + of_nat i) AND 0xF), hex_digit (drop_bit 4 (sig (a + of_nat i)) AND 0xF)]) [0..<n])"
proof (induction n arbitrary: k a)
  case (Suc n)
  have "serial_loop sig (2 * Suc n) (2 * k) a =
      [hex_digit (sig a AND 0xF), hex_digit (drop_bit 4 (sig a) AND 0xF)] @ serial_loop sig (2 * n) (2 * Suc k) (a + 1)"
    by (simp add: hex_digit_def Let_def)
  also have "serial_loop sig (2 * n) (2 * Suc k) (a + 1) =
      concat (map (\<lambda>i. [hex_digit (sig (a + of_nat (Suc i)) AND 0xF), hex_digit (drop_bit 4 (sig (a + of_nat (Suc i))) AND 0xF)]) [0..<n])"
    unfolding Suc.IH by (simp add: ac_simps)
  finally have *: "serial_loop sig (2 * Suc n) (2 * k) a =
      [hex_digit (sig a AND 0xF), hex_digit (drop_bit 4 (sig a) AND 0xF)] @
      concat (map (\<lambda>i. [hex_digit (sig (a + of_nat (Suc i)) AND 0xF), hex_digit (drop_bit 4 (sig (a + of_nat (Suc i))) AND 0xF)]) [0..<n])" .
  have "[0..<Suc n] = 0 # map Suc [0..<n]" by (simp add: upt_conv_Cons map_Suc_upt del: upt_Suc)
  then show ?case unfolding * by (simp add: comp_def del: upt_Suc)
qed simp

lemma hex_digit_inject: "hex_digit n = hex_digit m \<longleftrightarrow> n = m"
proof -
  have "hex_digit n = of_nat (if 10 \<le> unat n then 0x37 + unat n else 0x30 + unat n)" for n
    unfolding hex_digit_def ucast_u16_of_nat [OF refl, of n] by (simp add: word_le_nat_alt)
  moreover have "55 + unat n < 65536" "48 + unat n < 65536" for n :: u8 using unat_u8_lt [of n] by linarith+
  ultimately have "unat (hex_digit n) = (if 10 \<le> unat n then 0x37 + unat n else 0x30 + unat n)" for n
    by (simp add: unat_of_nat_u16 del: of_nat_add)
  from this [of n] this [of m] show ?thesis by (auto simp: word_unat_eq_iff split: if_splits)
qed

lemma nibbles_eq:
  fixes x y :: u8
  assumes "x AND 0xF = y AND 0xF" and "drop_bit 4 x AND 0xF = drop_bit 4 y AND 0xF"
  shows "x = y"
proof (rule bit_word_eqI)
  fix n
  assume "n < LENGTH(8)"
  have m: "(0xF :: u8) = mask 4" by (simp add: mask_eq_exp_minus_1)
  have lo: "bit x n = bit y n" if "n < 4" for n
    using arg_cong [OF assms(1), of "\<lambda>z. bit z n"] that unfolding m by (auto simp: bit_simps)
  have hi: "bit x (4 + n) = bit y (4 + n)" if "n < 4" for n
    using arg_cong [OF assms(2), of "\<lambda>z. bit z n"] that unfolding m by (auto simp: bit_simps)
  show "bit x n = bit y n" using lo [of n] hi [of "n - 4"] \<open>n < LENGTH(8)\<close> by (cases "n < 4") auto
qed

lemma concat_pairs_inject:
  "concat (map (\<lambda>i. [a i, b i]) xs) = concat (map (\<lambda>i. [a' i, b' i]) xs) \<Longrightarrow> i \<in> set xs \<Longrightarrow> a i = a' i \<and> b i = b' i"
  by (induction xs) auto

text \<open>The serial number string is the ten signature bytes from \<open>0x0E\<close> on in hexadecimal, each byte as two
  digits, the low one first, and the descriptor around it announces its own length of 42 bytes. So
  two controllers with different signature bytes have different serial numbers.\<close>

theorem serial_string_correct:
  "USB_Device_GetSerialString w =
     concat (map (\<lambda>i. [hex_digit (sig_row w (0x0E + of_nat i) AND 0xF), hex_digit (drop_bit 4 (sig_row w (0x0E + of_nat i)) AND 0xF)]) [0..<10]) \<and>
   length (SignatureDescriptor w) = 42 \<and> take 2 (SignatureDescriptor w) = [42, DTYPE_String] \<and>
   (USB_Device_GetSerialString w = USB_Device_GetSerialString w' \<longrightarrow> (\<forall>i < 10. sig_row w (0x0E + of_nat i) = sig_row w' (0x0E + of_nat i)))"
proof (intro conjI impI allI)
  show str: "USB_Device_GetSerialString w =
     concat (map (\<lambda>i. [hex_digit (sig_row w (0x0E + of_nat i) AND 0xF), hex_digit (drop_bit 4 (sig_row w (0x0E + of_nat i)) AND 0xF)]) [0..<10])" for w
    using serial_loop_digits [of "sig_row w" 10 0 "0x0E"]
    by (simp add: USB_Device_GetSerialString_def INTERNAL_SERIAL_LENGTH_BITS_def INTERNAL_SERIAL_START_ADDRESS_def
        del: upt_rec_numeral)
  show "length (SignatureDescriptor w) = 42"
    by (simp add: SignatureDescriptor_def str bytes_of_Header_def length_concat comp_def sum_list_replicate map_replicate_const)
  show "take 2 (SignatureDescriptor w) = [42, DTYPE_String]"
    by (simp add: SignatureDescriptor_def bytes_of_Header_def INTERNAL_SERIAL_LENGTH_BITS_def)
  fix i :: nat
  assume "USB_Device_GetSerialString w = USB_Device_GetSerialString w'" and "i < 10"
  from concat_pairs_inject [OF this(1) [unfolded str], of i] this(2)
  have "hex_digit (sig_row w (0x0E + of_nat i) AND 0xF) = hex_digit (sig_row w' (0x0E + of_nat i) AND 0xF)"
    "hex_digit (drop_bit 4 (sig_row w (0x0E + of_nat i)) AND 0xF) = hex_digit (drop_bit 4 (sig_row w' (0x0E + of_nat i)) AND 0xF)"
    unfolding set_upt by simp_all
  then show "sig_row w (0x0E + of_nat i) = sig_row w' (0x0E + of_nat i)"
    unfolding hex_digit_inject by (rule nibbles_eq)
qed

theorem serial_string_correct_witness:
  "length (SignatureDescriptor (const_world (\<lambda>r. 0))) = 42 \<and>
   sig_row (const_world (\<lambda>r. 0)) (0x0E + of_nat 3) = sig_row (const_world (\<lambda>r. 1)) (0x0E + of_nat 3)"
proof -
  have "USB_Device_GetSerialString (const_world (\<lambda>r. 0)) = USB_Device_GetSerialString (const_world (\<lambda>r. 1))"
    by (simp only: USB_Device_GetSerialString_def const_world_def world.simps)
  moreover have "(3 :: nat) < 10" by simp
  ultimately show ?thesis using serial_string_correct [of "const_world (\<lambda>r. 0)" "const_world (\<lambda>r. 1)"] by blast
qed

subsection \<open>Reading a descriptor\<close>

text \<open>The bytes of a request on the bus, and a host that sends the request \<open>req\<close> and then reads the answer. After the
  history \<open>h\<close>, with the control endpoint selected: as long as the firmware only reads registers, there is no
  interrupt, the flag for a request stays set and the data register delivers the header byte by byte;
  and when the firmware has acknowledged the request, the host reads \<open>wLength\<close> bytes.\<close>

definition header_bytes :: "USB_Request_Header_t \<Rightarrow> u8 list" where
  "header_bytes h = [bmRequestType h, bRequest h] @ le16 (wValue h) @ le16 (wIndex h) @ le16 (wLength h)"

definition request_host :: "world \<Rightarrow> history \<Rightarrow> USB_Request_Header_t \<Rightarrow> bool" where
  "request_host w h req \<longleftrightarrow>
     (\<forall>t. list_all is_read t \<longrightarrow> irq w (h @ t) = None \<and> has (dev w (h @ t) UEINTX) (bv RXSTPI) \<and>
        (length (reads UEDATX t) < 8 \<longrightarrow> dev w (h @ t) UEDATX = header_bytes req ! length (reads UEDATX t))) \<and>
     (\<forall>t v. list_all is_read t \<and> \<not> has v (bv RXSTPI) \<longrightarrow>
        bank_counts w (h @ t @ [Wr UEINTX v]) \<and> control_host w (h @ t @ [Wr UEINTX v]) (unat (wLength req)))"

lemma length_header_bytes [simp]: "length (header_bytes h) = 8"
  by (simp add: header_bytes_def)

lemma header_of_header_bytes: "header_of_bytes (header_bytes h) = h"
  by (simp add: header_of_bytes_def header_bytes_def le16_def)

lemma header_loop_request:
  assumes "request_host w h req" and "io s = h @ t" and "list_all is_read t" and "length (reads UEDATX t) + n = 8"
  shows "\<exists>t'. header_loop w n s = (drop (8 - n) (header_bytes req), s\<lparr>io := h @ t'\<rparr>) \<and> list_all is_read t'"
  using assms(2-4)
proof (induction n arbitrary: s t)
  case 0
  then show ?case by (intro exI [of _ t]) simp
next
  case (Suc n)
  let ?b = "header_bytes req ! (8 - Suc n)"
  have len: "length (reads UEDATX t) = 8 - Suc n" "Suc n \<le> 8" using Suc.prems(3) by linarith+
  then have b: "dev w (io s) UEDATX = ?b"
    using assms(1) Suc.prems(1,2) unfolding request_host_def by auto
  let ?s1 = "s\<lparr>io := h @ t @ [Rd UEDATX ?b]\<rparr>"
  have s1: "Endpoint_Read_8 w s = (?b, ?s1)" using b Suc.prems(1) by (simp add: ep_io)
  obtain t' where t': "header_loop w n ?s1 = (drop (8 - n) (header_bytes req), ?s1\<lparr>io := h @ t'\<rparr>)" "list_all is_read t'"
    using Suc.IH [of ?s1 "t @ [Rd UEDATX ?b]"] Suc.prems by auto
  have "drop (8 - Suc n) (header_bytes req) = ?b # drop (8 - n) (header_bytes req)"
    using len(2) Cons_nth_drop_Suc [of "8 - Suc n" "header_bytes req"] Suc_diff_Suc [of n 8] by simp
  then show ?case using s1 t' by (intro exI [of _ t']) simp
qed

text \<open>The bytes the device has for a descriptor request.\<close>

definition descriptor_of :: "world \<Rightarrow> USB_Request_Header_t \<Rightarrow> u8 list" where
  "descriptor_of w req =
     (if wValue req = 0x03DC then SignatureDescriptor w
      else let (sz, p) = CALLBACK_USB_GetDescriptor (wValue req) (wIndex req) in take (unat sz) (flash_at p))"

lemma GetDescriptor_bounds:
  "CALLBACK_USB_GetDescriptor val ind = (sz, p) \<Longrightarrow> unat sz \<le> length (flash_at p)"
  by (auto simp: CALLBACK_USB_GetDescriptor_def Let_def dtype_defs string_id_defs string_lengths
      DeviceDescriptor_bytes ConfigurationDescriptor_bytes sizeof_JoystickReport split: if_splits)

lemma length_SignatureDescriptor: "length (SignatureDescriptor w) = 42"
proof -
  have "length (serial_loop sig n k a) = n" for sig n k a
    by (induction n arbitrary: k a) (simp_all add: Let_def)
  moreover have "length (concat (map le16 xs)) = 2 * length xs" for xs
    by (induction xs) simp_all
  ultimately show ?thesis
    by (simp add: SignatureDescriptor_def bytes_of_Header_def USB_Device_GetSerialString_def INTERNAL_SERIAL_LENGTH_BITS_def)
qed

lemma object_reply:
  assumes "L \<le> length bs" and "L < 65536"
  shows "map (\<lambda>k. object_mem bs (pos_LE 0 k)) [0..<min L n] = take n (take L bs)"
  using assms by (intro nth_equalityI) (auto simp: object_mem_def pos_LE_def unat_of_nat_u16)

lemma GetDescriptor_reply:
  assumes "descriptor_of w (USB_ControlRequest s) \<noteq> []"
  shows "\<exists>byte Length. USB_Device_GetDescriptor w s =
      do { (c, s) \<leftarrow> Control_W w byte Length (Endpoint_ClearSETUP w s); Some (Endpoint_ClearOUT w s) } \<and>
    (\<forall>n. map byte [0..<min (unat Length) n] = take n (descriptor_of w (USB_ControlRequest s)))"
proof (cases "wValue (USB_ControlRequest s) = 0x03DC")
  case True
  let ?D = "SignatureDescriptor w"
  show ?thesis
  proof (intro exI conjI allI)
    show "USB_Device_GetDescriptor w s = do {
        (c, s) \<leftarrow> Control_W w (\<lambda>k. object_mem ?D (pos_LE 0 k)) (of_nat (length ?D)) (Endpoint_ClearSETUP w s); Some (Endpoint_ClearOUT w s) }"
      using True by (simp add: USB_Device_GetDescriptor_def serial_wValue USB_Device_GetInternalSerialDescriptor_def
          Endpoint_Write_Control_Stream_LE_def)
    show "map (\<lambda>k. object_mem ?D (pos_LE 0 k)) [0..<min (unat (of_nat (length ?D) :: u16)) n] =
        take n (descriptor_of w (USB_ControlRequest s))" for n
      using True object_reply [of 42 ?D n] by (simp add: descriptor_of_def length_SignatureDescriptor)
  qed
next
  case False
  obtain sz p where c: "CALLBACK_USB_GetDescriptor (wValue (USB_ControlRequest s)) (wIndex (USB_ControlRequest s)) = (sz, p)"
    by fastforce
  have "sz \<noteq> 0" using assms False c by (auto simp: descriptor_of_def)
  show ?thesis
  proof (intro exI conjI allI)
    show "USB_Device_GetDescriptor w s = do {
        (c, s) \<leftarrow> Control_W w (\<lambda>k. object_mem (flash_at p) (pos_LE 0 k)) sz (Endpoint_ClearSETUP w s); Some (Endpoint_ClearOUT w s) }"
      using False c \<open>sz \<noteq> 0\<close> by (simp add: USB_Device_GetDescriptor_def serial_wValue NO_DESCRIPTOR_def
          Endpoint_Write_Control_PStream_LE_def Endpoint_Write_Control_Stream_LE_def)
    show "map (\<lambda>k. object_mem (flash_at p) (pos_LE 0 k)) [0..<min (unat sz) n] = take n (descriptor_of w (USB_ControlRequest s))" for n
      using False c object_reply [OF GetDescriptor_bounds [OF c] unat_u16_lt, of n] by (simp add: descriptor_of_def)
  qed
qed

lemma GetDescriptor_returns:
  assumes "descriptor_of w (USB_ControlRequest s) \<noteq> []" and "attached s"
    and "h = io s @ [Rd UEINTX v, Wr UEINTX (v AND NOT (bv RXSTPI))]" and "v = dev w (io s) UEINTX"
    and "bank_counts w h" and "control_host w h (unat (wLength (USB_ControlRequest s)))"
  shows "\<exists>t. USB_Device_GetDescriptor w s = Some (s\<lparr>io := h @ t\<rparr>) \<and> writes UENUM t = [] \<and> bank_fill [] t = [] \<and>
    concat (packets [] t) = take (unat (wLength (USB_ControlRequest s))) (descriptor_of w (USB_ControlRequest s))"
proof -
  let ?req = "USB_ControlRequest s"
  let ?s1 = "s\<lparr>io := h\<rparr>"
  obtain byte Length where run: "USB_Device_GetDescriptor w s =
      do { (c, s) \<leftarrow> Control_W w byte Length (Endpoint_ClearSETUP w s); Some (Endpoint_ClearOUT w s) }"
    and data: "\<And>n. map byte [0..<min (unat Length) n] = take n (descriptor_of w ?req)"
    using GetDescriptor_reply [OF assms(1)] by blast
  have s1: "Endpoint_ClearSETUP w s = ?s1" by (simp add: ClearSETUP_eq assms(3,4))
  obtain t where t: "Control_W w byte Length ?s1 = Some (ENDPOINT_RWCSTREAM_NoError, ?s1\<lparr>io := io ?s1 @ t\<rparr>)"
    "writes UENUM t = []" "bank_fill [] t = []" "prefix (packets [] t) (control_reply byte Length (wLength ?req))"
    "host_done (unat (wLength ?req)) (packets [] t)"
    using Control_W_runs [of w ?s1 byte Length] assms(2,5,6) by (auto simp: attached_def)
  have "concat (packets [] t) = take (unat (wLength ?req)) (descriptor_of w ?req)"
    using host_done_prefix [OF t(4,5)] data by simp
  moreover define c where "c = dev w (h @ t) UEINTX"
  moreover have "USB_Device_GetDescriptor w s = Some (s\<lparr>io := h @ (t @ [Rd UEINTX c, Wr UEINTX (c AND NOT (bv RXOUTI OR bv FIFOCON))])\<rparr>)"
    unfolding run s1 t(1) by (simp add: Endpoint_ClearOUT_def clear_mask_eq c_def)
  ultimately show ?thesis using t(2,3)
    by (intro exI [of _ "t @ [Rd UEINTX c, Wr UEINTX (c AND NOT (bv RXOUTI OR bv FIFOCON))]"]) simp
qed

text \<open>The history when the management task has selected the control endpoint.\<close>

definition select_history :: "world \<Rightarrow> history \<Rightarrow> history" where
  "select_history w h = rd_history w UECFG0X (rd_history w UENUM h) @ [Wr UENUM 0]"

lemma USBTask_GetDescriptor:
  fixes s :: "'a usb_scheme"
  assumes host: "request_host w (select_history w (io s)) req" and att: "irq w (io s) = None" "attached s"
    and req: "bRequest req = 6" "bmRequestType req = 0x80 \<or> bmRequestType req = 0x81" and D: "descriptor_of w req \<noteq> []"
    and app: "\<And>s :: 'a usb_scheme. USB_ControlRequest s = req \<Longrightarrow> ControlRequest_event app w s = Some s"
  shows "\<exists>t. USB_USBTask w app s = Some (s\<lparr>USB_ControlRequest := req, io := io s @ t\<rparr>) \<and>
    concat (packets [] t) = take (unat (wLength req)) (descriptor_of w req)"
proof -
  let ?h = "select_history w (io s)"
  let ?s0 = "s\<lparr>io := ?h\<rparr>"
  obtain p where s0: "Endpoint_GetCurrentEndpoint w s = (p, s\<lparr>io := rd_history w UECFG0X (rd_history w UENUM (io s))\<rparr>)"
    by (simp add: Endpoint_GetCurrentEndpoint_def Endpoint_GetEndpointDirection_def io_simps rd_history_def)
  have sel: "Endpoint_SelectEndpoint ENDPOINT_CONTROLEP (s\<lparr>io := rd_history w UECFG0X (rd_history w UENUM (io s))\<rparr>) = ?s0"
    by (simp add: ep_io endpoint_consts select_history_def)
  have poll: "Endpoint_IsSETUPReceived w (x\<lparr>io := ?h @ t\<rparr>) = (True, x\<lparr>io := ?h @ t @ [Rd UEINTX (dev w (?h @ t) UEINTX)]\<rparr>)"
    if "list_all is_read t" for t and x :: "'a usb_scheme"
    using host that by (simp add: request_host_def ep_io)
  let ?t1 = "[Rd UEINTX (dev w ?h UEINTX)]"
  let ?s1 = "s\<lparr>io := ?h @ ?t1\<rparr>"
  obtain t2 where t2: "header_loop w 8 ?s1 = (header_bytes req, ?s1\<lparr>io := ?h @ t2\<rparr>)" "list_all is_read t2"
    using header_loop_request [OF host, of ?s1 ?t1 8] by auto
  let ?s2 = "s\<lparr>USB_ControlRequest := req, io := ?h @ t2\<rparr>"
  define t3 where "t3 = t2 @ [Rd UEINTX (dev w (?h @ t2) UEINTX)]"
  let ?s3 = "s\<lparr>USB_ControlRequest := req, io := ?h @ t3\<rparr>"
  define v where "v = dev w (?h @ t3) UEINTX"
  define h4 where "h4 = ?h @ (t3 @ [Rd UEINTX v]) @ [Wr UEINTX (v AND NOT (bv RXSTPI))]"
  have "list_all is_read (t3 @ [Rd UEINTX v])" using t2(2) by (simp add: t3_def)
  then have host4: "bank_counts w h4" "control_host w h4 (unat (wLength req))"
    using host [unfolded request_host_def, THEN conjunct2, rule_format, of "t3 @ [Rd UEINTX v]" "v AND NOT (bv RXSTPI)"]
    unfolding h4_def by simp_all
  obtain t5 where t5: "USB_Device_GetDescriptor w ?s3 = Some (?s3\<lparr>io := h4 @ t5\<rparr>)" "writes UENUM t5 = []" "bank_fill [] t5 = []"
    "concat (packets [] t5) = take (unat (wLength req)) (descriptor_of w req)"
    using GetDescriptor_returns [of w ?s3 h4 v] host4 D att(2) by (auto simp: h4_def v_def attached_def)
  have std: "standard_request w app ?s3 = USB_Device_GetDescriptor w ?s3"
    using req by (auto simp: standard_request_def request_defs Let_def)
  obtain rank where "host_ok w h4 (unat (wLength req)) rank" using host4(2) by (auto simp: control_host_def)
  from host_okD(2) [OF this t5(2)] have no_setup: "\<not> has (dev w (h4 @ t5) UEINTX) (bv RXSTPI)" .
  have ctl: "USB_Device_ProcessControlRequest w app ?s1 =
      Some (s\<lparr>USB_ControlRequest := req, io := h4 @ t5 @ [Rd UEINTX (dev w (h4 @ t5) UEINTX)]\<rparr>)"
  proof -
    have swap: "s\<lparr>io := ?h @ t2, USB_ControlRequest := req\<rparr> = ?s2" by simp
    have first: "Endpoint_IsSETUPReceived w ?s2 = (True, ?s3)"
      using poll [OF t2(2), of "s\<lparr>USB_ControlRequest := req\<rparr>"] by (simp add: t3_def)
    have last: "Endpoint_IsSETUPReceived w (?s3\<lparr>io := h4 @ t5\<rparr>) =
        (False, s\<lparr>USB_ControlRequest := req, io := h4 @ t5 @ [Rd UEINTX (dev w (h4 @ t5) UEINTX)]\<rparr>)"
      using no_setup by (simp add: ep_io)
    show ?thesis using t2(1) app [of ?s2] first std t5(1) last
      by (simp add: USB_Device_ProcessControlRequest_def header_of_header_bytes swap)
  qed
  have "get_DeviceState w s = (USB_DeviceState s, s)" using att(1) by (simp add: get_DeviceState_def)
  then have "USB_USBTask w app s = Some (Endpoint_SelectEndpoint p
      (s\<lparr>USB_ControlRequest := req, io := h4 @ t5 @ [Rd UEINTX (dev w (h4 @ t5) UEINTX)]\<rparr>))"
    using att(2) s0 sel poll [of "[]" ?s0] ctl by (simp add: USB_USBTask_def USB_DeviceTask_def attached_def)
  then show ?thesis using t5 t2(2)
    by (auto simp: ep_io h4_def t3_def select_history_def rd_history_def intro!: exI)
qed

text \<open>A host that sends the request \<open>req\<close> after the history \<open>h0\<close> and, once the request is acknowledged, behaves like the
  prompt host of theory \<open>ControlTransfer\<close>.\<close>

definition answered :: "history \<Rightarrow> history" where
  "answered t = tl (dropWhile is_read t)"

definition asking_host :: "history \<Rightarrow> USB_Request_Header_t \<Rightarrow> world" where
  "asking_host h0 req =
     \<lparr>dev = (\<lambda>h r. let t = drop (length h0) h in
        if list_all is_read t
        then (if r = UEINTX then bv RXSTPI else if r = UEDATX then header_bytes req ! length (reads UEDATX t) else 0)
        else dev (prompt_host [] (unat (wLength req))) (answered t) r),
      irq = (\<lambda>h. None), sig_row = (\<lambda>a. 0)\<rparr>"

lemma answered_eq: "list_all is_read t \<Longrightarrow> answered (t @ Wr r v # t') = t'"
  by (induction t) (auto simp: answered_def)

lemma asking_host_answers:
  assumes "list_all is_read t"
  shows "dev (asking_host h0 req) (h0 @ t @ Wr r v # t') = dev (prompt_host [] (unat (wLength req))) t'"
  using assms by (simp add: asking_host_def answered_eq)

lemma asking_host_ok: "request_host (asking_host h0 req) h0 req"
  unfolding request_host_def
proof (intro conjI allI impI)
  let ?w = "asking_host h0 req"
  let ?P = "prompt_host [] (unat (wLength req))"
  fix t v
  assume "list_all is_read t \<and> \<not> has v (bv RXSTPI)"
  then have t: "list_all is_read t" by blast
  have d: "dev ?w (h0 @ t @ Wr UEINTX v # t') = dev ?P ([] @ t')" for t'
    using asking_host_answers [OF t] by simp
  show "bank_counts ?w (h0 @ t @ [Wr UEINTX v])"
    using prompt_host_counts [of "[]" "unat (wLength req)"] by (simp add: bank_counts_def d)
  have irq: "irq ?w h = None" for h by (simp add: asking_host_def)
  obtain rank where rank: "host_ok ?P [] (unat (wLength req)) rank"
    using prompt_host_ok [of "[]"] by (auto simp: control_host_def)
  have "host_ok ?w (h0 @ t @ [Wr UEINTX v]) (unat (wLength req)) (\<lambda>h. rank (drop (length h0 + length t + 1) h))"
    using rank by (simp add: host_ok_def d rd_history_def irq cong: if_cong)
  then show "control_host ?w (h0 @ t @ [Wr UEINTX v]) (unat (wLength req))" by (auto simp: control_host_def)
qed (simp_all add: asking_host_def has_def bv_def)

end
