(* ===== verification/ControlRead.thy ===== *)
theory ControlRead
  imports DeviceStandardReq
begin

text \<open>
  What reading from the control endpoint does (\<^verbatim>\<open>Template_Endpoint_Control_R.c\<close>): the bytes that come out of the
  data register go to the next positions of the buffer, in order and never behind its end.
\<close>

subsection \<open>Storing received bytes\<close>

fun store_from :: "(nat \<Rightarrow> u16) \<Rightarrow> nat \<Rightarrow> u8 list \<Rightarrow> mem \<Rightarrow> mem" where
  "store_from pos k [] m = m"
| "store_from pos k (b # bs) m = store_from pos (k + 1) bs (m(pos k := b))"

lemma store_from_append: "store_from pos k (xs @ ys) m = store_from pos (k + length xs) ys (store_from pos k xs m)"
  by (induction xs arbitrary: k m) simp_all

lemma store_from_other: "a \<notin> pos ` {k..<k + length bs} \<Longrightarrow> store_from pos k bs m a = m a"
proof (induction bs arbitrary: k m)
  case (Cons b bs)
  have "{k..<k + length (b # bs)} = insert k {k + 1..<k + 1 + length bs}" by auto
  then show ?case using Cons by simp
qed simp

lemma store_from_nth:
  assumes "inj_on pos {k..<k + length bs}" and "i < length bs"
  shows "store_from pos k bs m (pos (k + i)) = bs ! i"
  using assms
proof (induction bs arbitrary: k m i)
  case (Cons b bs)
  have set: "{k..<k + length (b # bs)} = insert k {k + 1..<k + 1 + length bs}" by auto
  have inj: "inj_on pos {k + 1..<k + 1 + length bs}" and new: "pos k \<notin> pos ` {k + 1..<k + 1 + length bs}"
    using Cons.prems(1) unfolding set by auto
  show ?case
  proof (cases i)
    case 0
    then show ?thesis using store_from_other [OF new] by simp
  next
    case (Suc j)
    then show ?thesis using Cons.IH [OF inj, of j] Cons.prems(2) by simp
  qed
qed simp

text \<open>\<open>fetched pos x x'\<close>: between the loop states \<open>x\<close> and \<open>x'\<close> the bytes read from the data register were stored at the
  next positions and counted, and only endpoint flags were written.\<close>

definition fetched :: "(nat \<Rightarrow> u16) \<Rightarrow> nat \<times> u16 \<times> mem \<times> 'a usb_scheme \<Rightarrow> nat \<times> u16 \<times> mem \<times> 'a usb_scheme \<Rightarrow> bool" where
  "fetched pos = (\<lambda>(k, L, m, s) (k', L', m', s'). \<exists>t st. s' = s\<lparr>io := io s @ t, USB_DeviceState := st\<rparr> \<and>
     (\<forall>r v. Wr r v \<in> set t \<longrightarrow> r = UEINTX) \<and> k' = k + length (reads UEDATX t) \<and>
     unat L = unat L' + length (reads UEDATX t) \<and> m' = store_from pos k (reads UEDATX t) m)"

lemma fetched_trans:
  assumes "fetched pos x y" and "fetched pos y z"
  shows "fetched pos x z"
proof -
  obtain k L m s k' L' m' s' k'' L'' m'' s'' where xyz: "x = (k, L, m, s)" "y = (k', L', m', s')" "z = (k'', L'', m'', s'')"
    by (metis prod_cases4)
  obtain t st t' st' where t: "s' = s\<lparr>io := io s @ t, USB_DeviceState := st\<rparr>" "\<forall>r v. Wr r v \<in> set t \<longrightarrow> r = UEINTX"
      "k' = k + length (reads UEDATX t)" "unat L = unat L' + length (reads UEDATX t)" "m' = store_from pos k (reads UEDATX t) m"
    and t': "s'' = s'\<lparr>io := io s' @ t', USB_DeviceState := st'\<rparr>" "\<forall>r v. Wr r v \<in> set t' \<longrightarrow> r = UEINTX"
      "k'' = k' + length (reads UEDATX t')" "unat L' = unat L'' + length (reads UEDATX t')" "m'' = store_from pos k' (reads UEDATX t') m'"
    using assms unfolding xyz fetched_def by auto
  show ?thesis unfolding xyz fetched_def prod.case
    using t t' by (intro exI [of _ "t @ t'"] exI [of _ st']) (auto simp: store_from_append)
qed

lemma fetched_quiet:
  assumes "s' = s\<lparr>io := io s @ t, USB_DeviceState := st\<rparr>" and "\<forall>r v. Wr r v \<in> set t \<longrightarrow> r = UEINTX" and "reads UEDATX t = []"
  shows "fetched pos (k, L, m, s) (k, L, m, s')"
  unfolding fetched_def using assms by (auto intro!: exI [of _ t])

lemma fetched_state:
  assumes "get_DeviceState w s = (st, s')"
  shows "fetched pos (k, L, m, s) (k, L, m, s')"
  using assms by (intro fetched_quiet [where t = "[]" and st = st]) (auto simp: get_DeviceState_eq)

lemma fetched_polls:
  "Endpoint_IsSETUPReceived w s = (b, s') \<Longrightarrow> fetched pos (k, L, m, s) (k, L, m, s')"
  "Endpoint_IsOUTReceived w s = (b, s') \<Longrightarrow> fetched pos (k, L, m, s) (k, L, m, s')"
  "Endpoint_IsINReady w s = (b, s') \<Longrightarrow> fetched pos (k, L, m, s) (k, L, m, s')"
  by (auto simp: ep_io intro!: fetched_quiet [where t = "[Rd UEINTX (dev w (io s) UEINTX)]" and st = "USB_DeviceState s"])

lemma fetched_count: "Endpoint_BytesInEndpoint w s = (n, s') \<Longrightarrow> fetched pos (k, L, m, s) (k, L, m, s')"
  by (auto simp: ep_io intro!: fetched_quiet [where t = "[Rd UEBCLX (dev w (io s) UEBCLX)]" and st = "USB_DeviceState s"])

lemma fetched_ClearOUT: "fetched pos (k, L, m, s) (k, L, m, Endpoint_ClearOUT w s)"
  by (auto simp: ep_io intro!: fetched_quiet [where t = "[Rd UEINTX v, Wr UEINTX v']" and st = "USB_DeviceState s" for v v'])

lemma fetched_refl: "fetched pos x x"
proof -
  obtain k L m s where "x = (k, L, m, s)" by (cases x)
  then show ?thesis using fetched_quiet [where t = "[]" and st = "USB_DeviceState s" and s = s] by simp
qed

lemma fetched_byte:
  assumes "transfer_read w pos k m s = (m', s')" and "L \<noteq> 0"
  shows "fetched pos (k, L, m, s) (k + 1, L - 1, m', s')"
proof -
  let ?b = "dev w (io s) UEDATX"
  have "s' = s\<lparr>io := io s @ [Rd UEDATX ?b], USB_DeviceState := USB_DeviceState s\<rparr>" "m' = m(pos k := ?b)"
    using assms(1) by (auto simp: transfer_read_def ep_io)
  moreover have "unat L = unat (L - 1) + 1" using assms(2) by (simp add: unat_minus_one unat_gt_0)
  ultimately show ?thesis unfolding fetched_def
    by (auto intro!: exI [of _ "[Rd UEDATX ?b]"] exI [of _ "USB_DeviceState s"])
qed

subsection \<open>The loops\<close>

lemma fetched_drain_bank: "fetched pos (k, L, m, s) (drain_bank w pos k L m s)"
proof (induction w pos k L m s rule: drain_bank.induct)
  case (1 w pos k L m s)
  obtain n s1 where n: "Endpoint_BytesInEndpoint w s = (n, s1)" by fastforce
  obtain m2 s2 where b: "transfer_read w pos k m s1 = (m2, s2)" by fastforce
  show ?case
  proof (cases "L = 0 \<or> n = 0")
    case True
    then show ?thesis using fetched_count [OF n] by (subst drain_bank.simps) (auto simp: n fetched_refl)
  next
    case False
    then have "fetched pos (k + 1, L - 1, m2, s2) (drain_bank w pos (k + 1) (L - 1) m2 s2)"
      using 1 n b by force
    then have "fetched pos (k, L, m, s) (drain_bank w pos (k + 1) (L - 1) m2 s2)"
      using fetched_count [OF n] fetched_byte [OF b] False by (blast intro: fetched_trans)
    then show ?thesis using False by (subst drain_bank.simps) (simp add: n b)
  qed
qed

lemma Control_R_turn_cases:
  assumes "Control_R_turn w pos (k, L, m, s) = y"
  obtains (finish) "L = 0" "y = Inl (None, m, s)"
    | (abort) code s' where "y = Inl (Some code, m, s')" "code \<noteq> ENDPOINT_RWCSTREAM_NoError" "fetched pos (k, L, m, s) (k, L, m, s')"
    | (again) k' L' m' s' where "y = Inr (k', L', m', s')" "fetched pos (k, L, m, s) (k', L', m', s')"
proof (cases "L = 0")
  case True
  then show thesis using assms finish by (simp add: Control_R_turn_def)
next
  case False
  obtain st s1 where s1: "get_DeviceState w s = (st, s1)" by fastforce
  obtain b2 s2 where s2: "Endpoint_IsSETUPReceived w s1 = (b2, s2)" by fastforce
  obtain b3 s3 where s3: "Endpoint_IsOUTReceived w s2 = (b3, s3)" by fastforce
  obtain k' L' m' s4 where s4: "drain_bank w pos k L m s3 = (k', L', m', s4)" by (cases "drain_bank w pos k L m s3")
  note f1 = fetched_state [OF s1, of pos k L m]
  note f2 = fetched_trans [OF f1 fetched_polls(1) [OF s2]]
  note f3 = fetched_trans [OF f2 fetched_polls(2) [OF s3]]
  have "fetched pos (k, L, m, s3) (k', L', m', s4)" using fetched_drain_bank [of pos k L m s3 w] by (simp add: s4)
  note f4 = fetched_trans [OF fetched_trans [OF f3 this] fetched_ClearOUT]
  consider "st = DEVICE_STATE_Unattached" | "st = DEVICE_STATE_Suspended"
    | "st \<noteq> DEVICE_STATE_Unattached" "st \<noteq> DEVICE_STATE_Suspended" b2
    | "st \<noteq> DEVICE_STATE_Unattached" "st \<noteq> DEVICE_STATE_Suspended" "\<not> b2" by blast
  then show thesis
  proof cases
    case 1
    then show thesis using assms False s1 f1 by (intro abort) (auto simp: Control_R_turn_def)
  next
    case 2
    then show thesis using assms False s1 f1 by (intro abort) (auto simp: Control_R_turn_def)
  next
    case 3
    then show thesis using assms False s1 s2 f2 by (intro abort) (auto simp: Control_R_turn_def)
  next
    case 4
    then have "y = (if b3 then Inr (k', L', m', Endpoint_ClearOUT w s4) else Inr (k, L, m, s3))"
      using assms False s1 s2 s3 s4 by (auto simp: Control_R_turn_def)
    then show thesis using f3 f4 by (cases b3) (auto intro: again)
  qed
qed

lemma Control_R_loop_fetches:
  assumes "Control_R_loop w pos (k, L, m, s) = Some (r, m', s')"
  shows "\<exists>k' L'. fetched pos (k, L, m, s) (k', L', m', s') \<and> (r = None \<longrightarrow> L' = 0) \<and> r \<noteq> Some ENDPOINT_RWCSTREAM_NoError"
proof -
  have "\<exists>k' L'. fetched pos x (k', L', fst (snd q), snd (snd q)) \<and> (fst q = None \<longrightarrow> L' = 0) \<and>
      fst q \<noteq> Some ENDPOINT_RWCSTREAM_NoError"
    if "iterate (\<lambda>x. Some (Control_R_turn w pos x)) x = Some q" for x q
    using that
  proof (induction rule: iterate_induct)
    case (stop x q)
    obtain k L m s where x: "x = (k, L, m, s)" by (cases x)
    have "Control_R_turn w pos (k, L, m, s) = Inl q" using stop x by simp
    then show ?case by (cases rule: Control_R_turn_cases) (auto simp: x intro: fetched_refl)
  next
    case (go x x' q)
    obtain k L m s where x: "x = (k, L, m, s)" by (cases x)
    have "Control_R_turn w pos (k, L, m, s) = Inr x'" using go(1) x by simp
    then have step: "fetched pos x x'" by (cases rule: Control_R_turn_cases) (auto simp: x)
    from go(2) obtain k' L' where rest: "fetched pos x' (k', L', fst (snd q), snd (snd q))"
      and q: "fst q = None \<longrightarrow> L' = 0" "fst q \<noteq> Some ENDPOINT_RWCSTREAM_NoError" by (elim exE conjE)
    show ?case using fetched_trans [OF step rest] q by (intro exI conjI)
  qed
  from this [OF assms [unfolded Control_R_loop_def]] show ?thesis by simp
qed

lemma Control_R_status_fetches:
  assumes "Control_R_status w s = Some (code, s')"
  shows "fetched pos (k, L, m, s) (k, L, m, s')"
proof -
  have turn: "fetched pos (k, L, m, s) (k, L, m, case Control_R_status_turn w s of Inl (c, s') \<Rightarrow> s' | Inr s' \<Rightarrow> s')" for s
  proof -
    obtain b s1 where s1: "Endpoint_IsINReady w s = (b, s1)" by fastforce
    obtain st s2 where s2: "get_DeviceState w s1 = (st, s2)" by fastforce
    show ?thesis using fetched_polls(3) [OF s1] fetched_trans [OF fetched_polls(3) [OF s1] fetched_state [OF s2]]
      by (simp add: Control_R_status_turn_def s1 s2)
  qed
  have "fetched pos (k, L, m, s) (k, L, m, snd q)" if "iterate (\<lambda>s. Some (Control_R_status_turn w s)) s = Some q" for q
    using that
  proof (induction rule: iterate_induct)
    case (stop s q)
    then show ?case using turn [of s] by (auto split: prod.splits)
  next
    case (go s s' q)
    then have "fetched pos (k, L, m, s) (k, L, m, s')" using turn [of s] by simp
    then show ?case using go(2) by (rule fetched_trans)
  qed
  from this [OF assms [unfolded Control_R_status_def]] show ?thesis by simp
qed

lemma Control_R_fetches:
  assumes "Control_R w pos L m s = Some (code, m', s')"
  shows "\<exists>k' L'. fetched pos (0, L, m, s) (k', L', m', s') \<and> (code = ENDPOINT_RWCSTREAM_NoError \<longrightarrow> L' = 0)"
proof -
  define s0 where "s0 = (if L = 0 then Endpoint_ClearOUT w s else s)"
  have s0: "fetched pos (0, L, m, s) (0, L, m, s0)" by (simp add: s0_def fetched_ClearOUT fetched_refl)
  obtain r m1 s1 where s1: "Control_R_loop w pos (0, L, m, s0) = Some (r, m1, s1)"
    and r: "(case r of Some code \<Rightarrow> Some (code, m1, s1)
       | None \<Rightarrow> do { (code, s) \<leftarrow> Control_R_status w s1; Some (code, m1, s) }) = Some (code, m', s')"
    using assms by (auto simp: Control_R_def s0_def Let_def split: bind_splits)
  obtain k' L' where l: "fetched pos (0, L, m, s0) (k', L', m1, s1)" "r = None \<longrightarrow> L' = 0" "r \<noteq> Some ENDPOINT_RWCSTREAM_NoError"
    using Control_R_loop_fetches [OF s1] by blast
  have "fetched pos (k', L', m1, s1) (k', L', m', s') \<and> (code = ENDPOINT_RWCSTREAM_NoError \<longrightarrow> L' = 0)"
    using r l(2,3) Control_R_status_fetches [of w s1 _ _ pos k' L' m1]
    by (auto simp: fetched_refl split: option.splits bind_splits)
  then show ?thesis using fetched_trans [OF fetched_trans [OF s0 l(1)], of "(k', L', m', s')"]
    by (intro exI [of _ k'] exI [of _ L']) simp
qed

lemma touches_Control_R:
  assumes "Control_R w pos L m s = Some (code, m', s')" and "UEINTX \<in> W"
  shows "touches W s s'"
proof -
  obtain k' L' where "fetched pos (0, L, m, s) (k', L', m', s')" using Control_R_fetches [OF assms(1)] by blast
  then obtain t st where "s' = s\<lparr>io := io s @ t, USB_DeviceState := st\<rparr>" "\<forall>r v. Wr r v \<in> set t \<longrightarrow> r = UEINTX"
    unfolding fetched_def by auto
  then show ?thesis unfolding touches_def using assms(2) by blast
qed

subsection \<open>Property\<close>

lemma inj_pos_LE: "n \<le> 65536 \<Longrightarrow> inj_on (pos_LE Buffer) {0..<n}"
proof (rule inj_onI)
  fix x y
  assume "n \<le> 65536" "x \<in> {0..<n}" "y \<in> {0..<n}" "pos_LE Buffer x = pos_LE Buffer y"
  then have "unat (of_nat x :: u16) = unat (of_nat y :: u16)" "x < 65536" "y < 65536" by (simp_all add: pos_LE_def)
  then show "x = y" by (simp add: unat_of_nat_u16)
qed

text \<open>C36: Whatever the host sends, a read from the control endpoint stores exactly the bytes that came out of the
  data register, in order, from the start of the buffer on and never behind its end; all other memory keeps its content,
  and if the result is \<open>ENDPOINT_RWCSTREAM_NoError\<close> the buffer is filled completely.\<close>

theorem control_read_in_bounds:
  assumes "Endpoint_Read_Control_Stream_LE w m Buffer Length s = Some (code, m', s')"
  shows "\<exists>t. io s' = io s @ t \<and> length (reads UEDATX t) \<le> unat Length \<and>
    (\<forall>i < length (reads UEDATX t). m' (Buffer + of_nat i) = reads UEDATX t ! i) \<and>
    (\<forall>a. a \<notin> (\<lambda>i. Buffer + of_nat i) ` {0..<unat Length} \<longrightarrow> m' a = m a) \<and>
    (code = ENDPOINT_RWCSTREAM_NoError \<longrightarrow> length (reads UEDATX t) = unat Length)"
proof -
  obtain k' L' where f: "fetched (pos_LE Buffer) (0, Length, m, s) (k', L', m', s')"
    and full: "code = ENDPOINT_RWCSTREAM_NoError \<longrightarrow> L' = 0"
    using Control_R_fetches [OF assms [unfolded Endpoint_Read_Control_Stream_LE_def]] by (elim exE conjE)
  then obtain t where t: "io s' = io s @ t" "unat Length = unat L' + length (reads UEDATX t)"
    "m' = store_from (pos_LE Buffer) 0 (reads UEDATX t) m"
    unfolding fetched_def by auto
  have n: "length (reads UEDATX t) \<le> 65536" using t(2) unat_u16_lt [of Length] by linarith
  show ?thesis
  proof (intro exI conjI allI impI)
    show "io s' = io s @ t" by (rule t(1))
    show "length (reads UEDATX t) \<le> unat Length" using t(2) by simp
    show "m' (Buffer + of_nat i) = reads UEDATX t ! i" if "i < length (reads UEDATX t)" for i
      using store_from_nth [of "pos_LE Buffer" 0 "reads UEDATX t" i m] inj_pos_LE [OF n] that by (simp add: t(3) pos_LE_def)
    show "m' a = m a" if a: "a \<notin> (\<lambda>i. Buffer + of_nat i) ` {0..<unat Length}" for a
    proof -
      have "pos_LE Buffer ` {0..<0 + length (reads UEDATX t)} \<subseteq> (\<lambda>i. Buffer + of_nat i) ` {0..<unat Length}"
        using t(2) by (auto simp: pos_LE_def)
      with a show ?thesis using store_from_other [of a "pos_LE Buffer" 0 "reads UEDATX t" m] unfolding t(3) by blast
    qed
    show "length (reads UEDATX t) = unat Length" if "code = ENDPOINT_RWCSTREAM_NoError" using full t(2) that by simp
  qed
qed

text \<open>A host that has always one more byte for the device and accepts the status packet.\<close>

definition sending_host :: world where
  "sending_host = const_world (\<lambda>r. if r = UEINTX then bv RXOUTI OR bv TXINI else if r = UEBCLX then 1 else 0x2A)"

lemma sending_host_read:
  "\<exists>m' s'. Endpoint_Read_Control_Stream_LE sending_host (\<lambda>_. 0) 0 2 (usb_init\<lparr>USB_DeviceState := DEVICE_STATE_Addressed\<rparr>) =
     Some (ENDPOINT_RWCSTREAM_NoError, m', s')"
proof -
  let ?w = "sending_host" and ?s = "usb_init\<lparr>USB_DeviceState := DEVICE_STATE_Addressed\<rparr>"
  have flags: "has (bv RXOUTI OR bv TXINI) (bv RXOUTI)" "has (bv RXOUTI OR bv TXINI) (bv TXINI)"
    "\<not> has (bv RXOUTI OR bv TXINI) (bv RXSTPI)"
    by (simp_all add: has_def bv_def)
  have "\<exists>k1 m1 s1. Control_R_turn ?w (pos_LE 0) (0, 2, \<lambda>_. 0, ?s) = Inr (k1, 0, m1, s1)"
    by (simp add: Control_R_turn_def get_DeviceState_eq seen_state_def sending_host_def ep_io flags drain_bank.simps transfer_read_def)
  then obtain k1 m1 s1 where turn: "Control_R_turn ?w (pos_LE 0) (0, 2, \<lambda>_. 0, ?s) = Inr (k1, 0, m1, s1)" by blast
  have "Control_R_loop ?w (pos_LE 0) (0, 2, \<lambda>_. 0, ?s) = Some (None, m1, s1)"
    unfolding Control_R_loop_def using turn
    by (subst iterate_go) (auto intro: iterate_stop simp: Control_R_turn_def)
  moreover have "\<exists>s2. Control_R_status ?w s1 = Some (ENDPOINT_RWCSTREAM_NoError, s2)"
    unfolding Control_R_status_def
    by (rule exI, rule iterate_stop) (simp add: Control_R_status_turn_def sending_host_def ep_io flags)
  ultimately show ?thesis by (auto simp: Endpoint_Read_Control_Stream_LE_def Control_R_def)
qed

theorem control_read_in_bounds_witness:
  "\<exists>m' s' t. Endpoint_Read_Control_Stream_LE sending_host (\<lambda>_. 0) 0 2 (usb_init\<lparr>USB_DeviceState := DEVICE_STATE_Addressed\<rparr>) =
     Some (ENDPOINT_RWCSTREAM_NoError, m', s') \<and> io s' = t \<and> length (reads UEDATX t) = 2 \<and> m' 7 = 0"
proof -
  obtain m' s' where r: "Endpoint_Read_Control_Stream_LE sending_host (\<lambda>_. 0) 0 2
      (usb_init\<lparr>USB_DeviceState := DEVICE_STATE_Addressed\<rparr>) = Some (ENDPOINT_RWCSTREAM_NoError, m', s')"
    using sending_host_read by blast
  have "(7 :: u16) \<notin> (\<lambda>i. 0 + of_nat i) ` {0..<unat (2 :: u16)}" 
    by (simp add: atLeastLessThan_nat_numeral lessThan_nat_numeral)
  then show ?thesis using control_read_in_bounds [OF r] r by auto
qed

end
