(* ===== verification/Serial.thy ===== *)
theory Serial
  imports Endpoint
begin

text \<open>
  The USART driver (\<^verbatim>\<open>Peripheral/AVR8/Serial_AVR8.h\<close>, \<^verbatim>\<open>Serial_AVR8.c\<close>). Sending waits for the transmit
  register without a bound, so sending functions return an option. The streams of the C library that are built
  on \<^verbatim>\<open>Serial_putchar\<close> and \<^verbatim>\<open>Serial_getchar\<close> are not modelled as objects; \<^verbatim>\<open>printf\<close> of a plain character is a
  call of \<^verbatim>\<open>Serial_putchar\<close>.
\<close>

subsection \<open>Operations\<close>

abbreviation (input) "RXC1 \<equiv> 7 :: nat"
abbreviation (input) "TXC1 \<equiv> 6 :: nat"
abbreviation (input) "UDRE1 \<equiv> 5 :: nat"
abbreviation (input) "U2X1 \<equiv> 1 :: nat"
abbreviation (input) "RXCIE1 \<equiv> 7 :: nat"
abbreviation (input) "RXEN1 \<equiv> 4 :: nat"
abbreviation (input) "TXEN1 \<equiv> 3 :: nat"
abbreviation (input) "UCSZ11 \<equiv> 2 :: nat"
abbreviation (input) "UCSZ10 \<equiv> 1 :: nat"

definition F_CPU :: u32 where "F_CPU = 16000000"

definition SERIAL_UBBRVAL :: "u32 \<Rightarrow> u32" where
  "SERIAL_UBBRVAL Baud = ((F_CPU div 16) + (Baud div 2)) div Baud - 1"

definition SERIAL_2X_UBBRVAL :: "u32 \<Rightarrow> u32" where
  "SERIAL_2X_UBBRVAL Baud = ((F_CPU div 8) + (Baud div 2)) div Baud - 1"

text \<open>A 16-bit register is written high byte first.\<close>

definition wr_UBRR1 :: "u16 \<Rightarrow> 'a usb_scheme \<Rightarrow> 'a usb_scheme" where
  "wr_UBRR1 x s = wr UBRR1L (lo8 x) (wr UBRR1H (hi8 x) s)"

definition Serial_Init :: "world \<Rightarrow> u32 \<Rightarrow> bool \<Rightarrow> 'a usb_scheme \<Rightarrow> 'a usb_scheme" where
  "Serial_Init w BaudRate DoubleSpeed s =
     (let s = wr_UBRR1 (ucast (if DoubleSpeed then SERIAL_2X_UBBRVAL BaudRate else SERIAL_UBBRVAL BaudRate)) s;
          s = wr UCSR1C (bv UCSZ11 OR bv UCSZ10) s;
          s = wr UCSR1A (if DoubleSpeed then bv U2X1 else 0) s;
          s = wr UCSR1B (bv TXEN1 OR bv RXEN1) s;
          s = set_mask w DDRD (bv 3) s
      in set_mask w PORTD (bv 2) s)"

definition Serial_Disable :: "world \<Rightarrow> 'a usb_scheme \<Rightarrow> 'a usb_scheme" where
  "Serial_Disable w s =
     (let s = wr UCSR1B 0 s;
          s = wr UCSR1A 0 s;
          s = wr UCSR1C 0 s;
          s = wr_UBRR1 0 s;
          s = clear_mask w DDRD (bv 3) s
      in clear_mask w PORTD (bv 2) s)"

definition Serial_IsCharReceived :: "world \<Rightarrow> 'a usb_scheme \<Rightarrow> bool \<times> 'a usb_scheme" where
  "Serial_IsCharReceived w s = test_mask w UCSR1A (bv RXC1) s"

definition Serial_IsSendReady :: "world \<Rightarrow> 'a usb_scheme \<Rightarrow> bool \<times> 'a usb_scheme" where
  "Serial_IsSendReady w s = test_mask w UCSR1A (bv UDRE1) s"

definition Serial_IsSendComplete :: "world \<Rightarrow> 'a usb_scheme \<Rightarrow> bool \<times> 'a usb_scheme" where
  "Serial_IsSendComplete w s = test_mask w UCSR1A (bv TXC1) s"

definition Serial_SendByte :: "world \<Rightarrow> u8 \<Rightarrow> 'a usb_scheme \<Rightarrow> 'a usb_scheme option" where
  "Serial_SendByte w DataByte s =
     do {
       s \<leftarrow> iterate (\<lambda>s. let (ready, s) = Serial_IsSendReady w s in Some (if ready then Inl s else Inr s)) s;
       Some (wr UDR1 DataByte s)
     }"

definition Serial_ReceiveByte :: "world \<Rightarrow> 'a usb_scheme \<Rightarrow> int \<times> 'a usb_scheme" where
  "Serial_ReceiveByte w s =
     (let (received, s) = Serial_IsCharReceived w s in
      if \<not> received then (-1, s) else let (b, s) = rd w UDR1 s in (uint b, s))"

definition Serial_putchar :: "world \<Rightarrow> u8 \<Rightarrow> 'a usb_scheme \<Rightarrow> (int \<times> 'a usb_scheme) option" where
  "Serial_putchar w DataByte s = do { s \<leftarrow> Serial_SendByte w DataByte s; Some (0, s) }"

text \<open>\<^verbatim>\<open>_FDEV_EOF\<close> of the C library is \<open>-2\<close>.\<close>

definition Serial_getchar :: "world \<Rightarrow> 'a usb_scheme \<Rightarrow> int \<times> 'a usb_scheme" where
  "Serial_getchar w s =
     (let (received, s) = Serial_IsCharReceived w s in
      if \<not> received then (-2, s) else Serial_ReceiveByte w s)"

definition Serial_getchar_Blocking :: "world \<Rightarrow> 'a usb_scheme \<Rightarrow> (int \<times> 'a usb_scheme) option" where
  "Serial_getchar_Blocking w s =
     do {
       s \<leftarrow> iterate (\<lambda>s. let (received, s) = Serial_IsCharReceived w s in Some (if received then Inl s else Inr s)) s;
       Some (Serial_ReceiveByte w s)
     }"

text \<open>The loop over a string reads until the terminating zero, wherever it is.\<close>

definition Serial_SendString :: "world \<Rightarrow> mem \<Rightarrow> u16 \<Rightarrow> 'a usb_scheme \<Rightarrow> 'a usb_scheme option" where
  "Serial_SendString w m StringPtr s =
     iterate (\<lambda>(p, s).
       if m p = 0 then Some (Inl s)
       else do { s \<leftarrow> Serial_SendByte w (m p) s; Some (Inr (p + 1, s)) }) (StringPtr, s)"

definition Serial_SendString_P :: "world \<Rightarrow> mem \<Rightarrow> u16 \<Rightarrow> 'a usb_scheme \<Rightarrow> 'a usb_scheme option" where
  "Serial_SendString_P = Serial_SendString"

fun SendData_loop :: "world \<Rightarrow> mem \<Rightarrow> nat \<Rightarrow> u16 \<Rightarrow> 'a usb_scheme \<Rightarrow> 'a usb_scheme option" where
  "SendData_loop w m 0 CurrByte s = Some s"
| "SendData_loop w m (Suc n) CurrByte s = do { s \<leftarrow> Serial_SendByte w (m CurrByte) s; SendData_loop w m n (CurrByte + 1) s }"

definition Serial_SendData :: "world \<Rightarrow> mem \<Rightarrow> u16 \<Rightarrow> u16 \<Rightarrow> 'a usb_scheme \<Rightarrow> 'a usb_scheme option" where
  "Serial_SendData w m Buffer Length s = SendData_loop w m (unat Length) Buffer s"

lemmas serial_defs = Serial_IsCharReceived_def Serial_IsSendReady_def Serial_IsSendComplete_def Serial_ReceiveByte_def

subsection \<open>Baud rate\<close>

lemma unat_u32_lt: "unat (x :: u32) < 4294967296"
  by (rule order.strict_trans2 [OF unsigned_less]) simp

lemma unat_UBBR:
  assumes "0 < unat Baud" and "unat Baud div 2 + f < 4294967296" and "unat Baud \<le> f + unat Baud div 2"
  shows "unat (((of_nat f :: u32) + (Baud div 2)) div Baud - 1) = (f + unat Baud div 2) div unat Baud - 1"
proof -
  have "f < 4294967296" using assms(2) by linarith
  then have f: "unat (of_nat f :: u32) = f" by (simp add: unat_of_nat)
  have h: "unat (Baud div 2) = unat Baud div 2" by (simp add: unat_div)
  have "unat (of_nat f :: u32) + unat (Baud div 2) < 2 ^ LENGTH(32)"
    unfolding f h using assms(2) by (subst add.commute) simp
  then have sum: "unat ((of_nat f :: u32) + (Baud div 2)) = f + unat Baud div 2"
    using f h unat_add_lem [of "of_nat f :: u32" "Baud div 2"] by metis
  then have q: "unat (((of_nat f :: u32) + (Baud div 2)) div Baud) = (f + unat Baud div 2) div unat Baud" by (simp add: unat_div)
  have "(f + unat Baud div 2) div unat Baud \<noteq> 0" using assms(1,3) by (simp add: div_eq_0_iff)
  then have "((of_nat f :: u32) + (Baud div 2)) div Baud \<noteq> 0"
    unfolding q [symmetric] unat_eq_0 .
  from unat_minus_one [OF this] show ?thesis unfolding q .
qed

lemma div_round:
  fixes f b :: nat
  assumes "0 < b"
  shows "\<bar>int ((f + b div 2) div b * b) - int f\<bar> \<le> int (b div 2)"
proof -
  define p h r where "p = (f + b div 2) div b * b" and "h = b div 2" and "r = (f + b div 2) mod b"
  have "p + r = f + h" unfolding p_def h_def r_def by (rule div_mult_mod_eq)
  moreover have "r < b" using assms by (simp add: r_def)
  moreover have "b \<le> 2 * h + 1" by (simp add: h_def)
  ultimately have "\<bar>int p - int f\<bar> \<le> int h" by linarith
  then show ?thesis unfolding p_def h_def .
qed

text \<open>The baud rate divisor is the best one: for every baud rate from 31 to two million baud the divisor the
  driver programs in double speed mode fits the 16-bit register, and the product of divisor and baud
  rate differs from the clock by at most half the baud rate. The firmware's 115200 baud give the register
  value 16.\<close>

theorem baud_divisor_nearest:
  assumes "31 \<le> unat Baud" and "unat Baud \<le> 2000000"
  shows "unat (SERIAL_2X_UBBRVAL Baud) < 65536 \<and>
    \<bar>int ((unat (SERIAL_2X_UBBRVAL Baud) + 1) * unat Baud) - 2000000\<bar> \<le> int (unat Baud div 2) \<and>
    unat (SERIAL_2X_UBBRVAL 115200) = 16"
proof (intro conjI)
  have f: "F_CPU div 8 = of_nat 2000000" unfolding F_CPU_def
    by (rule iffD2 [OF word_unat_eq_iff], unfold unat_div) simp
  let ?q = "(2000000 + unat Baud div 2) div unat Baud"
  have "unat (SERIAL_2X_UBBRVAL Baud) = ?q - 1" unfolding SERIAL_2X_UBBRVAL_def f
    by (rule unat_UBBR) (use assms in linarith)+
  moreover have "0 < ?q" using assms by (simp add: div_greater_zero_iff)
  ultimately have v: "unat (SERIAL_2X_UBBRVAL Baud) + 1 = ?q" by simp
  have "?q < 65537" using assms by (simp add: div_less_iff_less_mult)
  then show "unat (SERIAL_2X_UBBRVAL Baud) < 65536" using v by simp
  show "\<bar>int ((unat (SERIAL_2X_UBBRVAL Baud) + 1) * unat Baud) - 2000000\<bar> \<le> int (unat Baud div 2)"
  proof -
    have "0 < unat Baud" using assms(1) by linarith
    from div_round [OF this, of 2000000] show ?thesis unfolding v by (simp only: of_nat_numeral)
  qed
  show "unat (SERIAL_2X_UBBRVAL 115200) = 16"
    by (simp add: SERIAL_2X_UBBRVAL_def F_CPU_def)
qed

theorem baud_divisor_nearest_witness: "\<bar>int ((unat (SERIAL_2X_UBBRVAL 9600) + 1) * 9600) - 2000000\<bar> \<le> 4800"
  using baud_divisor_nearest [of 9600] by simp

end
