(* ===== verification/Joystick.thy ===== *)
theory Joystick
  imports JoystickSerial PadReport ControlRead Serial
begin

text \<open>
  The application of \<^verbatim>\<open>Joystick.c\<close> on top of the USB stack: the report the pad sends, the events the stack
  raises, the task that serves the two data endpoints, and the interrupt of the serial port. The state \<open>firmware\<close>
  is the state of the stack extended by the globals of the application. Two local variables of the source are
  never initialised completely; their former content is the parameter \<open>u\<close>.
\<close>

subsection \<open>State\<close>

record firmware = usb +
  joy :: joystick

record locals =
  JoystickInputData :: USB_JoystickReport_Input_t
  JoystickOutputData :: mem

definition HID_REQ_GetReport :: u8 where "HID_REQ_GetReport = 0x01"
definition HID_REQ_SetReport :: u8 where "HID_REQ_SetReport = 0x09"

subsection \<open>Reports and events\<close>

text \<open>\<^verbatim>\<open>GetNextReport\<close> stores six of the seven fields of the structure it is given.\<close>

definition GetNextReport :: "joystick \<Rightarrow> USB_JoystickReport_Input_t \<Rightarrow> USB_JoystickReport_Input_t" where
  "GetNextReport j ReportData =
     ReportData\<lparr>Button := buttons j, HAT := HAT2 j, LX := LX2 j, LY := LY2 j, RX := RX2 j, RY := RY2 j\<rparr>"

definition EVENT_USB_Device_Connect :: "firmware \<Rightarrow> firmware" where
  "EVENT_USB_Device_Connect s = s"

definition EVENT_USB_Device_Disconnect :: "firmware \<Rightarrow> firmware" where
  "EVENT_USB_Device_Disconnect s = s"

definition EVENT_USB_Device_ConfigurationChanged :: "world \<Rightarrow> firmware \<Rightarrow> firmware option" where
  "EVENT_USB_Device_ConfigurationChanged w s =
     do {
       let ConfigSuccess = True;
       (ok, s) \<leftarrow> Endpoint_ConfigureEndpoint w JOYSTICK_OUT_EPADDR EP_TYPE_INTERRUPT JOYSTICK_EPSIZE 1 s;
       let ConfigSuccess = (ConfigSuccess \<and> ok);
       (ok, s) \<leftarrow> Endpoint_ConfigureEndpoint w JOYSTICK_IN_EPADDR EP_TYPE_INTERRUPT JOYSTICK_EPSIZE 1 s;
       let ConfigSuccess = (ConfigSuccess \<and> ok);
       Some s
     }"

definition EVENT_USB_Device_ControlRequest :: "locals \<Rightarrow> world \<Rightarrow> firmware \<Rightarrow> firmware option" where
  "EVENT_USB_Device_ControlRequest u w s =
     (let req = USB_ControlRequest s in
      if bRequest req = HID_REQ_GetReport then
        if bmRequestType req = REQDIR_DEVICETOHOST OR REQTYPE_CLASS OR REQREC_INTERFACE then
          do {
            let r = GetNextReport (joy s) (JoystickInputData u);
            (_, s) \<leftarrow> Endpoint_Write_Control_Stream_LE w (object_mem (bytes_of_Input r)) 0
                       (of_nat (length (bytes_of_Input r))) (Endpoint_ClearSETUP w s);
            Some (Endpoint_ClearOUT w s)
          }
        else Some s
      else if bRequest req = HID_REQ_SetReport then
        if bmRequestType req = REQDIR_HOSTTODEVICE OR REQTYPE_CLASS OR REQREC_INTERFACE then
          do {
            (_, _, s) \<leftarrow> Endpoint_Read_Control_Stream_LE w (JoystickOutputData u) 0 (of_nat sizeof_Output) (Endpoint_ClearSETUP w s);
            Some (Endpoint_ClearIN w s)
          }
        else Some s
      else Some s)"

definition joystick_events :: "locals \<Rightarrow> firmware usb_events" where
  "joystick_events u = \<lparr>ControlRequest_event = EVENT_USB_Device_ControlRequest u,
     ConfigurationChanged_event = EVENT_USB_Device_ConfigurationChanged\<rparr>"

subsection \<open>The tasks\<close>

text \<open>The two halves of \<^verbatim>\<open>HID_Task\<close>. \<^verbatim>\<open>printf("U")\<close> is a \<^verbatim>\<open>Serial_putchar\<close> on the standard output.\<close>

definition HID_OUT :: "locals \<Rightarrow> world \<Rightarrow> firmware \<Rightarrow> firmware option" where
  "HID_OUT u w s =
     (let s = Endpoint_SelectEndpoint JOYSTICK_OUT_EPADDR s;
          (received, s) = Endpoint_IsOUTReceived w s
      in if received then
           do {
             let (allowed, s) = Endpoint_IsReadWriteAllowed w s;
             s \<leftarrow> (if allowed
                   then do { (_, _, _, s) \<leftarrow> Endpoint_Read_Stream_LE w (USB_USBTask w (joystick_events u)) (JoystickOutputData u) 0
                                              (of_nat sizeof_Output) None s; Some s }
                   else Some s);
             Some (Endpoint_ClearOUT w s)
           }
         else Some s)"

definition HID_IN :: "locals \<Rightarrow> world \<Rightarrow> firmware \<Rightarrow> firmware option" where
  "HID_IN u w s =
     (let s = Endpoint_SelectEndpoint JOYSTICK_IN_EPADDR s;
          (ready, s) = Endpoint_IsINReady w s
      in if ready then
           do {
             let r = GetNextReport (joy s) (JoystickInputData u);
             (_, _, _, s) \<leftarrow> Endpoint_Write_Stream_LE w (USB_USBTask w (joystick_events u)) (object_mem (bytes_of_Input r)) 0
                              (of_nat (length (bytes_of_Input r))) None s;
             let s = Endpoint_ClearIN w s;
             (_, s) \<leftarrow> Serial_putchar w 0x55 s;
             Some s
           }
         else Some s)"

definition HID_Task :: "locals \<Rightarrow> world \<Rightarrow> firmware \<Rightarrow> firmware option" where
  "HID_Task u w s =
     (let (st, s) = get_DeviceState w s in
      if st \<noteq> DEVICE_STATE_Configured then Some s
      else do { s \<leftarrow> HID_OUT u w s; HID_IN u w s })"

text \<open>The body of the endless loop of \<^verbatim>\<open>main\<close>. It does not return (\<open>None\<close>), or its decoder writes outside
  of its array (\<open>Inl\<close>), or it returns the state of the next turn.\<close>

definition main_turn :: "locals \<Rightarrow> world \<Rightarrow> firmware \<Rightarrow> (ub + firmware) option" where
  "main_turn u w s =
     do {
       s \<leftarrow> HID_Task u w s;
       s \<leftarrow> USB_USBTask w (joystick_events u) s;
       Some (case Serial_Task (joy s) of Inl e \<Rightarrow> Inl e | Inr j \<Rightarrow> Inr (s\<lparr>joy := j\<rparr>))
     }"

subsection \<open>The receive interrupt\<close>

text \<open>\<^verbatim>\<open>fgetc(stdin)\<close> calls \<^verbatim>\<open>Serial_getchar\<close> and gives \<^verbatim>\<open>EOF\<close> for a negative result.\<close>

definition fgetc_stdin :: "world \<Rightarrow> firmware \<Rightarrow> int \<times> firmware" where
  "fgetc_stdin w s = (let (rv, s) = Serial_getchar w s in (if rv < 0 then -1 else rv, s))"

definition USART1_RX_vect :: "world \<Rightarrow> firmware \<Rightarrow> firmware option" where
  "USART1_RX_vect w s =
     do {
       s \<leftarrow> (if rx_overrun (joy s) then do { (_, s) \<leftarrow> Serial_putchar w 0x58 s; Some s } else Some s);
       let (c, s) = fgetc_stdin w s;
       Some (s\<lparr>joy := rx_store (word_of_int c) (joy s)\<rparr>)
     }"

subsection \<open>The events keep the contract of the stack\<close>

lemma touches_no_data: "touches config_regs s s' \<Longrightarrow> no_data s s'"
  unfolding touches_def no_data_def by fastforce

lemma ConfigurationChanged_no_data:
  assumes "EVENT_USB_Device_ConfigurationChanged w s = Some s'"
  shows "no_data s s'"
proof -
  obtain ok s1 ok' where "Endpoint_ConfigureEndpoint w JOYSTICK_OUT_EPADDR EP_TYPE_INTERRUPT JOYSTICK_EPSIZE 1 s = Some (ok, s1)"
    "Endpoint_ConfigureEndpoint w JOYSTICK_IN_EPADDR EP_TYPE_INTERRUPT JOYSTICK_EPSIZE 1 s1 = Some (ok', s')"
    using assms by (auto simp: EVENT_USB_Device_ConfigurationChanged_def Let_def split: bind_splits)
  from this [THEN touches_ConfigureEndpoint] show ?thesis by (intro touches_no_data) (rule touches_trans)
qed

lemma ControlRequest_stays:
  assumes "EVENT_USB_Device_ControlRequest u w s = Some s'"
  shows "stays_ep0 s s'"
proof -
  have set_report: "stays_ep0 s (Endpoint_ClearIN w s1)"
    if r: "Control_R w (pos_LE 0) L m (Endpoint_ClearSETUP w s) = Some (code, m', s1)" for L m code m' s1
  proof -
    have "stays_ep0 s (Endpoint_ClearSETUP w s)" by (rule stays_steps(1)) simp_all
    also have "stays_ep0 \<dots> s1" by (rule touches_stays [of ep0_regs]) (auto intro: touches_Control_R [OF r])
    also have "stays_ep0 \<dots> (Endpoint_ClearIN w s1)" by (rule stays_steps(2)) simp_all
    finally show ?thesis .
  qed
  have get_report: "stays_ep0 s (Endpoint_ClearOUT w s1)"
    if "Control_W w byte L (Endpoint_ClearSETUP w s) = Some (code, s1)" for byte L code s1
    using stays_reply [of w byte L s] that by simp
  show ?thesis using assms
    by (auto simp: EVENT_USB_Device_ControlRequest_def Endpoint_Write_Control_Stream_LE_def Endpoint_Read_Control_Stream_LE_def
        Let_def stays_refl split: if_splits bind_splits intro: set_report get_report)
qed

text \<open>The events satisfy the contract of the management task, so the task satisfies the contract of the streams.\<close>

interpretation pad: usb_application "joystick_events u" for u
  by unfold_locales (simp_all add: joystick_events_def ControlRequest_stays ConfigurationChanged_no_data)

subsection \<open>The report goes to the host\<close>

lemma bank_writes:
  assumes "writes UEINTX t = []"
  shows "bank_fill acc t = acc @ writes UEDATX t" and "packets acc t = []"
  using assms by (induction acc t rule: bank_fill.induct) (auto split: if_splits)

text \<open>After the history \<open>h\<close> the selected endpoint is an IN endpoint, the host has taken its last packet, and the
  bank has room for \<open>n\<close> bytes.\<close>

definition ready_in :: "world \<Rightarrow> history \<Rightarrow> nat \<Rightarrow> bool" where
  "ready_in w h n \<longleftrightarrow> (\<forall>t. writes UENUM t = [] \<and> writes UEINTX t = [] \<and> length (writes UEDATX t) < n \<longrightarrow>
     has (dev w (h @ t) UECFG0X) (bv EPDIR) \<and> has (dev w (h @ t) UEINTX) (bv TXINI) \<and> has (dev w (h @ t) UEINTX) (bv RWAL))"

lemma ready_inD:
  assumes "ready_in w h n" and "writes UENUM t = []" and "writes UEINTX t = []" and "length (writes UEDATX t) < n"
  shows "has (dev w (h @ t) UECFG0X) (bv EPDIR)" and "has (dev w (h @ t) UEINTX) (bv TXINI)" and "has (dev w (h @ t) UEINTX) (bv RWAL)"
  using assms unfolding ready_in_def by blast+

lemma WaitUntilReady_ready:
  assumes "ready_in w h n" and "io s = h @ t" and "writes UENUM t = []" "writes UEINTX t = []" "length (writes UEDATX t) < n"
  shows "\<exists>t'. Endpoint_WaitUntilReady w s = Some (ENDPOINT_READYWAIT_NoError, s\<lparr>io := io s @ t'\<rparr>) \<and> list_all is_read t'"
proof -
  have ready: "has (dev w (io s @ t') UECFG0X) (bv EPDIR)" "has (dev w (io s @ t') UEINTX) (bv TXINI)" if "list_all is_read t'" for t'
  proof -
    have "writes r t' = []" for r using that by (induction t') (auto elim: is_read.elims)
    then show "has (dev w (io s @ t') UECFG0X) (bv EPDIR)" "has (dev w (io s @ t') UEINTX) (bv TXINI)"
      using assms ready_inD(1,2) [OF assms(1), of "t @ t'"] by simp_all
  qed
  show ?thesis
    by (simp add: Endpoint_WaitUntilReady_def USB_Device_GetFrameNumber_def io_simps WaitUntilReady_loop.simps wait_turn_def ready_poll_def
        Endpoint_GetEndpointDirection_def Endpoint_IsINReady_def ready)
      (rule exI, rule conjI, rule refl, simp)
qed

lemma write_loop_ready:
  assumes "ready_in w h n" and "io s = h @ t" and "writes UENUM t = []" "writes UEINTX t = []" "length (writes UEDATX t) + j \<le> n"
    and "unat Length = j"
  shows "\<exists>t'. RW_loop w task clear (transfer_write pos) None (k, Length, b, m, s) =
      Some (ENDPOINT_RWSTREAM_NoError, None, m, s\<lparr>io := io s @ t'\<rparr>) \<and>
    writes UENUM t' = [] \<and> writes UEINTX t' = [] \<and> writes UDR1 t' = [] \<and> writes UEDATX t' = map (\<lambda>i. m (pos i)) [k..<k + j]"
  using assms(2-6)
proof (induction j arbitrary: s t Length k b)
  case 0
  then have "Length = 0" by (simp add: unat_eq_0)
  then have "RW_loop w task clear (transfer_write pos) None (k, Length, b, m, s) = Some (ENDPOINT_RWSTREAM_NoError, None, m, s\<lparr>io := io s @ []\<rparr>)"
    unfolding RW_loop_def by (intro iterate_stop) (simp add: RW_turn_def)
  then show ?case by (intro exI [of _ "[]"]) simp
next
  case (Suc j)
  let ?u = "[Rd UEINTX (dev w (io s) UEINTX), Wr UEDATX (m (pos k))]"
  let ?s1 = "s\<lparr>io := io s @ ?u\<rparr>"
  have L: "Length \<noteq> 0" using Suc.prems(5) by auto
  have "has (dev w (io s) UEINTX) (bv RWAL)"
    using ready_inD(3) [OF assms(1) Suc.prems(2,3)] Suc.prems(1,4) by simp
  then have turn: "RW_turn w task clear (transfer_write pos) None (k, Length, b, m, s) = Some (Inr (k + 1, Length - 1, b + 1, m, ?s1))"
    using L by (simp add: RW_turn_def ep_io transfer_write_def)
  have "unat (Length - 1) = j" using L Suc.prems(5) by (simp add: unat_minus_one)
  from Suc.IH [OF _ _ _ _ this, of ?s1 "t @ ?u" "k + 1" "b + 1"] Suc.prems
  obtain t' where t': "RW_loop w task clear (transfer_write pos) None (k + 1, Length - 1, b + 1, m, ?s1) =
      Some (ENDPOINT_RWSTREAM_NoError, None, m, ?s1\<lparr>io := io ?s1 @ t'\<rparr>)"
    "writes UENUM t' = []" "writes UEINTX t' = []" "writes UDR1 t' = []" "writes UEDATX t' = map (\<lambda>i. m (pos i)) [k + 1..<k + 1 + j]"
    by auto
  have "RW_loop w task clear (transfer_write pos) None (k, Length, b, m, s) =
      Some (ENDPOINT_RWSTREAM_NoError, None, m, s\<lparr>io := io s @ (?u @ t')\<rparr>)"
    using t'(1) iterate_go [of "RW_turn w task clear (transfer_write pos) None", OF turn] by (simp add: RW_loop_def)
  moreover have "[k..<k + Suc j] = k # [k + 1..<k + 1 + j]" by (simp add: upt_conv_Cons)
  ultimately show ?case using t'(2-5) by (intro exI [of _ "?u @ t'"]) simp
qed

lemma reads_no_writes: "list_all is_read t \<Longrightarrow> writes r t = []"
  by (induction t) (auto elim: is_read.elims)

lemma write_stream_ready:
  assumes "ready_in w h (unat Length)" and "io s = h @ t" and "writes UENUM t = []" "writes UEINTX t = []" "writes UEDATX t = []"
    and "Length \<noteq> 0"
  shows "\<exists>t'. Endpoint_Write_Stream_LE w task m Buffer Length None s =
      Some (ENDPOINT_RWSTREAM_NoError, None, m, s\<lparr>io := io s @ t'\<rparr>) \<and>
    writes UENUM t' = [] \<and> writes UEINTX t' = [] \<and> writes UDR1 t' = [] \<and> writes UEDATX t' = map (\<lambda>i. m (Buffer + of_nat i)) [0..<unat Length]"
proof -
  have "0 < unat Length" using assms(6) by (simp add: unat_gt_0)
  with WaitUntilReady_ready [OF assms(1-4)] assms(5)
  obtain t1 where t1: "Endpoint_WaitUntilReady w s = Some (ENDPOINT_READYWAIT_NoError, s\<lparr>io := io s @ t1\<rparr>)" "list_all is_read t1"
    by auto
  let ?s1 = "s\<lparr>io := io s @ t1\<rparr>"
  note quiet = reads_no_writes [OF t1(2)]
  have "io ?s1 = h @ (t @ t1)" using assms(2) by simp
  from write_loop_ready [OF assms(1) this, of "unat Length" Length task "Endpoint_ClearIN w" "pos_LE Buffer" 0 0 m] assms(3-5) quiet
  obtain t' where "RW_loop w task (Endpoint_ClearIN w) (transfer_write (pos_LE Buffer)) None (0, Length, 0, m, ?s1) =
      Some (ENDPOINT_RWSTREAM_NoError, None, m, ?s1\<lparr>io := io ?s1 @ t'\<rparr>)"
    "writes UENUM t' = []" "writes UEINTX t' = []" "writes UDR1 t' = []" "writes UEDATX t' = map (\<lambda>i. m (pos_LE Buffer i)) [0..<0 + unat Length]"
    by auto
  then show ?thesis using t1(1) quiet
    by (intro exI [of _ "t1 @ t'"]) (simp add: Endpoint_Write_Stream_LE_def RW_template_def pos_LE_def)
qed

lemma SendByte_ready:
  assumes "has (dev w (io s) UCSR1A) (bv UDRE1)"
  shows "Serial_SendByte w c s = Some (s\<lparr>io := io s @ [Rd UCSR1A (dev w (io s) UCSR1A), Wr UDR1 c]\<rparr>)"
proof -
  have "iterate (\<lambda>s. let (ready, s) = Serial_IsSendReady w s in Some (if ready then Inl s else Inr s)) s =
      Some (s\<lparr>io := io s @ [Rd UCSR1A (dev w (io s) UCSR1A)]\<rparr>)"
    using assms by (intro iterate_stop) (simp add: Serial_IsSendReady_def io_simps)
  then show ?thesis by (simp add: Serial_SendByte_def io_simps)
qed

text \<open>The report of a state, as the bytes that go over the bus.\<close>

definition report_bytes :: "locals \<Rightarrow> joystick \<Rightarrow> u8 list" where
  "report_bytes u j = bytes_of_Input (GetNextReport j (JoystickInputData u))"

lemma length_report_bytes [simp]: "length (report_bytes u j) = 8"
  by (simp add: report_bytes_def)

lemma object_report: "map (\<lambda>i. object_mem (report_bytes u j) (of_nat i)) [0..<8] = report_bytes u j"
  by (intro nth_equalityI) (simp_all add: object_mem_def unat_of_nat_u16)

text \<open>A host that lets the pad send: no interrupt, nothing in the OUT endpoint, an empty bank in the IN endpoint, and a
  serial port that accepts bytes.\<close>

definition out_history :: "world \<Rightarrow> history \<Rightarrow> history" where
  "out_history w h = rd_history w UEINTX (h @ [Wr UENUM 2]) @ [Wr UENUM 1]"

definition pad_host :: "world \<Rightarrow> history \<Rightarrow> bool" where
  "pad_host w h \<longleftrightarrow> irq w h = None \<and> \<not> has (dev w (h @ [Wr UENUM 2]) UEINTX) (bv RXOUTI) \<and> ready_in w (out_history w h) 8 \<and>
     (\<forall>h. has (dev w h UCSR1A) (bv UDRE1))"

lemma HID_Task_sends:
  assumes host: "pad_host w (io s)" and st: "USB_DeviceState s = DEVICE_STATE_Configured"
  shows "\<exists>t. HID_Task u w s = Some (s\<lparr>io := io s @ t\<rparr>) \<and> packets [] t = [report_bytes u (joy s)] \<and>
    writes UENUM t = [2, 1] \<and> writes UDR1 t = [0x55]"
proof -
  let ?h = "out_history w (io s)"
  let ?s1 = "s\<lparr>io := rd_history w UEINTX (io s @ [Wr UENUM 2])\<rparr>"
  let ?s2 = "s\<lparr>io := ?h\<rparr>"
  let ?r = "Rd UEINTX (dev w ?h UEINTX)"
  let ?s3 = "s\<lparr>io := ?h @ [?r]\<rparr>"
  have ready: "ready_in w ?h (unat (8 :: u16))" and no_out: "\<not> has (dev w (io s @ [Wr UENUM 2]) UEINTX) (bv RXOUTI)"
    and uart: "has (dev w h' UCSR1A) (bv UDRE1)" for h' using host by (simp_all add: pad_host_def)
  have out: "HID_OUT u w s = Some ?s1"
    using no_out by (simp add: HID_OUT_def ep_io rd_history_def JOYSTICK_OUT_EPADDR_def ENDPOINT_DIR_OUT_def ENDPOINT_EPNUM_MASK_def)
  have sel: "Endpoint_SelectEndpoint JOYSTICK_IN_EPADDR ?s1 = ?s2"
    by (simp add: ep_io out_history_def JOYSTICK_IN_EPADDR_def ENDPOINT_DIR_IN_def ENDPOINT_EPNUM_MASK_def)
  have inready: "Endpoint_IsINReady w ?s2 = (True, ?s3)"
    using ready_inD(2) [OF ready, of "[]"] by (simp add: ep_io)
  obtain t where t: "Endpoint_Write_Stream_LE w (USB_USBTask w (joystick_events u)) (object_mem (report_bytes u (joy s))) 0 8 None ?s3 =
      Some (ENDPOINT_RWSTREAM_NoError, None, object_mem (report_bytes u (joy s)), ?s3\<lparr>io := io ?s3 @ t\<rparr>)"
    "writes UENUM t = []" "writes UEINTX t = []" "writes UDR1 t = []" "writes UEDATX t = report_bytes u (joy s)"
    using write_stream_ready [OF ready, of ?s3 "[?r]" "USB_USBTask w (joystick_events u)" "object_mem (report_bytes u (joy s))" 0]
      object_report [of u "joy s"] by auto
  define v where "v = dev w (?h @ ?r # t) UEINTX"
  define t' where "t' = t @ [Rd UEINTX v, Wr UEINTX (v AND NOT (bv TXINI OR bv FIFOCON))]"
  let ?u = "[Rd UCSR1A (dev w (?h @ ?r # t') UCSR1A), Wr UDR1 0x55]"
  have "HID_IN u w ?s1 = Some (s\<lparr>io := ?h @ ?r # t' @ ?u\<rparr>)"
    using t(1) inready
    by (simp add: SendByte_ready [OF uart] HID_IN_def sel Let_def report_bytes_def Endpoint_ClearIN_def clear_mask_eq Serial_putchar_def t'_def v_def)
  moreover have "get_DeviceState w s = (DEVICE_STATE_Configured, s)"
    using host st by (simp add: get_DeviceState_def pad_host_def)
  ultimately have "HID_Task u w s = Some (s\<lparr>io := ?h @ ?r # t' @ ?u\<rparr>)" by (simp add: HID_Task_def out)
  then show ?thesis using t(2-5) bank_writes [OF t(3)]
    by (intro exI [of _ "[Wr UENUM 2, Rd UEINTX (dev w (io s @ [Wr UENUM 2]) UEINTX), Wr UENUM 1, ?r] @ t' @ ?u"])
      (simp add: out_history_def rd_history_def t'_def)
qed

subsection \<open>No other data goes to the host\<close>

lemma no_ep_data:
  assumes "\<forall>r v. Wr r v \<in> set t \<longrightarrow> r \<noteq> UEDATX \<and> r \<noteq> UENUM"
  shows "ep_sel e t = e" and "data_to e' e t = []" and "(e1, r, v) \<in> set (ep_writes e t) \<Longrightarrow> r \<noteq> UEDATX"
proof -
  show "ep_sel e t = e" using assms by (intro no_UENUM(1)) blast
  show *: "(e1, r, v) \<in> set (ep_writes e t) \<Longrightarrow> r \<noteq> UEDATX" for e1 r v using assms by (intro no_UEDATX) blast+
  show "data_to e' e t = []" using * by (auto simp: data_to_def filter_empty_conv)
qed

lemma touches_wrote:
  assumes "touches W s s'" and "UENUM \<notin> W" "UEDATX \<notin> W"
  shows "wrote e s [] s'"
proof -
  obtain t st where t: "s' = s\<lparr>io := io s @ t, USB_DeviceState := st\<rparr>" "\<forall>r v. Wr r v \<in> set t \<longrightarrow> r \<in> W"
    using assms(1) unfolding touches_def by blast
  then have "\<forall>r v. Wr r v \<in> set t \<longrightarrow> r \<noteq> UEDATX \<and> r \<noteq> UENUM" using assms(2,3) by blast
  from no_ep_data [OF this] show ?thesis unfolding wrote_def using t(1) by (auto intro!: exI [of _ t]) blast
qed

lemma wrote_putchar:
  assumes "Serial_putchar w c s = Some (r, s')"
  shows "wrote e s [] s'"
proof -
  obtain s1 where s1: "iterate (\<lambda>s. let (ready, s) = Serial_IsSendReady w s in Some (if ready then Inl s else Inr s)) s = Some s1"
    and s': "s' = wr UDR1 c s1"
    using assms by (auto simp: Serial_putchar_def Serial_SendByte_def split: bind_splits)
  from s1 have "touches {UDR1} s s1"
  proof (induction rule: iterate_induct)
    case (stop s s1)
    then show ?case by (auto simp: Serial_IsSendReady_def split: prod.splits if_splits intro: touches_test_mask)
  next
    case (go s s2 s1)
    then show ?case by (auto simp: Serial_IsSendReady_def split: prod.splits if_splits intro: touches_test_mask touches_trans)
  qed
  then have "touches {UDR1} s s'" unfolding s' using touches_wr touches_trans by blast
  then show ?thesis by (rule touches_wrote) simp_all
qed

lemma wrote_polls_flags:
  "Endpoint_IsOUTReceived w s = (b, s') \<Longrightarrow> wrote e s [] s'" "Endpoint_IsINReady w s = (b, s') \<Longrightarrow> wrote e s [] s'"
  by (auto simp: ep_io wrote_def data_to_def)

text \<open>\<open>sent e xs s s'\<close>: between \<open>s\<close> and \<open>s'\<close> the data \<open>xs\<close> and nothing else went to endpoint \<open>e\<close>, and no data to any other
  endpoint but the control endpoint, whichever endpoint was selected at the start.\<close>

definition sent :: "u8 \<Rightarrow> u8 list \<Rightarrow> firmware \<Rightarrow> firmware \<Rightarrow> bool" where
  "sent e xs s s' \<longleftrightarrow> joy s' = joy s \<and> (\<exists>t. io s' = io s @ t \<and>
     (\<forall>e0. data_to e e0 t = xs \<and> (\<forall>(e', r, v) \<in> set (ep_writes e0 t). r = UEDATX \<longrightarrow> e' = e \<or> e' = 0)))"

lemma more_joy: "usb.more (s' :: firmware) = usb.more s \<longleftrightarrow> joy s' = joy s"
  by (cases s, cases s') simp

lemma sent_select:
  assumes "wrote e s1 xs s'" and "s1 = wr UENUM e s"
  shows "sent e xs s s'"
proof -
  obtain t where t: "io s' = io s1 @ t" "data_to e e t = xs" "\<forall>(e', r, v) \<in> set (ep_writes e t). r = UEDATX \<longrightarrow> e' = e \<or> e' = 0"
    and "joy s' = joy s1" using assms(1) unfolding wrote_def more_joy by blast
  then show ?thesis unfolding sent_def
    by (intro conjI exI [of _ "Wr UENUM e # t"]) (auto simp: assms(2) wr_def data_to_def)
qed

lemma select_eq:
  "Endpoint_SelectEndpoint JOYSTICK_OUT_EPADDR s = wr UENUM 2 s" "Endpoint_SelectEndpoint JOYSTICK_IN_EPADDR s = wr UENUM 1 s"
  by (simp_all add: Endpoint_SelectEndpoint_def JOYSTICK_OUT_EPADDR_def JOYSTICK_IN_EPADDR_def ENDPOINT_DIR_OUT_def
      ENDPOINT_DIR_IN_def ENDPOINT_EPNUM_MASK_def)

lemma ep_sel_select: "ep_sel 0 (io (wr UENUM e s)) = e"
  by (simp add: wr_def)

lemma HID_OUT_sent:
  assumes "HID_OUT u w s = Some s'" and w: "uenum_reads_back w"
  shows "sent 2 [] s s'"
proof -
  let ?s1 = "wr UENUM 2 s"
  obtain received s2 where s2: "Endpoint_IsOUTReceived w ?s1 = (received, s2)" by fastforce
  obtain allowed s3 where s3: "Endpoint_IsReadWriteAllowed w s2 = (allowed, s3)" by fastforce
  have w2: "wrote 2 ?s1 [] s2" by (rule wrote_polls_flags(1) [OF s2])
  have w3: "wrote 2 ?s1 [] s3" using wrote_trans [OF w2 wrote_poll [OF s3]] by simp
  have "wrote 2 ?s1 [] s'"
  proof (cases received)
    case False
    then show ?thesis using assms(1) s2 w2 by (simp add: HID_OUT_def select_eq)
  next
    case True
    then obtain s4 where s4: "(if allowed
        then do { (_, _, _, s) \<leftarrow> Endpoint_Read_Stream_LE w (USB_USBTask w (joystick_events u)) (JoystickOutputData u) 0
              (of_nat sizeof_Output) None s3; Some s }
        else Some s3) = Some s4" "s' = Endpoint_ClearOUT w s4"
      using assms(1) s2 s3 by (simp add: HID_OUT_def select_eq split: bind_splits)
    have "wrote 2 s3 [] s4"
    proof (cases allowed)
      case True
      then obtain code p m' where "Endpoint_Read_Stream_LE w (USB_USBTask w (joystick_events u)) (JoystickOutputData u) 0
          (of_nat sizeof_Output) None s3 = Some (code, p, m', s4)" using s4(1) by (auto split: bind_splits)
      from pad.read_stream_bytes [OF this w, of 2] show ?thesis using wrote_sel [OF w3 ep_sel_select] by simp
    next
      case False
      then show ?thesis using s4(1) by (simp add: wrote_refl)
    qed
    from wrote_trans [OF wrote_trans [OF w3 this] wrote_ClearOUT] show ?thesis by (simp add: s4(2))
  qed
  then show ?thesis by (rule sent_select) (rule refl)
qed

lemma HID_IN_sent:
  assumes "HID_IN u w s = Some s'" and w: "uenum_reads_back w"
  shows "\<exists>n \<le> 8. sent 1 (take n (report_bytes u (joy s))) s s'"
proof -
  let ?s1 = "wr UENUM 1 s" and ?r = "report_bytes u (joy s)"
  obtain ready s2 where s2: "Endpoint_IsINReady w ?s1 = (ready, s2)" by fastforce
  have w2: "wrote 1 ?s1 [] s2" by (rule wrote_polls_flags(2) [OF s2])
  have joy: "joy s2 = joy s" using w2 unfolding wrote_def more_joy by (simp add: wr_def)
  have "\<exists>n \<le> 8. wrote 1 ?s1 (take n ?r) s'"
  proof (cases ready)
    case False
    then show ?thesis using assms(1) s2 w2 by (intro exI [of _ 0]) (simp add: HID_IN_def select_eq)
  next
    case True
    then obtain code p m' s3 r where s3: "Endpoint_Write_Stream_LE w (USB_USBTask w (joystick_events u)) (object_mem ?r) 0 8 None s2 =
        Some (code, p, m', s3)" "Serial_putchar w 0x55 (Endpoint_ClearIN w s3) = Some (r, s')"
      using assms(1) s2 by (auto simp: HID_IN_def select_eq joy report_bytes_def Let_def split: bind_splits)
    from pad.write_stream_bytes [OF s3(1) w, of 1] obtain n where
      n: "n \<le> 8" "wrote 1 s2 (map (\<lambda>k. object_mem ?r (of_nat k)) [0..<n]) s3"
      using wrote_sel [OF w2 ep_sel_select] by auto
    have "take n (map (\<lambda>k. object_mem ?r (of_nat k)) [0..<8]) = map (\<lambda>k. object_mem ?r (of_nat k)) [0..<n]"
      using n(1) by (simp add: take_map take_upt del: upt_rec_numeral)
    then have "map (\<lambda>k. object_mem ?r (of_nat k)) [0..<n] = take n ?r" unfolding object_report ..
    with wrote_trans [OF w2 wrote_trans [OF n(2) wrote_trans [OF wrote_ClearIN wrote_putchar [OF s3(2)]]]]
    have "wrote 1 ?s1 (take n ?r) s'" by simp
    with n(1) show ?thesis by blast
  qed
  then obtain n where "n \<le> 8" "wrote 1 ?s1 (take n ?r) s'" by blast
  with sent_select [OF this(2) refl] show ?thesis by blast
qed

text \<open>C11: What \<^verbatim>\<open>HID_Task\<close> sends is the report and nothing else. Whatever the host and the bus do during the task,
  when it returns the data it has written to the IN endpoint is a beginning of the eight bytes of the current report; it has
  written no data to any endpoint but this one and the control endpoint, and the globals of the application are unchanged.\<close>

theorem HID_Task_sends_only_the_report:
  assumes "HID_Task u w s = Some s'" and "uenum_reads_back w"
  shows "joy s' = joy s \<and> (\<exists>t. io s' = io s @ t \<and> (\<forall>e0.
     prefix (data_to 1 e0 t) (bytes_of_Input (GetNextReport (joy s) (JoystickInputData u))) \<and>
     (\<forall>e. e \<noteq> 0 \<and> e \<noteq> 1 \<longrightarrow> data_to e e0 t = [])))"
proof -
  obtain st where get: "get_DeviceState w s = (st, s\<lparr>USB_DeviceState := st\<rparr>)" by (simp add: get_DeviceState_eq)
  show ?thesis
  proof (cases "st = DEVICE_STATE_Configured")
    case False
    then show ?thesis using assms(1) get by (auto simp: HID_Task_def)
  next
    case True
    then obtain s1 where s1: "HID_OUT u w (s\<lparr>USB_DeviceState := st\<rparr>) = Some s1" "HID_IN u w s1 = Some s'"
      using assms(1) get by (auto simp: HID_Task_def split: bind_splits)
    note out = HID_OUT_sent [OF s1(1) assms(2)]
    then have joy: "joy s1 = joy s" by (simp add: sent_def)
    obtain n where n: "sent 1 (take n (report_bytes u (joy s))) s1 s'" using HID_IN_sent [OF s1(2) assms(2)] joy by auto
    obtain t1 where t1: "io s1 = io s @ t1" "\<forall>e0. data_to 2 e0 t1 = []"
      "\<forall>e0. \<forall>(e', r, v) \<in> set (ep_writes e0 t1). r = UEDATX \<longrightarrow> e' = 2 \<or> e' = 0"
      using out by (auto simp: sent_def)
    obtain t2 where t2: "io s' = io s1 @ t2" "\<forall>e0. data_to 1 e0 t2 = take n (report_bytes u (joy s))"
      "\<forall>e0. \<forall>(e', r, v) \<in> set (ep_writes e0 t2). r = UEDATX \<longrightarrow> e' = 1 \<or> e' = 0"
      using n by (auto simp: sent_def)
    have none: "data_to e e0 t = []" if "\<forall>(e', r, v) \<in> set (ep_writes e0 t). r = UEDATX \<longrightarrow> e' = a \<or> e' = 0" "e \<noteq> 0" "e \<noteq> a"
      for e e0 t a using that by (fastforce simp: data_to_def filter_empty_conv)
    have "data_to e e0 t1 = []" if "e \<noteq> 0" for e e0
      using none [OF spec [OF t1(3)] that] t1(2) by (cases "e = 2") simp_all
    moreover have "data_to e e0 t2 = []" if "e \<noteq> 0" "e \<noteq> 1" for e e0
      by (rule none [OF spec [OF t2(3)] that])
    ultimately show ?thesis using t1(1) t2(1,2) n joy
      by (intro conjI exI [of _ "t1 @ t2"]) (auto simp: data_to_append take_is_prefix report_bytes_def sent_def)
  qed
qed

text \<open>A bus on which the pad can always send, with a serial port that delivers the bytes \<open>cs\<close>, and a configured pad.\<close>

definition pad_world :: "u8 list \<Rightarrow> world" where
  "pad_world cs =
     \<lparr>dev = (\<lambda>h r. if r = UENUM then ep_sel 0 h
        else if r = UEINTX then (if ep_sel 0 h = 1 then bv TXINI OR bv RWAL else 0)
        else if r = UECFG0X then bv EPDIR else if r = UCSR1A then bv UDRE1 OR bv RXC1
        else if r = UDR1 then cs ! length (reads UDR1 h) else 0),
      irq = (\<lambda>h. None), sig_row = (\<lambda>a. 0)\<rparr>"

definition pad_configured :: "joystick \<Rightarrow> firmware" where
  "pad_configured j = usb.extend (usb_init\<lparr>USB_DeviceState := DEVICE_STATE_Configured\<rparr>) \<lparr>joy = j\<rparr>"

definition zero_locals :: locals where
  "zero_locals = \<lparr>JoystickInputData = \<lparr>Button = 0, HAT = 0, LX = 0, LY = 0, RX = 0, RY = 0, VendorSpec = 0\<rparr>, JoystickOutputData = (\<lambda>a. 0)\<rparr>"

lemma pad_configured_simps [simp]:
  "io (pad_configured j) = []" "joy (pad_configured j) = j" "USB_DeviceState (pad_configured j) = DEVICE_STATE_Configured"
  by (simp_all add: pad_configured_def usb.extend_def)

lemma ep_sel_no_writes: "writes UENUM t = [] \<Longrightarrow> ep_sel e t = e"
  by (induction e t rule: ep_sel.induct) (auto split: if_splits)

lemma pad_world_host: "pad_host (pad_world cs) h"
proof -
  have flags: "has (bv TXINI OR bv RWAL) (bv TXINI)" "has (bv TXINI OR bv RWAL) (bv RWAL)" "has (bv EPDIR) (bv EPDIR)" "has (bv UDRE1 OR bv RXC1) (bv UDRE1)"
    "\<not> has 0 (bv RXOUTI)"
    by (simp_all add: has_def bv_def)
  show ?thesis
    by (simp add: pad_host_def ready_in_def out_history_def pad_world_def flags ep_sel_no_writes)
qed

lemma pad_world_uenum: "uenum_reads_back (pad_world cs)"
  by (simp add: uenum_reads_back_def pad_world_def)

theorem HID_Task_sends_only_the_report_witness:
  "\<exists>s' t. HID_Task zero_locals (pad_world []) (pad_configured joystick_init) = Some s' \<and> io s' = t \<and>
     prefix (data_to 1 0 t) (bytes_of_Input (GetNextReport joystick_init (JoystickInputData zero_locals))) \<and> data_to 2 0 t = []"
proof -
  obtain s' where r: "HID_Task zero_locals (pad_world []) (pad_configured joystick_init) = Some s'"
    using HID_Task_sends [OF pad_world_host, of "pad_configured joystick_init" zero_locals] by auto
  have "(2 :: u8) \<noteq> 0 \<and> (2 :: u8) \<noteq> 1" by simp
  then show ?thesis using HID_Task_sends_only_the_report [OF r pad_world_uenum] r by auto
qed

subsection \<open>Requests of the host\<close>

lemma ControlRequest_passes: "bRequest (USB_ControlRequest s) = 6 \<Longrightarrow> EVENT_USB_Device_ControlRequest u w s = Some s"
  by (simp add: EVENT_USB_Device_ControlRequest_def HID_REQ_GetReport_def HID_REQ_SetReport_def)

lemma descriptor_of_known:
  "wValue req = 0x0100 \<Longrightarrow> descriptor_of w req = bytes_of_Device DeviceDescriptor"
  "wValue req = 0x0200 \<Longrightarrow> descriptor_of w req = bytes_of_Configuration ConfigurationDescriptor"
  "wValue req = 0x2200 \<Longrightarrow> descriptor_of w req = JoystickReport"
  by (simp_all add: descriptor_of_def CALLBACK_USB_GetDescriptor_def dtype_defs hi8_def lo8_def DeviceDescriptor_bytes
      ConfigurationDescriptor_bytes sizeof_JoystickReport)

text \<open>C9: The host reads the descriptors of the pad through the whole stack. When a request for a descriptor that the
  device has arrives at the control endpoint of the attached pad, one call of \<^verbatim>\<open>USB_USBTask\<close> with the
  events of the pad returns, and the packets it has sent are the descriptor, cut at the length the host asked for;
  for the device descriptor, the configuration and the report descriptor these are the bytes of \<^verbatim>\<open>Descriptors.c\<close>.\<close>

theorem host_reads_descriptor:
  assumes "request_host w (select_history w (io s)) req" and "irq w (io s) = None" "attached s"
    and "bRequest req = REQ_GetDescriptor" "bmRequestType req = 0x80 \<or> bmRequestType req = 0x81" and "descriptor_of w req \<noteq> []"
  shows "\<exists>t. USB_USBTask w (joystick_events u) s = Some (s\<lparr>USB_ControlRequest := req, io := io s @ t\<rparr>) \<and>
     concat (packets [] t) = take (unat (wLength req)) (descriptor_of w req) \<and>
     (wValue req = 0x0100 \<longrightarrow> descriptor_of w req = bytes_of_Device DeviceDescriptor) \<and>
     (wValue req = 0x0200 \<longrightarrow> descriptor_of w req = bytes_of_Configuration ConfigurationDescriptor) \<and>
     (wValue req = 0x2200 \<longrightarrow> descriptor_of w req = JoystickReport)"
proof -
  have 6: "bRequest req = 6" using assms(4) by (simp add: REQ_GetDescriptor_def)
  have "ControlRequest_event (joystick_events u) w s = Some s" if "USB_ControlRequest s = req" for s
    using that 6 by (simp add: joystick_events_def ControlRequest_passes)
  from USBTask_GetDescriptor [OF assms(1-3) 6 assms(5,6), of "joystick_events u"] this
  show ?thesis using descriptor_of_known by simp
qed

text \<open>The request for the first eight bytes of the device descriptor.\<close>

definition device_request :: USB_Request_Header_t where
  "device_request = \<lparr>bmRequestType = 0x80, bRequest = 6, wValue = 0x0100, wIndex = 0, wLength = 8\<rparr>"

theorem host_reads_descriptor_witness:
  "\<exists>t. USB_USBTask (asking_host (select_history (const_world (\<lambda>r. 0)) []) device_request) (joystick_events zero_locals)
        (pad_configured joystick_init) = Some ((pad_configured joystick_init)\<lparr>USB_ControlRequest := device_request, io := t\<rparr>) \<and>
     concat (packets [] t) = take 8 (bytes_of_Device DeviceDescriptor)"
proof -
  let ?req = device_request
  let ?h = "select_history (const_world (\<lambda>r. 0)) []"
  let ?w = "asking_host ?h ?req"
  have h: "select_history ?w (io (pad_configured joystick_init)) = ?h"
    by (simp add: select_history_def rd_history_def asking_host_def)
  have "descriptor_of ?w ?req \<noteq> []" using descriptor_of_known(1) [of ?req ?w] by (simp add: DeviceDescriptor_bytes device_request_def)
  moreover have "irq ?w (io (pad_configured joystick_init)) = None" by (simp add: asking_host_def)
  ultimately show ?thesis
    using host_reads_descriptor [of ?w "pad_configured joystick_init" ?req zero_locals] asking_host_ok [of ?h ?req] h
    by (auto simp: attached_def REQ_GetDescriptor_def device_request_def)
qed

text \<open>C34: A host that asks for the report with a class request gets it: if the host takes the packets the pad offers, the
  event handler returns and the packets it has sent are the report of the current state, cut at the length the host asked for.
  The last byte is the one \<^verbatim>\<open>GetNextReport\<close> never sets: it is whatever the memory held before.\<close>

theorem get_report_reply:
  assumes "bRequest (USB_ControlRequest s) = HID_REQ_GetReport" and "bmRequestType (USB_ControlRequest s) = 0xA1" and "attached s"
    and "h = io s @ [Rd UEINTX v, Wr UEINTX (v AND NOT (bv RXSTPI))]" and "v = dev w (io s) UEINTX"
    and "bank_counts w h" and "control_host w h (unat (wLength (USB_ControlRequest s)))"
  shows "\<exists>t. EVENT_USB_Device_ControlRequest u w s = Some (s\<lparr>io := h @ t\<rparr>) \<and>
    concat (packets [] t) = take (unat (wLength (USB_ControlRequest s)))
      (le16 (buttons (joy s)) @ [HAT2 (joy s), LX2 (joy s), LY2 (joy s), RX2 (joy s), RY2 (joy s), VendorSpec (JoystickInputData u)])"
proof -
  let ?n = "wLength (USB_ControlRequest s)" and ?r = "report_bytes u (joy s)"
  let ?s1 = "s\<lparr>io := h\<rparr>"
  have s1: "Endpoint_ClearSETUP w s = ?s1" by (simp add: ClearSETUP_eq assms(4,5))
  obtain t where t: "Control_W w (\<lambda>k. object_mem ?r (pos_LE 0 k)) 8 ?s1 = Some (ENDPOINT_RWCSTREAM_NoError, ?s1\<lparr>io := io ?s1 @ t\<rparr>)"
    "bank_fill [] t = []" "prefix (packets [] t) (control_reply (\<lambda>k. object_mem ?r (pos_LE 0 k)) 8 ?n)" "host_done (unat ?n) (packets [] t)"
    using Control_W_runs [of w ?s1 "\<lambda>k. object_mem ?r (pos_LE 0 k)" 8] assms(3,6,7) by (auto simp: attached_def)
  have "concat (packets [] t) = take (unat ?n) ?r"
    using host_done_prefix [OF t(3,4)] object_reply [of 8 ?r "unat ?n"] by simp
  moreover have "?r = le16 (buttons (joy s)) @ [HAT2 (joy s), LX2 (joy s), LY2 (joy s), RX2 (joy s), RY2 (joy s), VendorSpec (JoystickInputData u)]"
    by (simp add: report_bytes_def GetNextReport_def bytes_of_Input_def)
  moreover define c where "c = dev w (h @ t) UEINTX"
  moreover have "EVENT_USB_Device_ControlRequest u w s = Some (s\<lparr>io := h @ (t @ [Rd UEINTX c, Wr UEINTX (c AND NOT (bv RXOUTI OR bv FIFOCON))])\<rparr>)"
    using assms(1,2) t(1) unfolding EVENT_USB_Device_ControlRequest_def s1
    by (simp add: REQDIR_DEVICETOHOST_def REQTYPE_CLASS_def REQREC_INTERFACE_def Endpoint_Write_Control_Stream_LE_def report_bytes_def
        Endpoint_ClearOUT_def clear_mask_eq c_def)
  ultimately show ?thesis using t(2)
    by (intro exI [of _ "t @ [Rd UEINTX c, Wr UEINTX (c AND NOT (bv RXOUTI OR bv FIFOCON))]"]) simp
qed

text \<open>The request for the report of the pad.\<close>

definition report_request :: "u16 \<Rightarrow> USB_Request_Header_t" where
  "report_request n = \<lparr>bmRequestType = 0xA1, bRequest = HID_REQ_GetReport, wValue = 0x0100, wIndex = 0, wLength = n\<rparr>"

theorem get_report_reply_witness:
  "\<exists>t. EVENT_USB_Device_ControlRequest zero_locals (prompt_host [Rd UEINTX 1, Wr UEINTX 1] 2)
        ((pad_configured (joystick_init\<lparr>buttons := 0x1234\<rparr>))\<lparr>USB_ControlRequest := report_request 2\<rparr>) =
      Some ((pad_configured (joystick_init\<lparr>buttons := 0x1234\<rparr>))\<lparr>USB_ControlRequest := report_request 2, io := [Rd UEINTX 1, Wr UEINTX 1] @ t\<rparr>) \<and>
     concat (packets [] t) = [0x34, 0x12]"
proof -
  let ?h = "[Rd UEINTX 1, Wr UEINTX 1]" and ?s = "(pad_configured (joystick_init\<lparr>buttons := 0x1234\<rparr>))\<lparr>USB_ControlRequest := report_request 2\<rparr>"
  have v: "dev (prompt_host ?h 2) [] UEINTX = 1" by (simp add: prompt_host_def host_done_def bv_def)
  have h: "?h = io ?s @ [Rd UEINTX 1, Wr UEINTX (1 AND NOT (bv RXSTPI))]" by (simp add: bv_def)
  show ?thesis
    using get_report_reply [of ?s ?h 1 "prompt_host ?h 2" zero_locals] h v prompt_host_counts [of ?h 2] prompt_host_ok [of ?h 2]
    by (simp add: report_request_def attached_def le16_def lo8_def hi8_def)
qed

subsection \<open>Bytes from the serial port\<close>

lemma getchar_received:
  assumes "\<forall>t. list_all is_read t \<and> reads UDR1 t = [] \<longrightarrow> has (dev w (io s @ t) UCSR1A) (bv RXC1) \<and> dev w (io s @ t) UDR1 = c"
  shows "\<exists>t. fgetc_stdin w s = (uint c, s\<lparr>io := io s @ t\<rparr>) \<and> list_all is_read t \<and> reads UDR1 t = [c]"
proof -
  have r: "has (dev w (io s @ t) UCSR1A) (bv RXC1)" "dev w (io s @ t) UDR1 = c" if "list_all is_read t" "reads UDR1 t = []" for t
    using assms that by blast+
  let ?a = "Rd UCSR1A (dev w (io s) UCSR1A)"
  let ?b = "Rd UCSR1A (dev w (io s @ [?a]) UCSR1A)"
  have "has (dev w (io s) UCSR1A) (bv RXC1)" "has (dev w (io s @ [?a]) UCSR1A) (bv RXC1)" "dev w (io s @ [?a, ?b]) UDR1 = c"
    using r [of "[]"] r [of "[?a]"] r [of "[?a, ?b]"] by simp_all
  then have "fgetc_stdin w s = (uint c, s\<lparr>io := io s @ [?a, ?b, Rd UDR1 c]\<rparr>)"
    by (simp add: fgetc_stdin_def Serial_getchar_def serial_defs io_simps)
  then show ?thesis by (intro exI [of _ "[?a, ?b, Rd UDR1 c]"]) simp
qed

lemma SendByte_hangs:
  assumes "\<forall>t. list_all is_read t \<longrightarrow> \<not> has (dev w (io s @ t) UCSR1A) (bv UDRE1)"
  shows "Serial_SendByte w c s = None"
proof -
  let ?I = "\<lambda>x. \<exists>t. list_all is_read t \<and> x = s\<lparr>io := io s @ t\<rparr>"
  have "iterate (\<lambda>s. let (ready, s) = Serial_IsSendReady w s in Some (if ready then Inl s else Inr s)) s = None"
  proof (rule iterate_hangs [where I = ?I])
    show "?I s" by (intro exI [of _ "[]"]) simp
    fix x
    assume "?I x"
    then obtain t where t: "list_all is_read t" "x = s\<lparr>io := io s @ t\<rparr>" by blast
    then show "\<exists>x'. (let (ready, s) = Serial_IsSendReady w x in Some (if ready then Inl s else Inr s)) = Some (Inr x') \<and> ?I x'"
      using assms by (auto simp: Serial_IsSendReady_def io_simps intro!: exI [of _ "t @ [Rd UCSR1A (dev w (io s @ t) UCSR1A)]"])
  qed
  then show ?thesis by (simp add: Serial_SendByte_def)
qed

text \<open>C35: The receive interrupt stores the byte it was raised for. If a byte \<open>c\<close> is waiting and the overrun test fails, the
  handler only reads registers, takes \<open>c\<close> out of the data register and appends it to the buffer. If the overrun test succeeds
  while the transmitter never becomes ready, the handler does not return: the report of the overrun blocks the firmware.\<close>

theorem rx_interrupt_stores:
  assumes "\<forall>t. list_all is_read t \<and> reads UDR1 t = [] \<longrightarrow> has (dev w (io s @ t) UCSR1A) (bv RXC1) \<and> dev w (io s @ t) UDR1 = c"
  shows "(\<not> rx_overrun (joy s) \<longrightarrow> (\<exists>t. USART1_RX_vect w s = Some (s\<lparr>io := io s @ t, joy := rx_store c (joy s)\<rparr>) \<and>
       list_all is_read t \<and> reads UDR1 t = [c])) \<and>
    (rx_overrun (joy s) \<and> (\<forall>t. list_all is_read t \<longrightarrow> \<not> has (dev w (io s @ t) UCSR1A) (bv UDRE1)) \<longrightarrow> USART1_RX_vect w s = None)"
proof (intro conjI impI)
  assume "\<not> rx_overrun (joy s)"
  moreover obtain t where "fgetc_stdin w s = (uint c, s\<lparr>io := io s @ t\<rparr>)" "list_all is_read t" "reads UDR1 t = [c]"
    using getchar_received [OF assms] by blast
  ultimately show "\<exists>t. USART1_RX_vect w s = Some (s\<lparr>io := io s @ t, joy := rx_store c (joy s)\<rparr>) \<and> list_all is_read t \<and> reads UDR1 t = [c]"
    by (auto simp: USART1_RX_vect_def)
next
  assume "rx_overrun (joy s) \<and> (\<forall>t. list_all is_read t \<longrightarrow> \<not> has (dev w (io s @ t) UCSR1A) (bv UDRE1))"
  then show "USART1_RX_vect w s = None" using SendByte_hangs [of w s] by (simp add: USART1_RX_vect_def Serial_putchar_def)
qed

theorem rx_interrupt_stores_witness:
  "\<exists>t. USART1_RX_vect (const_world (\<lambda>r. 0x80)) (pad_configured joystick_init) =
      Some ((pad_configured joystick_init)\<lparr>io := t, joy := rx_store 0x80 joystick_init\<rparr>) \<and> reads UDR1 t = [0x80]"
proof -
  have "has 0x80 (bv RXC1)" by (simp add: has_def bv_def)
  moreover have "\<not> rx_overrun joystick_init" by (simp add: rx_overrun_def joystick_init_def)
  ultimately show ?thesis
    using rx_interrupt_stores [of "const_world (\<lambda>r. 0x80)" "pad_configured joystick_init" "0x80"] by auto
qed

text \<open>The interrupts of a message: a serial port that delivers the bytes \<open>cs\<close> after the history \<open>h\<close>, and the handler run once
  for each of them.\<close>

definition serial_host :: "world \<Rightarrow> history \<Rightarrow> u8 list \<Rightarrow> bool" where
  "serial_host w h cs \<longleftrightarrow> (\<forall>t. list_all is_read t \<and> length (reads UDR1 t) < length cs \<longrightarrow>
     has (dev w (h @ t) UCSR1A) (bv RXC1) \<and> dev w (h @ t) UDR1 = cs ! length (reads UDR1 t))"

fun rx_interrupts :: "world \<Rightarrow> nat \<Rightarrow> firmware \<Rightarrow> firmware option" where
  "rx_interrupts w 0 s = Some s"
| "rx_interrupts w (Suc n) s = do { s \<leftarrow> USART1_RX_vect w s; rx_interrupts w n s }"

lemma rx_interrupts_store:
  assumes "serial_host w h cs" and "io s = h @ t" and "list_all is_read t" and "length (reads UDR1 t) + n = length cs"
    and "\<And>i. i < n \<Longrightarrow> \<not> rx_overrun (fold rx_store (take i (drop (length cs - n) cs)) (joy s))"
  shows "\<exists>t'. rx_interrupts w n s = Some (s\<lparr>io := h @ t', joy := fold rx_store (drop (length cs - n) cs) (joy s)\<rparr>) \<and> list_all is_read t'"
  using assms(2-5)
proof (induction n arbitrary: s t)
  case 0
  then show ?case by (intro exI [of _ t]) simp
next
  case (Suc n)
  let ?k = "length cs - Suc n"
  let ?c = "cs ! ?k"
  have k: "length (reads UDR1 t) = ?k" "?k < length cs" using Suc.prems(3) by simp_all
  have d: "drop ?k cs = ?c # drop (length cs - n) cs"
    using k(2) Suc.prems(3) by (metis Cons_nth_drop_Suc Suc_diff_Suc Suc_le_lessD le_add2)
  have "\<forall>t'. list_all is_read t' \<and> reads UDR1 t' = [] \<longrightarrow> has (dev w (io s @ t') UCSR1A) (bv RXC1) \<and> dev w (io s @ t') UDR1 = ?c"
  proof (intro allI impI)
    fix t'
    assume "list_all is_read t' \<and> reads UDR1 t' = []"
    then show "has (dev w (io s @ t') UCSR1A) (bv RXC1) \<and> dev w (io s @ t') UDR1 = ?c"
      using assms(1) [unfolded serial_host_def, rule_format, of "t @ t'"] Suc.prems(1,2) k by simp
  qed
  from getchar_received [OF this] obtain u where u: "fgetc_stdin w s = (uint ?c, s\<lparr>io := io s @ u\<rparr>)" "list_all is_read u" "reads UDR1 u = [?c]"
    by blast
  let ?s1 = "s\<lparr>io := io s @ u, joy := rx_store ?c (joy s)\<rparr>"
  have "\<not> rx_overrun (joy s)" using Suc.prems(4) [of 0] by simp
  then have isr: "USART1_RX_vect w s = Some ?s1" using u(1) by (simp add: USART1_RX_vect_def)
  have fit: "\<not> rx_overrun (fold rx_store (take i (drop (length cs - n) cs)) (joy ?s1))" if "i < n" for i
    using Suc.prems(4) [of "Suc i"] that by (simp add: d)
  have "io ?s1 = h @ (t @ u)" "list_all is_read (t @ u)" "length (reads UDR1 (t @ u)) + n = length cs"
    using Suc.prems(1-3) u(2,3) by simp_all
  from Suc.IH [OF this fit] obtain t' where "rx_interrupts w n ?s1 = Some (?s1\<lparr>io := h @ t', joy := fold rx_store (drop (length cs - n) cs) (joy ?s1)\<rparr>)" "list_all is_read t'"
    by auto
  then show ?case using isr d by (intro exI [of _ t']) simp
qed

lemma pad_world_serial: "serial_host (pad_world cs) [] cs"
proof -
  have "has (bv UDRE1 OR bv RXC1) (bv RXC1)" by (simp add: has_def bv_def)
  then show ?thesis by (simp add: serial_host_def pad_world_def)
qed

end
