(* ===== verification/USBController.thy ===== *)
theory USBController
  imports DeviceStandardReq
begin

text \<open>
  Bringing the USB controller up and down (\<^verbatim>\<open>Core/AVR8/USBController_AVR8.h\<close>, \<^verbatim>\<open>USBController_AVR8.c\<close>,
  \<^verbatim>\<open>Device_AVR8.c\<close>), with the functions that switch the interrupts of the controller (\<^verbatim>\<open>USBInterrupt_AVR8.h\<close>, \<^verbatim>\<open>.c\<close>).
  The parts that the preprocessor removes for a device on the ATmega16U2 are left out, as in the compiled code.
  Waiting for the PLL has no bound, so the functions that do it return an option.
\<close>

subsection \<open>Options\<close>

definition USB_OPT_REG_DISABLED :: u8 where "USB_OPT_REG_DISABLED = bv 1"
definition USB_OPT_REG_ENABLED :: u8 where "USB_OPT_REG_ENABLED = 0"
definition USB_OPT_REG_KEEP_ENABLED :: u8 where "USB_OPT_REG_KEEP_ENABLED = bv 3"
definition USB_OPT_MANUAL_PLL :: u8 where "USB_OPT_MANUAL_PLL = bv 2"
definition USB_OPT_AUTO_PLL :: u8 where "USB_OPT_AUTO_PLL = 0"
definition USB_DEVICE_OPT_FULLSPEED :: u8 where "USB_DEVICE_OPT_FULLSPEED = 0"

definition USB_Options :: u8 where
  "USB_Options = USB_DEVICE_OPT_FULLSPEED OR USB_OPT_REG_ENABLED OR USB_OPT_AUTO_PLL"

abbreviation (input) "PLLP0 \<equiv> 2 :: nat"

definition USB_PLL_PSC :: u8 where "USB_PLL_PSC = bv PLLP0"

subsection \<open>Interrupt sources\<close>

datatype USB_Interrupts_t = USB_INT_WAKEUPI | USB_INT_SUSPI | USB_INT_EORSTI | USB_INT_SOFI | USB_INT_RXSTPI

abbreviation (input) "WAKEUPE \<equiv> 4 :: nat"
abbreviation (input) "SUSPE \<equiv> 0 :: nat"
abbreviation (input) "EORSTE \<equiv> 3 :: nat"
abbreviation (input) "SOFE \<equiv> 2 :: nat"

fun USB_INT_Enable :: "world \<Rightarrow> USB_Interrupts_t \<Rightarrow> 'a usb_scheme \<Rightarrow> 'a usb_scheme" where
  "USB_INT_Enable w USB_INT_WAKEUPI s = set_mask w UDIEN (bv WAKEUPE) s"
| "USB_INT_Enable w USB_INT_SUSPI s = set_mask w UDIEN (bv SUSPE) s"
| "USB_INT_Enable w USB_INT_EORSTI s = set_mask w UDIEN (bv EORSTE) s"
| "USB_INT_Enable w USB_INT_SOFI s = set_mask w UDIEN (bv SOFE) s"
| "USB_INT_Enable w USB_INT_RXSTPI s = set_mask w UEIENX (bv RXSTPE) s"

fun USB_INT_Disable :: "world \<Rightarrow> USB_Interrupts_t \<Rightarrow> 'a usb_scheme \<Rightarrow> 'a usb_scheme" where
  "USB_INT_Disable w USB_INT_WAKEUPI s = clear_mask w UDIEN (bv WAKEUPE) s"
| "USB_INT_Disable w USB_INT_SUSPI s = clear_mask w UDIEN (bv SUSPE) s"
| "USB_INT_Disable w USB_INT_EORSTI s = clear_mask w UDIEN (bv EORSTE) s"
| "USB_INT_Disable w USB_INT_SOFI s = clear_mask w UDIEN (bv SOFE) s"
| "USB_INT_Disable w USB_INT_RXSTPI s = clear_mask w UEIENX (bv RXSTPE) s"

fun USB_INT_Clear :: "world \<Rightarrow> USB_Interrupts_t \<Rightarrow> 'a usb_scheme \<Rightarrow> 'a usb_scheme" where
  "USB_INT_Clear w USB_INT_WAKEUPI s = clear_mask w UDINT (bv WAKEUPI) s"
| "USB_INT_Clear w USB_INT_SUSPI s = clear_mask w UDINT (bv SUSPI) s"
| "USB_INT_Clear w USB_INT_EORSTI s = clear_mask w UDINT (bv EORSTI) s"
| "USB_INT_Clear w USB_INT_SOFI s = clear_mask w UDINT (bv SOFI) s"
| "USB_INT_Clear w USB_INT_RXSTPI s = clear_mask w UEINTX (bv RXSTPI) s"

fun USB_INT_IsEnabled :: "world \<Rightarrow> USB_Interrupts_t \<Rightarrow> 'a usb_scheme \<Rightarrow> bool \<times> 'a usb_scheme" where
  "USB_INT_IsEnabled w USB_INT_WAKEUPI s = test_mask w UDIEN (bv WAKEUPE) s"
| "USB_INT_IsEnabled w USB_INT_SUSPI s = test_mask w UDIEN (bv SUSPE) s"
| "USB_INT_IsEnabled w USB_INT_EORSTI s = test_mask w UDIEN (bv EORSTE) s"
| "USB_INT_IsEnabled w USB_INT_SOFI s = test_mask w UDIEN (bv SOFE) s"
| "USB_INT_IsEnabled w USB_INT_RXSTPI s = test_mask w UEIENX (bv RXSTPE) s"

fun USB_INT_HasOccurred :: "world \<Rightarrow> USB_Interrupts_t \<Rightarrow> 'a usb_scheme \<Rightarrow> bool \<times> 'a usb_scheme" where
  "USB_INT_HasOccurred w USB_INT_WAKEUPI s = test_mask w UDINT (bv WAKEUPI) s"
| "USB_INT_HasOccurred w USB_INT_SUSPI s = test_mask w UDINT (bv SUSPI) s"
| "USB_INT_HasOccurred w USB_INT_EORSTI s = test_mask w UDINT (bv EORSTI) s"
| "USB_INT_HasOccurred w USB_INT_SOFI s = test_mask w UDINT (bv SOFI) s"
| "USB_INT_HasOccurred w USB_INT_RXSTPI s = test_mask w UEINTX (bv RXSTPI) s"

definition USB_INT_DisableAllInterrupts :: "'a usb_scheme \<Rightarrow> 'a usb_scheme" where
  "USB_INT_DisableAllInterrupts s = wr UDIEN 0 s"

definition USB_INT_ClearAllInterrupts :: "'a usb_scheme \<Rightarrow> 'a usb_scheme" where
  "USB_INT_ClearAllInterrupts s = wr UDINT 0 s"

subsection \<open>Clocks, regulator and attachment\<close>

definition USB_Detach :: "world \<Rightarrow> 'a usb_scheme \<Rightarrow> 'a usb_scheme" where
  "USB_Detach w s = set_mask w UDCON (bv DETACH) s"

definition USB_Attach :: "world \<Rightarrow> 'a usb_scheme \<Rightarrow> 'a usb_scheme" where
  "USB_Attach w s = clear_mask w UDCON (bv DETACH) s"

definition USB_PLL_On :: "'a usb_scheme \<Rightarrow> 'a usb_scheme" where
  "USB_PLL_On s = wr PLLCSR (USB_PLL_PSC OR bv PLLE) (wr PLLCSR USB_PLL_PSC s)"

definition USB_PLL_Off :: "'a usb_scheme \<Rightarrow> 'a usb_scheme" where
  "USB_PLL_Off s = wr PLLCSR 0 s"

definition USB_PLL_IsReady :: "world \<Rightarrow> 'a usb_scheme \<Rightarrow> bool \<times> 'a usb_scheme" where
  "USB_PLL_IsReady w s = test_mask w PLLCSR (bv PLOCK) s"

definition USB_REG_On :: "world \<Rightarrow> 'a usb_scheme \<Rightarrow> 'a usb_scheme" where
  "USB_REG_On w s = clear_mask w REGCR (bv REGDIS) s"

definition USB_REG_Off :: "world \<Rightarrow> 'a usb_scheme \<Rightarrow> 'a usb_scheme" where
  "USB_REG_Off w s = set_mask w REGCR (bv REGDIS) s"

definition USB_CLK_Freeze :: "world \<Rightarrow> 'a usb_scheme \<Rightarrow> 'a usb_scheme" where
  "USB_CLK_Freeze w s = set_mask w USBCON (bv FRZCLK) s"

definition USB_CLK_Unfreeze :: "world \<Rightarrow> 'a usb_scheme \<Rightarrow> 'a usb_scheme" where
  "USB_CLK_Unfreeze w s = clear_mask w USBCON (bv FRZCLK) s"

definition USB_Controller_Enable :: "world \<Rightarrow> 'a usb_scheme \<Rightarrow> 'a usb_scheme" where
  "USB_Controller_Enable w s = set_mask w USBCON (bv USBE) s"

definition USB_Controller_Disable :: "world \<Rightarrow> 'a usb_scheme \<Rightarrow> 'a usb_scheme" where
  "USB_Controller_Disable w s = clear_mask w USBCON (bv USBE) s"

definition USB_Controller_Reset :: "world \<Rightarrow> 'a usb_scheme \<Rightarrow> 'a usb_scheme" where
  "USB_Controller_Reset w s = set_mask w USBCON (bv USBE) (clear_mask w USBCON (bv USBE) s)"

text \<open>\<^verbatim>\<open>USB_PLL_On(); while (!(USB_PLL_IsReady()));\<close>\<close>

definition PLL_start :: "world \<Rightarrow> 'a usb_scheme \<Rightarrow> 'a usb_scheme option" where
  "PLL_start w s = iterate (\<lambda>s. let (ready, s) = USB_PLL_IsReady w s in Some (if ready then Inl s else Inr s)) (USB_PLL_On s)"

subsection \<open>Initialisation\<close>

definition USB_Init_Device :: "world \<Rightarrow> 'a usb_scheme \<Rightarrow> 'a usb_scheme option" where
  "USB_Init_Device w s =
     do {
       let s = s\<lparr>USB_DeviceState := DEVICE_STATE_Unattached, USB_Device_ConfigurationNumber := 0,
                 USB_Device_RemoteWakeupEnabled := False, USB_Device_CurrentlySelfPowered := False\<rparr>;
       (_, s) \<leftarrow> Endpoint_ConfigureEndpoint w ENDPOINT_CONTROLEP EP_TYPE_CONTROL (ucast FIXED_CONTROL_ENDPOINT_SIZE) 1 s;
       let s = USB_INT_Clear w USB_INT_SUSPI s;
       let s = USB_INT_Enable w USB_INT_SUSPI s;
       let s = USB_INT_Enable w USB_INT_EORSTI s;
       Some (USB_Attach w s)
     }"

definition USB_ResetInterface :: "world \<Rightarrow> 'a usb_scheme \<Rightarrow> 'a usb_scheme option" where
  "USB_ResetInterface w s =
     do {
       let s = USB_INT_ClearAllInterrupts (USB_INT_DisableAllInterrupts s);
       let s = USB_Controller_Reset w s;
       let s = USB_CLK_Unfreeze w s;
       s \<leftarrow> (if \<not> has USB_Options USB_OPT_MANUAL_PLL then PLL_start w s else Some s);
       USB_Init_Device w s
     }"

definition USB_Init :: "world \<Rightarrow> 'a usb_scheme \<Rightarrow> 'a usb_scheme option" where
  "USB_Init w s =
     (let s = (if \<not> has USB_Options USB_OPT_REG_DISABLED then USB_REG_On w s else USB_REG_Off w s)
      in USB_ResetInterface w (s\<lparr>USB_IsInitialized := True\<rparr>))"

definition USB_Disable :: "world \<Rightarrow> 'a usb_scheme \<Rightarrow> 'a usb_scheme" where
  "USB_Disable w s =
     (let s = USB_INT_ClearAllInterrupts (USB_INT_DisableAllInterrupts s);
          s = USB_Controller_Disable w (USB_Detach w s);
          s = (if \<not> has USB_Options USB_OPT_MANUAL_PLL then USB_PLL_Off s else s);
          s = (if \<not> has USB_Options USB_OPT_REG_KEEP_ENABLED then USB_REG_Off w s else s)
      in s\<lparr>USB_IsInitialized := False\<rparr>)"

subsection \<open>Remote wakeup and frame events\<close>

definition USB_Device_SendRemoteWakeup :: "world \<Rightarrow> 'a usb_scheme \<Rightarrow> 'a usb_scheme option" where
  "USB_Device_SendRemoteWakeup w s =
     do {
       s \<leftarrow> (if \<not> has USB_Options USB_OPT_MANUAL_PLL then PLL_start w s else Some s);
       let s = USB_CLK_Unfreeze w s;
       let s = set_mask w UDCON (bv RMWKUP) s;
       iterate (\<lambda>s. let (busy, s) = test_mask w UDCON (bv RMWKUP) s in Some (if busy then Inr s else Inl s)) s
     }"

definition USB_Device_EnableSOFEvents :: "world \<Rightarrow> 'a usb_scheme \<Rightarrow> 'a usb_scheme" where
  "USB_Device_EnableSOFEvents w s = USB_INT_Enable w USB_INT_SOFI s"

definition USB_Device_DisableSOFEvents :: "world \<Rightarrow> 'a usb_scheme \<Rightarrow> 'a usb_scheme" where
  "USB_Device_DisableSOFEvents w s = USB_INT_Disable w USB_INT_SOFI s"

end
