(* ===== verification/USBInterrupt.thy ===== *)
theory USBInterrupt
  imports USBController
begin

text \<open>
  The interrupt handler of the USB controller (\<^verbatim>\<open>Core/AVR8/USBInterrupt_AVR8.c\<close>): suspend, wakeup and bus reset,
  and the life cycle they drive. On this controller, which cannot see the bus voltage, a suspended bus
  counts as a detached one (\<^verbatim>\<open>NO_LIMITED_CONTROLLER_CONNECT\<close> is not defined). The events of the application are a parameter.
\<close>

subsection \<open>The handler\<close>

record 's interrupt_events =
  Connect_event :: "'s \<Rightarrow> 's"
  Disconnect_event :: "'s \<Rightarrow> 's"
  Reset_event :: "'s \<Rightarrow> 's"
  StartOfFrame_event :: "'s \<Rightarrow> 's"

text \<open>\<^verbatim>\<open>USB_INT_HasOccurred(i) && USB_INT_IsEnabled(i)\<close>: the second register is read only if the flag is set.\<close>

definition int_raised :: "world \<Rightarrow> USB_Interrupts_t \<Rightarrow> 'a usb_scheme \<Rightarrow> bool \<times> 'a usb_scheme" where
  "int_raised w i s = (let (occurred, s) = USB_INT_HasOccurred w i s in if occurred then USB_INT_IsEnabled w i s else (False, s))"

definition GEN_SOFI :: "world \<Rightarrow> 'a usb_scheme interrupt_events \<Rightarrow> 'a usb_scheme \<Rightarrow> 'a usb_scheme" where
  "GEN_SOFI w ev s =
     (let (raised, s) = int_raised w USB_INT_SOFI s in
      if raised then StartOfFrame_event ev (USB_INT_Clear w USB_INT_SOFI s) else s)"

definition GEN_SUSPI :: "world \<Rightarrow> 'a usb_scheme interrupt_events \<Rightarrow> 'a usb_scheme \<Rightarrow> 'a usb_scheme" where
  "GEN_SUSPI w ev s =
     (let (raised, s) = int_raised w USB_INT_SUSPI s in
      if raised then
        let s = USB_INT_Disable w USB_INT_SUSPI s;
            s = USB_INT_Enable w USB_INT_WAKEUPI s;
            s = USB_CLK_Freeze w s;
            s = (if \<not> has USB_Options USB_OPT_MANUAL_PLL then USB_PLL_Off s else s)
        in Disconnect_event ev (s\<lparr>USB_DeviceState := DEVICE_STATE_Unattached\<rparr>)
      else s)"

definition GEN_WAKEUPI :: "world \<Rightarrow> 'a usb_scheme interrupt_events \<Rightarrow> 'a usb_scheme \<Rightarrow> 'a usb_scheme option" where
  "GEN_WAKEUPI w ev s =
     (let (raised, s) = int_raised w USB_INT_WAKEUPI s in
      if raised then
        do {
          s \<leftarrow> (if \<not> has USB_Options USB_OPT_MANUAL_PLL then PLL_start w s else Some s);
          let s = USB_CLK_Unfreeze w s;
          let s = USB_INT_Clear w USB_INT_WAKEUPI s;
          let s = USB_INT_Disable w USB_INT_WAKEUPI s;
          let s = USB_INT_Enable w USB_INT_SUSPI s;
          let s = (if USB_Device_ConfigurationNumber s \<noteq> 0 then s\<lparr>USB_DeviceState := DEVICE_STATE_Configured\<rparr>
                   else let (set, s) = USB_Device_IsAddressSet w s
                        in s\<lparr>USB_DeviceState := if set then DEVICE_STATE_Addressed else DEVICE_STATE_Powered\<rparr>);
          Some (Connect_event ev s)
        }
      else Some s)"

definition GEN_EORSTI :: "world \<Rightarrow> 'a usb_scheme interrupt_events \<Rightarrow> 'a usb_scheme \<Rightarrow> 'a usb_scheme option" where
  "GEN_EORSTI w ev s =
     (let (raised, s) = int_raised w USB_INT_EORSTI s in
      if raised then
        do {
          let s = USB_INT_Clear w USB_INT_EORSTI s;
          let s = s\<lparr>USB_DeviceState := DEVICE_STATE_Default, USB_Device_ConfigurationNumber := 0\<rparr>;
          let s = USB_INT_Clear w USB_INT_SUSPI s;
          let s = USB_INT_Disable w USB_INT_SUSPI s;
          let s = USB_INT_Enable w USB_INT_WAKEUPI s;
          (_, s) \<leftarrow> Endpoint_ConfigureEndpoint w ENDPOINT_CONTROLEP EP_TYPE_CONTROL (ucast FIXED_CONTROL_ENDPOINT_SIZE) 1 s;
          Some (Reset_event ev s)
        }
      else Some s)"

definition USB_GEN_vect :: "world \<Rightarrow> 'a usb_scheme interrupt_events \<Rightarrow> 'a usb_scheme \<Rightarrow> 'a usb_scheme option" where
  "USB_GEN_vect w ev s =
     do {
       let s = GEN_SOFI w ev s;
       let s = GEN_SUSPI w ev s;
       s \<leftarrow> GEN_WAKEUPI w ev s;
       GEN_EORSTI w ev s
     }"

subsection \<open>Registers that keep what is written to them\<close>

text \<open>The control registers of the controller are plain storage: a read gives the last value written, or zero after
  power-up. This is what the hardware documents of \<^verbatim>\<open>UDIEN\<close> and \<^verbatim>\<open>USBCON\<close>.\<close>

fun last_wr :: "reg \<Rightarrow> u8 \<Rightarrow> history \<Rightarrow> u8" where
  "last_wr r x [] = x"
| "last_wr r x (Wr r' v # h) = last_wr r (if r' = r then v else x) h"
| "last_wr r x (Rd r' v # h) = last_wr r x h"

lemma last_wr_append [simp]: "last_wr r x (h @ h') = last_wr r (last_wr r x h) h'"
  by (induction r x h rule: last_wr.induct) auto

lemma last_wr_other: "\<forall>v. Wr r v \<notin> set t \<Longrightarrow> last_wr r x t = x"
  by (induction r x t rule: last_wr.induct) auto

definition stores :: "world \<Rightarrow> reg \<Rightarrow> bool" where
  "stores w r \<longleftrightarrow> (\<forall>h. dev w h r = last_wr r 0 h)"

abbreviation content :: "reg \<Rightarrow> 'a usb_scheme \<Rightarrow> u8" where
  "content r s \<equiv> last_wr r 0 (io s)"

lemma touches_content: "touches W s s' \<Longrightarrow> r \<notin> W \<Longrightarrow> content r s' = content r s"
proof -
  assume "touches W s s'" "r \<notin> W"
  then obtain t st where "s' = s\<lparr>io := io s @ t, USB_DeviceState := st\<rparr>" "\<forall>v. Wr r v \<notin> set t" unfolding touches_def by blast
  then show ?thesis by (simp add: last_wr_other)
qed

lemma content_wr [simp]: "content r (wr r' v s) = (if r' = r then v else content r s)"
  by (simp add: wr_def)

lemma content_masks [simp]:
  "r' \<noteq> r \<Longrightarrow> content r (set_mask w r' m s) = content r s" "r' \<noteq> r \<Longrightarrow> content r (clear_mask w r' m s) = content r s"
  "stores w r \<Longrightarrow> content r (set_mask w r m s) = content r s OR m"
  "stores w r \<Longrightarrow> content r (clear_mask w r m s) = content r s AND NOT m"
  by (simp_all add: set_mask_eq clear_mask_eq stores_def)

lemma state_masks [simp]:
  "USB_DeviceState (set_mask w r m s) = USB_DeviceState s" "USB_DeviceState (clear_mask w r m s) = USB_DeviceState s"
  "USB_DeviceState (wr r v s) = USB_DeviceState s"
  by (simp_all add: set_mask_eq clear_mask_eq wr_def)

lemma content_poll: "test_mask w r m s = (b, s') \<Longrightarrow> content r' s' = content r' s \<and> USB_DeviceState s' = USB_DeviceState s"
  by (auto simp: test_mask_eq)

lemma content_int_raised:
  assumes "int_raised w i s = (b, s')"
  shows "content r s' = content r s" and "USB_DeviceState s' = USB_DeviceState s"
  using assms by (cases i; auto simp: int_raised_def io_simps split: if_splits)+

lemma raised_enabled:
  assumes "int_raised w i s = (True, s')" and "stores w UDIEN"
  shows "case i of USB_INT_WAKEUPI \<Rightarrow> has (content UDIEN s) (bv WAKEUPE) | USB_INT_SUSPI \<Rightarrow> has (content UDIEN s) (bv SUSPE)
    | USB_INT_EORSTI \<Rightarrow> has (content UDIEN s) (bv EORSTE) | USB_INT_SOFI \<Rightarrow> has (content UDIEN s) (bv SOFE) | USB_INT_RXSTPI \<Rightarrow> True"
  using assms by (cases i; auto simp: int_raised_def io_simps stores_def split: if_splits)

lemma PLL_start_sound:
  assumes "PLL_start w s = Some s'"
  shows "\<exists>t v. s' = s\<lparr>io := io s @ t @ [Rd PLLCSR v]\<rparr> \<and> has v (bv PLOCK) \<and> (\<forall>r v. Wr r v \<in> set t \<longrightarrow> r = PLLCSR)"
proof -
  have "\<exists>t v. s' = s\<lparr>io := io s @ t @ [Rd PLLCSR v]\<rparr> \<and> has v (bv PLOCK) \<and> list_all is_read t"
    if "iterate (\<lambda>s. let (ready, s) = USB_PLL_IsReady w s in Some (if ready then Inl s else Inr s)) s = Some s'"
    for s s' :: "'a usb_scheme"
    using that
  proof (induction rule: iterate_induct)
    case (stop s s')
    then show ?case by (intro exI [of _ "[]"]) (auto simp: USB_PLL_IsReady_def io_simps split: if_splits)
  next
    case (go s s1 s')
    let ?a = "Rd PLLCSR (dev w (io s) PLLCSR)"
    have s1: "s1 = s\<lparr>io := io s @ [?a]\<rparr>" using go(1) by (auto simp: USB_PLL_IsReady_def io_simps split: if_splits)
    obtain t v where "s' = s1\<lparr>io := io s1 @ t @ [Rd PLLCSR v]\<rparr>" "has v (bv PLOCK)" "list_all is_read t" using go(2) by blast
    then show ?case by (intro exI [of _ "?a # t"] exI [of _ v]) (simp add: s1)
  qed
  from this [OF assms [unfolded PLL_start_def]] obtain t v where
    t: "s' = (USB_PLL_On s)\<lparr>io := io (USB_PLL_On s) @ t @ [Rd PLLCSR v]\<rparr>" "has v (bv PLOCK)" "list_all is_read t" by blast
  then show ?thesis
    by (intro exI [of _ "[Wr PLLCSR USB_PLL_PSC, Wr PLLCSR (USB_PLL_PSC OR bv PLLE)] @ t"] exI [of _ v])
      (auto simp: USB_PLL_On_def wr_def list_all_iff)
qed

lemma content_PLL_start:
  assumes "PLL_start w s = Some s'" and "r \<noteq> PLLCSR"
  shows "content r s' = content r s" and "USB_DeviceState s' = USB_DeviceState s"
proof -
  obtain t v where t: "s' = s\<lparr>io := io s @ t @ [Rd PLLCSR v]\<rparr>" "\<forall>r v. Wr r v \<in> set t \<longrightarrow> r = PLLCSR"
    using PLL_start_sound [OF assms(1)] by blast
  then have "\<forall>v. Wr r v \<notin> set t" using assms(2) by blast
  then show "content r s' = content r s" using last_wr_other [of r t] t(1) by simp
  show "USB_DeviceState s' = USB_DeviceState s" using t(1) by simp
qed

subsection \<open>The interrupt sources stay consistent\<close>

text \<open>\<open>int_ok s\<close>: the controller is on, the bus reset interrupt is enabled, exactly one of the suspend and the wakeup interrupt is
  enabled, a frozen clock comes with an enabled wakeup interrupt, and the device state is one of those this
  configuration of the stack uses.\<close>

definition int_ok :: "'a usb_scheme \<Rightarrow> bool" where
  "int_ok s \<longleftrightarrow> bit (content USBCON s) USBE \<and> bit (content UDIEN s) EORSTE \<and> (bit (content UDIEN s) SUSPE \<longleftrightarrow> \<not> bit (content UDIEN s) WAKEUPE) \<and>
     (bit (content USBCON s) FRZCLK \<longrightarrow> bit (content UDIEN s) WAKEUPE) \<and> USB_DeviceState s \<noteq> DEVICE_STATE_Suspended"

text \<open>What the life cycle needs of the application: its events leave the control registers and the device state alone.\<close>

definition keeps_int :: "'a usb_scheme \<Rightarrow> 'a usb_scheme \<Rightarrow> bool" where
  "keeps_int s s' \<longleftrightarrow> content UDIEN s' = content UDIEN s \<and> content USBCON s' = content USBCON s \<and> USB_DeviceState s' = USB_DeviceState s"

lemma int_ok_keeps: "keeps_int s s' \<Longrightarrow> int_ok s \<Longrightarrow> int_ok s'"
  by (simp add: keeps_int_def int_ok_def)

lemma int_ok_raised: "int_raised w i s = (b, s') \<Longrightarrow> int_ok s \<Longrightarrow> int_ok s'"
  using content_int_raised [of w i s b s'] by (simp add: int_ok_def)

lemma auto_options [simp]:
  "\<not> has USB_Options USB_OPT_MANUAL_PLL" "\<not> has USB_Options USB_OPT_REG_DISABLED" "\<not> has USB_Options USB_OPT_REG_KEEP_ENABLED"
  by (simp_all add: USB_Options_def USB_DEVICE_OPT_FULLSPEED_def USB_OPT_REG_ENABLED_def USB_OPT_AUTO_PLL_def has_def)

lemma configure_keeps:
  assumes "Endpoint_ConfigureEndpoint w Address ep_type ep_size Banks s = Some (ok, s')"
  shows "content UDIEN s' = content UDIEN s" and "content USBCON s' = content USBCON s" and "USB_DeviceState s' = USB_DeviceState s"
proof -
  note t = touches_ConfigureEndpoint [OF assms]
  show "content UDIEN s' = content UDIEN s" "content USBCON s' = content USBCON s" by (rule touches_content [OF t]; simp)+
  have "USB_DeviceState s' = USB_DeviceState s" if "Configure_loop w N d0 d1 N s = (ok, s')" "\<not> 5 \<le> N" for N d0 d1
    using Configure_loop_emits [of N N w d0 d1 s ok s' 0] that by (auto simp: emits_def)
  then show "USB_DeviceState s' = USB_DeviceState s"
    using assms by (auto simp: Endpoint_ConfigureEndpoint_def Endpoint_ConfigureEndpoint_Prv_def ENDPOINT_TOTAL_ENDPOINTS_def Let_def
        split: if_splits bind_splits)
qed

lemma Configure_loop_ok:
  assumes "\<forall>h. has (dev w h UESTA0X) (bv CFGOK)"
  shows "fst (Configure_loop w N d0 d1 k s)"
  using assms
proof (induction w N d0 d1 k s rule: Configure_loop.induct)
  case (1 w N d0 d1 k s)
  let ?s0 = "Endpoint_SelectEndpoint (of_nat k) s"
  obtain c0 c1 ie s1 where s1: "(if k = N then (d0, d1, 0, ?s0)
      else let (a, s) = rd w UECFG0X ?s0; (b, s) = rd w UECFG1X s; (c, s) = rd w UEIENX s in (a, b, c, s)) = (c0, c1, ie, s1)"
    by (metis prod_cases4)
  have "fst (configure_turn w c0 c1 ie s1)"
    using "1.prems" by (simp add: configure_turn_def Endpoint_IsConfigured_def test_mask_eq Let_def)
  then obtain s2 where s2: "configure_turn w c0 c1 ie s1 = (True, s2)" by (cases "configure_turn w c0 c1 ie s1") simp
  show ?case
  proof (cases "k < ENDPOINT_TOTAL_ENDPOINTS")
    case False
    then show ?thesis by (subst Configure_loop.simps) simp
  next
    case k: True
    show ?thesis
    proof (cases "has c1 (bv ALLOC)")
      case False
      with k s1 have "fst (Configure_loop w N d0 d1 (k + 1) s1)"
        using "1.IH"(1) [OF k refl s1 [symmetric] refl refl] "1.prems" by simp
      then show ?thesis using k s1 False by (subst Configure_loop.simps) (simp add: Let_def)
    next
      case True
      then have "fst (Configure_loop w N d0 d1 (k + 1) s2)"
        using "1.IH"(2) [OF k refl s1 [symmetric] refl refl] s2 "1.prems" by simp
      then show ?thesis using k s1 s2 True by (subst Configure_loop.simps) (simp add: Let_def)
    qed
  qed
qed

locale device_events =
  fixes ev :: "'a usb_scheme interrupt_events"
  assumes connect: "keeps_int s (Connect_event ev s)" and disconnect: "keeps_int s (Disconnect_event ev s)"
    and reset: "keeps_int s (Reset_event ev s)" and frame: "keeps_int s (StartOfFrame_event ev s)"
begin

lemma int_ok_SOFI:
  assumes "int_ok s"
  shows "int_ok (GEN_SOFI w ev s)"
proof -
  obtain b s1 where s1: "int_raised w USB_INT_SOFI s = (b, s1)" by fastforce
  have "int_ok (USB_INT_Clear w USB_INT_SOFI s1)" using int_ok_raised [OF s1 assms] by (simp add: int_ok_def)
  then show ?thesis using s1 int_ok_raised [OF s1 assms] int_ok_keeps [OF frame] by (simp add: GEN_SOFI_def)
qed

lemma int_ok_SUSPI:
  assumes "int_ok s" and "stores w UDIEN" "stores w USBCON"
  shows "int_ok (GEN_SUSPI w ev s)"
proof -
  obtain b s1 where s1: "int_raised w USB_INT_SUSPI s = (b, s1)" by fastforce
  define s2 where "s2 = USB_PLL_Off (USB_CLK_Freeze w (USB_INT_Enable w USB_INT_WAKEUPI (USB_INT_Disable w USB_INT_SUSPI s1)))"
  have "int_ok (s2\<lparr>USB_DeviceState := DEVICE_STATE_Unattached\<rparr>)"
    using int_ok_raised [OF s1 assms(1)] assms(2,3)
    by (simp add: s2_def int_ok_def USB_PLL_Off_def USB_CLK_Freeze_def bit_or_iff bit_and_iff bit_not_iff bit_bv)
  then show ?thesis using s1 int_ok_raised [OF s1 assms(1)] int_ok_keeps [OF disconnect] by (simp add: GEN_SUSPI_def s2_def Let_def)
qed

lemma int_ok_WAKEUPI:
  assumes "GEN_WAKEUPI w ev s = Some s'" and "int_ok s" and "stores w UDIEN" "stores w USBCON"
  shows "int_ok s'"
proof -
  obtain b s1 where s1: "int_raised w USB_INT_WAKEUPI s = (b, s1)" by fastforce
  note ok1 = int_ok_raised [OF s1 assms(2)]
  show ?thesis
  proof (cases b)
    case False
    then show ?thesis using assms(1) s1 ok1 by (simp add: GEN_WAKEUPI_def)
  next
    case True
    then obtain s2 where s2: "PLL_start w s1 = Some s2" using assms(1) s1 by (auto simp: GEN_WAKEUPI_def split: bind_splits)
    have ok2: "int_ok s2" using ok1 content_PLL_start [OF s2, of UDIEN] content_PLL_start [OF s2, of USBCON] by (simp add: int_ok_def)
    define s3 where "s3 = USB_INT_Enable w USB_INT_SUSPI (USB_INT_Disable w USB_INT_WAKEUPI (USB_INT_Clear w USB_INT_WAKEUPI (USB_CLK_Unfreeze w s2)))"
    have ok3: "int_ok (s3\<lparr>USB_DeviceState := st\<rparr>)" if "st \<noteq> DEVICE_STATE_Suspended" for st
      using ok2 assms(3,4) that
      by (simp add: s3_def int_ok_def USB_CLK_Unfreeze_def bit_or_iff bit_and_iff bit_not_iff bit_bv)
    obtain set s4 where s4: "USB_Device_IsAddressSet w s3 = (set, s4)" by fastforce
    have "int_ok (s4\<lparr>USB_DeviceState := if set then DEVICE_STATE_Addressed else DEVICE_STATE_Powered\<rparr>)"
      using s4 ok3 [of DEVICE_STATE_Addressed] ok3 [of DEVICE_STATE_Powered] by (auto simp: USB_Device_IsAddressSet_def test_mask_eq int_ok_def)
    then have "int_ok (if USB_Device_ConfigurationNumber s3 \<noteq> 0 then s3\<lparr>USB_DeviceState := DEVICE_STATE_Configured\<rparr>
        else s4\<lparr>USB_DeviceState := if set then DEVICE_STATE_Addressed else DEVICE_STATE_Powered\<rparr>)"
      using ok3 [of DEVICE_STATE_Configured] by simp
    from int_ok_keeps [OF connect this] show ?thesis using assms(1) s1 True s2 s4 unfolding s3_def [symmetric]
      by (simp add: GEN_WAKEUPI_def Let_def s3_def cong: if_cong)
  qed
qed

lemma int_ok_EORSTI:
  assumes "GEN_EORSTI w ev s = Some s'" and "int_ok s" and "stores w UDIEN"
  shows "int_ok s'"
proof -
  obtain b s1 where s1: "int_raised w USB_INT_EORSTI s = (b, s1)" by fastforce
  note ok1 = int_ok_raised [OF s1 assms(2)]
  show ?thesis
  proof (cases b)
    case False
    then show ?thesis using assms(1) s1 ok1 by (simp add: GEN_EORSTI_def)
  next
    case True
    define s2 where "s2 = (USB_INT_Clear w USB_INT_EORSTI s1)\<lparr>USB_DeviceState := DEVICE_STATE_Default, USB_Device_ConfigurationNumber := 0\<rparr>"
    define s3 where "s3 = USB_INT_Enable w USB_INT_WAKEUPI (USB_INT_Disable w USB_INT_SUSPI (USB_INT_Clear w USB_INT_SUSPI s2))"
    have "int_ok s2" using ok1 by (simp add: s2_def int_ok_def)
    then have ok3: "int_ok s3"
      using assms(3) by (simp add: s3_def int_ok_def bit_or_iff bit_and_iff bit_not_iff bit_bv)
    obtain ok s4 where s4: "Endpoint_ConfigureEndpoint w ENDPOINT_CONTROLEP EP_TYPE_CONTROL (ucast FIXED_CONTROL_ENDPOINT_SIZE) 1 s3 = Some (ok, s4)"
      and s': "s' = Reset_event ev s4"
      using assms(1) s1 True by (auto simp: GEN_EORSTI_def Let_def s2_def s3_def split: bind_splits)
    have "int_ok s4" using ok3 configure_keeps [OF s4] by (simp add: int_ok_def)
    then show ?thesis unfolding s' by (rule int_ok_keeps [OF reset])
  qed
qed

lemma int_ok_GEN_vect:
  assumes "USB_GEN_vect w ev s = Some s'" and "int_ok s" and "stores w UDIEN" "stores w USBCON"
  shows "int_ok s'"
proof -
  obtain s1 where s1: "GEN_WAKEUPI w ev (GEN_SUSPI w ev (GEN_SOFI w ev s)) = Some s1" "GEN_EORSTI w ev s1 = Some s'"
    using assms(1) by (auto simp: USB_GEN_vect_def Let_def split: bind_splits)
  have "int_ok s1" by (rule int_ok_WAKEUPI [OF s1(1) int_ok_SUSPI [OF int_ok_SOFI [OF assms(2)] assms(3,4)] assms(3,4)])
  then show ?thesis by (rule int_ok_EORSTI [OF s1(2) _ assms(3)])
qed

end

lemma Init_Device_int_ok:
  assumes "USB_Init_Device w s = Some s'" and "stores w UDIEN" and "content UDIEN s = 0"
    and "bit (content USBCON s) USBE" "\<not> bit (content USBCON s) FRZCLK"
  shows "int_ok s'"
proof -
  define s0 where "s0 = s\<lparr>USB_DeviceState := DEVICE_STATE_Unattached, USB_Device_ConfigurationNumber := 0,
                 USB_Device_RemoteWakeupEnabled := False, USB_Device_CurrentlySelfPowered := False\<rparr>"
  obtain ok s1 where s1: "Endpoint_ConfigureEndpoint w ENDPOINT_CONTROLEP EP_TYPE_CONTROL (ucast FIXED_CONTROL_ENDPOINT_SIZE) 1 s0 = Some (ok, s1)"
    and s': "s' = USB_Attach w (USB_INT_Enable w USB_INT_EORSTI (USB_INT_Enable w USB_INT_SUSPI (USB_INT_Clear w USB_INT_SUSPI s1)))"
    using assms(1) by (auto simp: USB_Init_Device_def Let_def s0_def split: bind_splits)
  have "content r s0 = content r s" for r by (simp add: s0_def)
  moreover have "USB_DeviceState s1 = DEVICE_STATE_Unattached" using configure_keeps(3) [OF s1] by (simp add: s0_def)
  ultimately show ?thesis using configure_keeps(1,2) [OF s1] assms(2-5)
    by (simp add: s' USB_Attach_def int_ok_def bit_or_iff bit_bv)
qed

lemma Init_int_ok:
  assumes "USB_Init w s = Some s'" and "stores w UDIEN" "stores w USBCON"
  shows "int_ok s'"
proof -
  define s1 where "s1 = USB_CLK_Unfreeze w (USB_Controller_Reset w (USB_INT_ClearAllInterrupts (USB_INT_DisableAllInterrupts
      ((USB_REG_On w s)\<lparr>USB_IsInitialized := True\<rparr>))))"
  obtain s2 where s2: "PLL_start w s1 = Some s2" "USB_Init_Device w s2 = Some s'"
    using assms(1) by (auto simp: USB_Init_def USB_ResetInterface_def Let_def s1_def split: bind_splits)
  have "content UDIEN s1 = 0" "bit (content USBCON s1) USBE" "\<not> bit (content USBCON s1) FRZCLK"
    using assms(2,3)
    by (simp_all add: s1_def USB_CLK_Unfreeze_def USB_Controller_Reset_def USB_INT_ClearAllInterrupts_def USB_INT_DisableAllInterrupts_def
        bit_or_iff bit_and_iff bit_not_iff bit_bv)
  then show ?thesis using content_PLL_start(1) [OF s2(1)] by (intro Init_Device_int_ok [OF s2(2) assms(2)]) simp_all
qed

text \<open>The life cycle: the stack is initialised once after power-up; then interrupts are handled between stretches of the
  main program, which writes neither of the two control registers and never stores \<open>DEVICE_STATE_Suspended\<close>.\<close>

inductive lifecycle :: "world \<Rightarrow> 'a usb_scheme interrupt_events \<Rightarrow> 'a usb_scheme \<Rightarrow> bool" for w ev where
  start: "USB_Init w s = Some s' \<Longrightarrow> lifecycle w ev s'"
| interrupt: "lifecycle w ev s \<Longrightarrow> USB_GEN_vect w ev s = Some s' \<Longrightarrow> lifecycle w ev s'"
| program: "lifecycle w ev s \<Longrightarrow> io s' = io s @ t \<Longrightarrow> \<forall>v. Wr UDIEN v \<notin> set t \<and> Wr USBCON v \<notin> set t \<Longrightarrow>
    USB_DeviceState s' \<noteq> DEVICE_STATE_Suspended \<Longrightarrow> lifecycle w ev s'"

context device_events
begin

lemma lifecycle_int_ok:
  assumes "lifecycle w ev s" and "stores w UDIEN" "stores w USBCON"
  shows "int_ok s"
  using assms(1)
proof (induction rule: lifecycle.induct)
  case (start s s')
  then show ?case by (rule Init_int_ok [OF _ assms(2,3)])
next
  case (interrupt s s')
  then show ?case using int_ok_GEN_vect assms(2,3) by blast
next
  case (program s s' t)
  then show ?case by (simp add: int_ok_def last_wr_other)
qed

end

subsection \<open>The clock runs from a locked PLL\<close>

text \<open>\<open>clock_run L t\<close>: in the trace \<open>t\<close> the clock of the controller is released only while the last thing the program has seen
  of the PLL is that it is locked; \<open>L\<close> says so for the start of the trace.\<close>

fun clock_run :: "bool \<Rightarrow> history \<Rightarrow> bool" where
  "clock_run L [] = True"
| "clock_run L (Wr r v # t) =
     (if r = USBCON then (bit v FRZCLK \<or> L) \<and> clock_run L t else if r = PLLCSR then clock_run False t else clock_run L t)"
| "clock_run L (Rd r v # t) = (if r = PLLCSR then clock_run (has v (bv PLOCK)) t else clock_run L t)"

lemma clock_run_append: "clock_run L t \<Longrightarrow> (\<And>L. clock_run L t') \<Longrightarrow> clock_run L (t @ t')"
  by (induction L t rule: clock_run.induct) auto

lemma clock_run_other: "\<forall>v. Wr USBCON v \<notin> set t \<Longrightarrow> clock_run L t"
  by (induction L t rule: clock_run.induct) auto

lemma clock_run_locked: "\<forall>v. Wr USBCON v \<notin> set t \<Longrightarrow> has x (bv PLOCK) \<Longrightarrow> clock_run True t' \<Longrightarrow> clock_run L (t @ Rd PLLCSR x # t')"
  by (induction L t rule: clock_run.induct) auto

definition clocked :: "'a usb_scheme \<Rightarrow> 'a usb_scheme \<Rightarrow> bool" where
  "clocked s s' \<longleftrightarrow> (\<exists>t. io s' = io s @ t \<and> (\<forall>L. clock_run L t))"

lemma clocked_trans [trans]:
  assumes "clocked s s'" and "clocked s' s''"
  shows "clocked s s''"
proof -
  obtain t t' where "io s' = io s @ t" "\<forall>L. clock_run L t" "io s'' = io s' @ t'" "\<forall>L. clock_run L t'"
    using assms unfolding clocked_def by blast
  then show ?thesis unfolding clocked_def by (intro exI [of _ "t @ t'"]) (auto intro: clock_run_append)
qed

lemma clocked_same: "io s' = io s \<Longrightarrow> clocked s s'"
  by (simp add: clocked_def)

lemma clocked_mask:
  "r \<noteq> USBCON \<Longrightarrow> clocked s (set_mask w r m s)" "r \<noteq> USBCON \<Longrightarrow> clocked s (clear_mask w r m s)" "r \<noteq> USBCON \<Longrightarrow> clocked s (wr r v s)"
  "clocked s (USB_CLK_Freeze w s)"
  by (auto simp: clocked_def io_simps USB_CLK_Freeze_def bit_or_iff bit_bv)

lemma clocked_int:
  "clocked s (USB_INT_Enable w i s)" "clocked s (USB_INT_Disable w i s)" "clocked s (USB_INT_Clear w i s)"
  by (cases i; simp add: clocked_mask)+

lemma clocked_raised: "int_raised w i s = (b, s') \<Longrightarrow> clocked s s'"
  by (cases i; auto simp: int_raised_def io_simps clocked_def split: if_splits)

lemma clocked_touches: "touches W s s' \<Longrightarrow> USBCON \<notin> W \<Longrightarrow> clocked s s'"
proof -
  assume "touches W s s'" "USBCON \<notin> W"
  then obtain t st where "s' = s\<lparr>io := io s @ t, USB_DeviceState := st\<rparr>" "\<forall>v. Wr USBCON v \<notin> set t" unfolding touches_def by blast
  then show ?thesis unfolding clocked_def by (auto intro: clock_run_other)
qed

lemma clocked_wake:
  assumes "PLL_start w s = Some s'"
  shows "clocked s (USB_CLK_Unfreeze w s')"
proof -
  obtain t v where t: "s' = s\<lparr>io := io s @ t @ [Rd PLLCSR v]\<rparr>" "has v (bv PLOCK)" "\<forall>r v. Wr r v \<in> set t \<longrightarrow> r = PLLCSR"
    using PLL_start_sound [OF assms] by blast
  then have "\<forall>v. Wr USBCON v \<notin> set t" by blast
  from clock_run_locked [OF this t(2)] show ?thesis
    unfolding clocked_def by (auto simp: USB_CLK_Unfreeze_def clear_mask_eq t(1))
qed

text \<open>Events that do nothing the stack can see; they satisfy the contract of the life cycle.\<close>

locale silent_events =
  fixes ev :: "'a usb_scheme interrupt_events"
  assumes silent: "f = Connect_event ev \<or> f = Disconnect_event ev \<or> f = Reset_event ev \<or> f = StartOfFrame_event ev \<Longrightarrow>
    io (f s) = io s \<and> USB_DeviceState (f s) = USB_DeviceState s \<and> USB_Device_ConfigurationNumber (f s) = USB_Device_ConfigurationNumber s"

sublocale silent_events \<subseteq> device_events
  by unfold_locales (use silent in \<open>simp_all add: keeps_int_def\<close>)

context silent_events
begin

lemma clocked_event: "f = Connect_event ev \<or> f = Disconnect_event ev \<or> f = Reset_event ev \<or> f = StartOfFrame_event ev \<Longrightarrow> clocked s (f s)"
  using silent by (intro clocked_same) blast

lemma clocked_SOFI: "clocked s (GEN_SOFI w ev s)"
proof -
  obtain b s1 where s1: "int_raised w USB_INT_SOFI s = (b, s1)" by fastforce
  have "clocked s1 (USB_INT_Clear w USB_INT_SOFI s1)" by (rule clocked_int)
  also have "clocked \<dots> (StartOfFrame_event ev (USB_INT_Clear w USB_INT_SOFI s1))" by (rule clocked_event) simp
  finally show ?thesis using s1 clocked_raised [OF s1] by (auto simp: GEN_SOFI_def intro: clocked_trans)
qed

lemma clocked_SUSPI: "clocked s (GEN_SUSPI w ev s)"
proof -
  obtain b s1 where s1: "int_raised w USB_INT_SUSPI s = (b, s1)" by fastforce
  let ?s2 = "USB_CLK_Freeze w (USB_INT_Enable w USB_INT_WAKEUPI (USB_INT_Disable w USB_INT_SUSPI s1))"
  have "clocked s1 (USB_INT_Disable w USB_INT_SUSPI s1)" by (rule clocked_int)
  also have "clocked \<dots> (USB_INT_Enable w USB_INT_WAKEUPI (USB_INT_Disable w USB_INT_SUSPI s1))" by (rule clocked_int)
  also have "clocked \<dots> ?s2" by (rule clocked_mask)
  also have "clocked \<dots> (USB_PLL_Off ?s2)" unfolding USB_PLL_Off_def by (rule clocked_mask) simp
  also have "clocked \<dots> ((USB_PLL_Off ?s2)\<lparr>USB_DeviceState := DEVICE_STATE_Unattached\<rparr>)" by (rule clocked_same) simp
  also have "clocked \<dots> (Disconnect_event ev ((USB_PLL_Off ?s2)\<lparr>USB_DeviceState := DEVICE_STATE_Unattached\<rparr>))" by (rule clocked_event) simp
  finally show ?thesis using s1 clocked_raised [OF s1] by (auto simp: GEN_SUSPI_def Let_def intro: clocked_trans)
qed

lemma clocked_WAKEUPI:
  assumes "GEN_WAKEUPI w ev s = Some s'"
  shows "clocked s s'"
proof -
  obtain b s1 where s1: "int_raised w USB_INT_WAKEUPI s = (b, s1)" by fastforce
  show ?thesis
  proof (cases b)
    case False
    then show ?thesis using assms s1 clocked_raised [OF s1] by (simp add: GEN_WAKEUPI_def)
  next
    case True
    then obtain s2 where s2: "PLL_start w s1 = Some s2" using assms s1 by (auto simp: GEN_WAKEUPI_def split: bind_splits)
    let ?s3 = "USB_CLK_Unfreeze w s2"
    let ?s4 = "USB_INT_Enable w USB_INT_SUSPI (USB_INT_Disable w USB_INT_WAKEUPI (USB_INT_Clear w USB_INT_WAKEUPI ?s3))"
    let ?s5 = "if USB_Device_ConfigurationNumber ?s4 \<noteq> 0 then ?s4\<lparr>USB_DeviceState := DEVICE_STATE_Configured\<rparr>
                   else let (set, s) = USB_Device_IsAddressSet w ?s4
                        in s\<lparr>USB_DeviceState := if set then DEVICE_STATE_Addressed else DEVICE_STATE_Powered\<rparr>"
    note clocked_raised [OF s1]
    also note clocked_wake [OF s2]
    also have "clocked ?s3 (USB_INT_Clear w USB_INT_WAKEUPI ?s3)" by (rule clocked_int)
    also have "clocked \<dots> (USB_INT_Disable w USB_INT_WAKEUPI (USB_INT_Clear w USB_INT_WAKEUPI ?s3))" by (rule clocked_int)
    also have "clocked \<dots> ?s4" by (rule clocked_int)
    also have "clocked ?s4 ?s5"
      by (auto simp: clocked_same USB_Device_IsAddressSet_def test_mask_eq clocked_def)
    also have "clocked ?s5 (Connect_event ev ?s5)" by (rule clocked_event) simp
    finally show ?thesis using assms s1 True s2 by (simp add: GEN_WAKEUPI_def Let_def cong: if_cong)
  qed
qed

lemma clocked_EORSTI:
  assumes "GEN_EORSTI w ev s = Some s'"
  shows "clocked s s'"
proof -
  obtain b s1 where s1: "int_raised w USB_INT_EORSTI s = (b, s1)" by fastforce
  show ?thesis
  proof (cases b)
    case False
    then show ?thesis using assms s1 clocked_raised [OF s1] by (simp add: GEN_EORSTI_def)
  next
    case True
    let ?s2 = "(USB_INT_Clear w USB_INT_EORSTI s1)\<lparr>USB_DeviceState := DEVICE_STATE_Default, USB_Device_ConfigurationNumber := 0\<rparr>"
    let ?s3 = "USB_INT_Enable w USB_INT_WAKEUPI (USB_INT_Disable w USB_INT_SUSPI (USB_INT_Clear w USB_INT_SUSPI ?s2))"
    obtain ok s4 where s4: "Endpoint_ConfigureEndpoint w ENDPOINT_CONTROLEP EP_TYPE_CONTROL (ucast FIXED_CONTROL_ENDPOINT_SIZE) 1 ?s3 = Some (ok, s4)"
      and s': "s' = Reset_event ev s4"
      using assms s1 True by (auto simp: GEN_EORSTI_def Let_def split: bind_splits)
    note clocked_raised [OF s1]
    also have "clocked s1 (USB_INT_Clear w USB_INT_EORSTI s1)" by (rule clocked_int)
    also have "clocked \<dots> ?s2" by (rule clocked_same) simp
    also have "clocked \<dots> (USB_INT_Clear w USB_INT_SUSPI ?s2)" by (rule clocked_int)
    also have "clocked \<dots> (USB_INT_Disable w USB_INT_SUSPI (USB_INT_Clear w USB_INT_SUSPI ?s2))" by (rule clocked_int)
    also have "clocked \<dots> ?s3" by (rule clocked_int)
    also have "clocked \<dots> s4" by (rule clocked_touches [OF touches_ConfigureEndpoint [OF s4]]) simp
    also have "clocked \<dots> s'" unfolding s' by (rule clocked_event) simp
    finally show ?thesis .
  qed
qed

lemma clocked_GEN_vect:
  assumes "USB_GEN_vect w ev s = Some s'"
  shows "clocked s s'"
proof -
  obtain s1 where s1: "GEN_WAKEUPI w ev (GEN_SUSPI w ev (GEN_SOFI w ev s)) = Some s1" "GEN_EORSTI w ev s1 = Some s'"
    using assms by (auto simp: USB_GEN_vect_def Let_def split: bind_splits)
  note clocked_SOFI
  also note clocked_SUSPI
  also note clocked_WAKEUPI [OF s1(1)]
  also note clocked_EORSTI [OF s1(2)]
  finally show ?thesis .
qed

lemma GEN_vect_reset:
  assumes "\<forall>h. dev w h UDINT = bv EORSTI" and "stores w UDIEN" and "bit (content UDIEN s) EORSTE"
    and "\<forall>h. has (dev w h UESTA0X) (bv CFGOK)"
  shows "\<exists>s'. USB_GEN_vect w ev s = Some s' \<and> USB_DeviceState s' = DEVICE_STATE_Default \<and>
    USB_Device_ConfigurationNumber s' = 0 \<and> ep_sel 0 (io s') = 0"
proof -
  have flags: "\<not> has (bv EORSTI) (bv SOFI)" "\<not> has (bv EORSTI) (bv SUSPI)" "\<not> has (bv EORSTI) (bv WAKEUPI)" "has (bv EORSTI) (bv EORSTI)"
    by (simp_all add: has_bv bit_bv)
  have quiet: "int_raised w i x = (False, x\<lparr>io := io x @ [Rd UDINT (bv EORSTI)]\<rparr>)"
    if "i = USB_INT_SOFI \<or> i = USB_INT_SUSPI \<or> i = USB_INT_WAKEUPI" for i and x :: "'a usb_scheme"
    using that assms(1) by (auto simp: int_raised_def io_simps flags)
  define s1 where "s1 = s\<lparr>io := io s @ [Rd UDINT (bv EORSTI), Rd UDINT (bv EORSTI), Rd UDINT (bv EORSTI)]\<rparr>"
  have pre: "GEN_WAKEUPI w ev (GEN_SUSPI w ev (GEN_SOFI w ev s)) = Some s1"
    by (simp add: GEN_SOFI_def GEN_SUSPI_def GEN_WAKEUPI_def quiet s1_def)
  have "has (dev w (io s1 @ [Rd UDINT (bv EORSTI)]) UDIEN) (bv EORSTE)"
    using assms(2,3) by (simp add: stores_def s1_def has_bv)
  then obtain s2 where raised: "int_raised w USB_INT_EORSTI s1 = (True, s2)"
    using assms(1) by (simp add: int_raised_def io_simps flags)
  let ?s3 = "(USB_INT_Clear w USB_INT_EORSTI s2)\<lparr>USB_DeviceState := DEVICE_STATE_Default, USB_Device_ConfigurationNumber := 0\<rparr>"
  let ?s4 = "USB_INT_Enable w USB_INT_WAKEUPI (USB_INT_Disable w USB_INT_SUSPI (USB_INT_Clear w USB_INT_SUSPI ?s3))"
  have vars: "USB_DeviceState ?s4 = DEVICE_STATE_Default" "USB_Device_ConfigurationNumber ?s4 = 0"
    by (simp_all add: set_mask_eq clear_mask_eq)
  let ?d1 = "bv ALLOC OR 0x30"
  define s5 where "s5 = snd (Configure_loop w 0 0 ?d1 0 ?s4)"
  have loop: "Configure_loop w 0 0 ?d1 0 ?s4 = (True, s5)" using Configure_loop_ok [OF assms(4)] by (simp add: s5_def prod_eq_iff)
  then have conf: "Endpoint_ConfigureEndpoint w ENDPOINT_CONTROLEP EP_TYPE_CONTROL (ucast FIXED_CONTROL_ENDPOINT_SIZE) 1 ?s4 = Some (True, s5)"
    by (simp add: Endpoint_ConfigureEndpoint_def Endpoint_ConfigureEndpoint_Prv_def ENDPOINT_CONTROLEP_def EP_TYPE_CONTROL_def
        FIXED_CONTROL_ENDPOINT_SIZE_def ENDPOINT_TOTAL_ENDPOINTS_def ENDPOINT_DIR_IN_def has_def EPSizeMask_64)
  obtain t where t: "emits t ?s4 s5" "ep_sel (ep_sel 0 (io ?s4)) t = of_nat 0"
    using Configure_loop_emits [OF _ le_refl loop, of "ep_sel 0 (io ?s4)"] by auto
  have "USB_GEN_vect w ev s = Some (Reset_event ev s5)"
    using pre raised conf by (simp add: USB_GEN_vect_def GEN_EORSTI_def Let_def)
  then show ?thesis using t vars silent [of "Reset_event ev" s5] by (auto simp: emits_def)
qed

end

end
