(* ===== verification/Firmware.thy ===== *)
theory Firmware
  imports Joystick USBInterrupt
begin

text \<open>
  The firmware as a whole: the start of \<^verbatim>\<open>main\<close>, the interrupt handler of the controller with the events of the pad, and
  what holds of the state of the application in every turn of the main loop. The two functions of the AVR C library that
  \<^verbatim>\<open>SetupHardware\<close> calls are parameters.
\<close>

subsection \<open>Start-up\<close>

record avr_libc =
  wdt_disable :: "firmware \<Rightarrow> firmware"
  clock_prescale_set :: "u8 \<Rightarrow> firmware \<Rightarrow> firmware"

abbreviation (input) "WDRF \<equiv> 3 :: nat"
abbreviation (input) "clock_div_1 \<equiv> 0 :: u8"

definition SetupHardware :: "avr_libc \<Rightarrow> world \<Rightarrow> firmware \<Rightarrow> firmware option" where
  "SetupHardware lib w s =
     (let s = clear_mask w MCUSR (bv WDRF) s;
          s = wdt_disable lib s;
          s = clock_prescale_set lib clock_div_1 s
      in USB_Init w s)"

text \<open>\<^verbatim>\<open>main\<close> up to its endless loop. The global interrupt flag and the streams of the C library are not part of the state.\<close>

definition main_start :: "avr_libc \<Rightarrow> world \<Rightarrow> firmware \<Rightarrow> firmware option" where
  "main_start lib w s =
     (let s = Serial_Init w 115200 True s;
          s = set_mask w UCSR1B (bv RXCIE1) s
      in SetupHardware lib w s)"

text \<open>The events of the pad for the handler of the controller: \<^verbatim>\<open>Joystick.c\<close> defines two of them, the others are
  the empty \<^verbatim>\<open>USB_Event_Stub\<close>.\<close>

definition USB_Event_Stub :: "firmware \<Rightarrow> firmware" where
  "USB_Event_Stub s = s"

definition joystick_interrupts :: "firmware interrupt_events" where
  "joystick_interrupts = \<lparr>Connect_event = EVENT_USB_Device_Connect, Disconnect_event = EVENT_USB_Device_Disconnect,
     Reset_event = USB_Event_Stub, StartOfFrame_event = USB_Event_Stub\<rparr>"

interpretation pad_int: silent_events joystick_interrupts
  by unfold_locales (auto simp: joystick_interrupts_def EVENT_USB_Device_Connect_def EVENT_USB_Device_Disconnect_def USB_Event_Stub_def)

subsection \<open>The state of the application stays well-formed\<close>

definition wf_joystick :: "joystick \<Rightarrow> bool" where
  "wf_joystick j \<longleftrightarrow> length (buffer j) = 256 \<and> length (Serial_b j) = 7 \<and> unat (Serial_l j) \<le> 14"

lemma wf_rx_store: "wf_joystick j \<Longrightarrow> wf_joystick (rx_store c j)"
  by (simp add: wf_joystick_def rx_store_def)

lemma wf_Serial_char:
  assumes "wf_joystick j"
  shows "case Serial_char c j of Inr j' \<Rightarrow> wf_joystick j' | Inl e \<Rightarrow> e = OutOfBounds 7"
proof -
  have "unat (Serial_l j + 1) \<le> 14" if "unat (Serial_l j) div 2 < 7"
    using that by (simp add: unat_word_ariths)
  then show ?thesis using assms by (auto simp: Serial_char_def wf_joystick_def Let_def)
qed

lemma wf_Serial_Task:
  assumes "wf_joystick j"
  shows "case Serial_Task j of Inr j' \<Rightarrow> wf_joystick j' | Inl e \<Rightarrow> e = OutOfBounds 7"
  using assms
proof (induction j rule: Serial_Task.induct)
  case (1 j)
  show ?case
  proof (cases "buffer_tail j = buffer_head j")
    case True
    then show ?thesis using 1(2) by (subst Serial_Task.simps) simp
  next
    case False
    have step: "case Serial_step j of Inr j' \<Rightarrow> wf_joystick j' | Inl e \<Rightarrow> e = OutOfBounds 7"
      using wf_Serial_char [OF 1(2), of "buffer j ! unat (buffer_tail j)"]
      by (auto simp: Serial_step_def wf_joystick_def split: sum.splits)
    show ?thesis
    proof (cases "Serial_step j")
      case (Inl e)
      then show ?thesis using False step by (subst Serial_Task.simps) simp
    next
      case (Inr j')
      then show ?thesis using False step 1(1) [OF False Inr] by (subst Serial_Task.simps) simp
    qed
  qed
qed

lemma USBTask_joy:
  assumes "USB_USBTask w (joystick_events u) s = Some s'"
  shows "joy s' = joy s"
proof -
  obtain st s0 where s0: "get_DeviceState w s = (st, s0)" by fastforce
  obtain p s1 where s1: "Endpoint_GetCurrentEndpoint w s0 = (p, s1)" by fastforce
  obtain b s3 where s3: "Endpoint_IsSETUPReceived w (Endpoint_SelectEndpoint ENDPOINT_CONTROLEP s1) = (b, s3)" by fastforce
  have j0: "joy s0 = joy s" using s0 by (auto simp: get_DeviceState_eq)
  have j3: "joy s3 = joy s" using s1 s3 j0
    by (auto simp: Endpoint_GetCurrentEndpoint_def Endpoint_GetEndpointDirection_def ep_io split: prod.splits)
  show ?thesis
  proof (cases "st = DEVICE_STATE_Unattached")
    case True
    then show ?thesis using assms s0 j0 by (simp add: USB_USBTask_def USB_DeviceTask_def)
  next
    case False
    then obtain s4 where s4: "(if b then USB_Device_ProcessControlRequest w (joystick_events u) s3 else Some s3) = Some s4"
      and s': "s' = Endpoint_SelectEndpoint p s4"
      using assms s0 s1 s3 by (auto simp: USB_USBTask_def USB_DeviceTask_def split: bind_splits)
    have "joy s4 = joy s3"
    proof (cases b)
      case True
      then show ?thesis using s4 pad.data_ProcessControlRequest [of w u s3 s4] by (simp add: data_ep0_def more_joy)
    next
      case False
      then show ?thesis using s4 by simp
    qed
    then show ?thesis using j3 by (simp add: s' ep_io)
  qed
qed

lemma putchar_joy: "Serial_putchar w c s = Some (r, s') \<Longrightarrow> joy (s' :: firmware) = joy s"
  using wrote_putchar [of w c s r s' 0] by (simp add: wrote_def more_joy)

lemma USART1_RX_vect_joy:
  assumes "USART1_RX_vect w s = Some s'"
  shows "\<exists>c. joy s' = rx_store c (joy s)"
proof -
  obtain s1 where s1: "(if rx_overrun (joy s) then do { (_, s) \<leftarrow> Serial_putchar w 0x58 s; Some s } else Some s) = Some s1"
    and s': "s' = (let (c, s) = fgetc_stdin w s1 in s\<lparr>joy := rx_store (word_of_int c) (joy s)\<rparr>)"
    using assms by (auto simp: USART1_RX_vect_def split: bind_splits prod.splits)
  have "joy s1 = joy s" using s1 by (auto split: if_splits bind_splits dest: putchar_joy)
  moreover have "joy (snd (fgetc_stdin w s1)) = joy s1"
    by (simp add: fgetc_stdin_def Serial_getchar_def serial_defs io_simps)
  ultimately show ?thesis by (auto simp: s' split: prod.splits)
qed

lemma HID_Task_joy:
  assumes "HID_Task u w s = Some s'" and "uenum_reads_back w"
  shows "joy s' = joy s"
proof -
  obtain st where get: "get_DeviceState w s = (st, s\<lparr>USB_DeviceState := st\<rparr>)" by (simp add: get_DeviceState_eq)
  show ?thesis
  proof (cases "st = DEVICE_STATE_Configured")
    case False
    then show ?thesis using assms(1) get by (auto simp: HID_Task_def)
  next
    case True
    then obtain s1 where s1: "HID_OUT u w (s\<lparr>USB_DeviceState := st\<rparr>) = Some s1" "HID_IN u w s1 = Some s'"
      using assms(1) get by (auto simp: HID_Task_def split: bind_splits)
    then show ?thesis using HID_OUT_sent [OF s1(1) assms(2)] HID_IN_sent [OF s1(2) assms(2)] by (auto simp: sent_def)
  qed
qed

subsection \<open>Properties\<close>




text \<open>The handler of the controller never lets the clock run from a PLL that is not locked. In every trace of
  the handler, whatever flags it finds, each write that releases the clock comes after a read that has seen the PLL locked, with no write
  to the PLL in between.\<close>

theorem clock_released_after_lock:
  assumes "USB_GEN_vect w joystick_interrupts s = Some s'"
  shows "\<exists>t. io s' = io s @ t \<and> clock_run False t"
  using pad_int.clocked_GEN_vect [OF assms] unfolding clocked_def by blast

text \<open>A bus reset takes the device back to the default state and unconfigures it, and it changes the selected endpoint:
  whichever endpoint the interrupted code was using, after the handler the control endpoint is selected.\<close>

theorem reset_selects_control_endpoint:
  assumes "\<forall>h. dev w h UDINT = bv EORSTI" and "stores w UDIEN" and "bit (last_wr UDIEN 0 (io s)) EORSTE"
    and "\<forall>h. has (dev w h UESTA0X) (bv CFGOK)"
  shows "\<exists>s'. USB_GEN_vect w joystick_interrupts s = Some s' \<and> USB_DeviceState s' = DEVICE_STATE_Default \<and>
    USB_Device_ConfigurationNumber s' = 0 \<and> ep_sel 0 (io s') = 0"
  by (rule pad_int.GEN_vect_reset [OF assms])

subsection \<open>Witnesses\<close>

text \<open>A controller whose control registers are storage, with the flags \<open>f\<close>, a PLL that locks at once and endpoints that accept their
  configuration.\<close>

definition controller :: "u8 \<Rightarrow> world" where
  "controller f =
     \<lparr>dev = (\<lambda>h r. if r = UDIEN \<or> r = USBCON then last_wr r 0 h else if r = UDINT then f
        else if r = PLLCSR then bv PLOCK else if r = UESTA0X then bv CFGOK else 0),
      irq = (\<lambda>h. None), sig_row = (\<lambda>a. 0)\<rparr>"

lemma controller_stores: "stores (controller f) UDIEN" "stores (controller f) USBCON"
  by (simp_all add: stores_def controller_def)

lemma controller_ok: "\<forall>h. has (dev (controller f) h UESTA0X) (bv CFGOK)" "\<forall>h. dev (controller f) h UDINT = f"
  by (simp_all add: controller_def has_bv bit_bv)

lemma controller_pll: "PLL_start (controller f) s = Some ((USB_PLL_On s)\<lparr>io := io (USB_PLL_On s) @ [Rd PLLCSR (bv PLOCK)]\<rparr>)"
proof -
  have "has (bv PLOCK) (bv PLOCK)" by (simp add: has_bv bit_bv)
  then show ?thesis unfolding PLL_start_def
    by (intro iterate_stop) (simp add: USB_PLL_IsReady_def test_mask_eq controller_def)
qed

lemma controller_init: "\<exists>s'. USB_Init (controller f) s = Some s'"
  by (simp add: USB_Init_def USB_ResetInterface_def Let_def controller_pll USB_Init_Device_def Endpoint_ConfigureEndpoint_def
      FIXED_CONTROL_ENDPOINT_SIZE_def EPSizeMask_64 split: prod.split)


theorem reset_selects_control_endpoint_witness:
  "\<exists>s'. USB_GEN_vect (controller (bv EORSTI)) joystick_interrupts ((pad_configured joystick_init)\<lparr>io := [Wr UDIEN 8, Wr UENUM 1]\<rparr>) = Some s' \<and>
     ep_sel 0 [Wr UDIEN 8, Wr UENUM 1] = 1 \<and> ep_sel 0 (io s') = 0"
proof -
  have "bit (8 :: u8) EORSTE" by (simp add: bit_numeral_rec)
  then show ?thesis
    using reset_selects_control_endpoint [OF controller_ok(2) controller_stores(1) _ controller_ok(1), where s = "(pad_configured joystick_init)\<lparr>io := [Wr UDIEN 8, Wr UENUM 1]\<rparr>"]
    by auto
qed

lemma controller_wakes: "\<exists>s'. USB_GEN_vect (controller (bv WAKEUPI)) joystick_interrupts s = Some s'"
proof -
  have "\<not> has (bv WAKEUPI) (bv EORSTI)" by (simp add: has_bv bit_bv)
  then have reset: "\<exists>s'. GEN_EORSTI (controller (bv WAKEUPI)) joystick_interrupts s = Some s'" for s
    by (simp add: GEN_EORSTI_def int_raised_def test_mask_eq controller_ok(2))
  have "\<exists>s'. GEN_WAKEUPI (controller (bv WAKEUPI)) joystick_interrupts s = Some s'" for s
    by (simp add: GEN_WAKEUPI_def controller_pll Let_def split: prod.split)
  then obtain s1 where "GEN_WAKEUPI (controller (bv WAKEUPI)) joystick_interrupts
      (GEN_SUSPI (controller (bv WAKEUPI)) joystick_interrupts (GEN_SOFI (controller (bv WAKEUPI)) joystick_interrupts s)) = Some s1" by blast
  then show ?thesis using reset [of s1] by (simp add: USB_GEN_vect_def)
qed

theorem clock_released_after_lock_witness:
  "\<exists>s' t. USB_GEN_vect (controller (bv WAKEUPI)) joystick_interrupts ((pad_configured joystick_init)\<lparr>io := [Wr UDIEN 0x18]\<rparr>) = Some s' \<and>
     io s' = Wr UDIEN 0x18 # t \<and> clock_run False t"
proof -
  obtain s' where "USB_GEN_vect (controller (bv WAKEUPI)) joystick_interrupts ((pad_configured joystick_init)\<lparr>io := [Wr UDIEN 0x18]\<rparr>) = Some s'"
    using controller_wakes by blast
  with clock_released_after_lock [OF this] show ?thesis by auto
qed

end
