(* ===== verification/Bridge.thy ===== *)
theory Bridge
  imports JoystickSerial
begin

text \<open>
  The messages of \<^verbatim>\<open>bridge.py\<close>: the state of a game controller as a message (\<^verbatim>\<open>controller_states\<close>), the messages of the built-in
  macro (\<^verbatim>\<open>example_macro\<close>), and the stack of message sources (\<^verbatim>\<open>InputStack\<close>). The SDL library is a parameter:
  the record \<open>sdl_controller\<close> answers the questions the script asks it. The script's exceptions are values.
\<close>

subsection \<open>Controller states\<close>

datatype sdl_button =
    BUTTON_INVALID | BUTTON_A | BUTTON_B | BUTTON_X | BUTTON_Y | BUTTON_BACK | BUTTON_GUIDE | BUTTON_START
  | BUTTON_LEFTSTICK | BUTTON_RIGHTSTICK | BUTTON_LEFTSHOULDER | BUTTON_RIGHTSHOULDER
  | BUTTON_DPAD_UP | BUTTON_DPAD_DOWN | BUTTON_DPAD_LEFT | BUTTON_DPAD_RIGHT

datatype sdl_axis = AXIS_LEFTX | AXIS_LEFTY | AXIS_RIGHTX | AXIS_RIGHTY | AXIS_TRIGGERLEFT | AXIS_TRIGGERRIGHT

record sdl_controller =
  GetButton :: "sdl_button \<Rightarrow> int"
  GetAxis :: "sdl_axis \<Rightarrow> int"

datatype py_error = IndexError | StructError

definition buttonmapping :: "sdl_button list" where
  "buttonmapping = [BUTTON_X, BUTTON_A, BUTTON_B, BUTTON_Y, BUTTON_LEFTSHOULDER, BUTTON_RIGHTSHOULDER, BUTTON_INVALID, BUTTON_INVALID,
     BUTTON_INVALID, BUTTON_START, BUTTON_LEFTSTICK, BUTTON_RIGHTSTICK, BUTTON_GUIDE, BUTTON_BACK]"

definition axismapping :: "sdl_axis list" where
  "axismapping = [AXIS_LEFTX, AXIS_LEFTY, AXIS_RIGHTX, AXIS_RIGHTY]"

definition hatmapping :: "sdl_button list" where
  "hatmapping = [BUTTON_DPAD_UP, BUTTON_DPAD_RIGHT, BUTTON_DPAD_DOWN, BUTTON_DPAD_LEFT]"

definition hatcodes :: "int list" where
  "hatcodes = [8, 0, 2, 1, 4, 8, 3, 8, 6, 7, 8, 8, 5, 8, 8]"

definition axis_deadzone :: int where "axis_deadzone = 10000"
definition trigger_deadzone :: int where "trigger_deadzone = 0"

text \<open>\<^verbatim>\<open>sum([GetButton(controller, b)<<n for n,b in enumerate(bs)])\<close>\<close>

definition button_sum :: "sdl_controller \<Rightarrow> sdl_button list \<Rightarrow> int" where
  "button_sum c bs = (\<Sum>(n, b) \<leftarrow> enumerate 0 bs. push_bit n (GetButton c b))"

definition bridge_buttons :: "sdl_controller \<Rightarrow> int" where
  "bridge_buttons c =
     (let buttons = button_sum c buttonmapping;
          buttons = buttons OR push_bit 6 (of_bool (\<bar>GetAxis c AXIS_TRIGGERLEFT\<bar> > trigger_deadzone))
      in buttons OR push_bit 7 (of_bool (\<bar>GetAxis c AXIS_TRIGGERRIGHT\<bar> > trigger_deadzone)))"

definition bridge_axis :: "int \<Rightarrow> int" where
  "bridge_axis x = drop_bit 8 (if \<bar>x\<bar> < axis_deadzone then 0 else x) + 128"

text \<open>\<^verbatim>\<open>struct.pack('>BHBBBB', ...)\<close>, which rejects numbers that do not fit.\<close>

definition struct_pack :: "int \<Rightarrow> int \<Rightarrow> int list \<Rightarrow> py_error + u8 list" where
  "struct_pack hat btns axes =
     (if 0 \<le> hat \<and> hat < 256 \<and> 0 \<le> btns \<and> btns < 65536 \<and> length axes = 4 \<and> (\<forall>x \<in> set axes. 0 \<le> x \<and> x < 256)
      then Inr ([word_of_int hat, word_of_int (btns div 256), word_of_int btns] @ map word_of_int axes)
      else Inl StructError)"

text \<open>One turn of the loop of \<^verbatim>\<open>controller_states\<close>: the message it yields.\<close>

definition controller_state :: "sdl_controller \<Rightarrow> py_error + u8 list" where
  "controller_state c =
     (let buttons = bridge_buttons c;
          i = nat (button_sum c hatmapping)
      in if i < length hatcodes then
           let axis = map (\<lambda>n. bridge_axis (GetAxis c n)) axismapping
           in case struct_pack (hatcodes ! i) buttons axis of Inl e \<Rightarrow> Inl e | Inr rawbytes \<Rightarrow> Inr (hexlify rawbytes @ [0x0A])
         else Inl IndexError)"

subsection \<open>The macro\<close>

record macro_input =
  in_buttons :: "int option"
  in_hat :: "int option"
  in_duration :: "int option"

abbreviation hat_input :: "int \<Rightarrow> macro_input" where
  "hat_input h \<equiv> \<lparr>in_buttons = None, in_hat = Some h, in_duration = Some 10\<rparr>"

definition dpad_up :: int where "dpad_up = 0"
definition dpad_right :: int where "dpad_right = 2"
definition dpad_down :: int where "dpad_down = 4"
definition dpad_left :: int where "dpad_left = 6"
definition dpad_released :: int where "dpad_released = 8"

abbreviation taps :: "int list \<Rightarrow> macro_input list" where
  "taps hs \<equiv> concat (map (\<lambda>h. [hat_input h, hat_input dpad_released]) hs)"

definition switch_controller_input_sequence :: "macro_input list" where
  "switch_controller_input_sequence =
     concat (map (\<lambda>hue.
       concat (map (\<lambda>vividness.
         concat (map (\<lambda>brightness. taps [dpad_left]) [0..<15]) @ taps [dpad_up, dpad_right, dpad_down]) [0..<15]) @
       taps [dpad_up] @
       concat (map (\<lambda>vividness. taps [dpad_left]) [0..<15]) @
       taps [dpad_up, dpad_right, dpad_down, dpad_down]) [0..<30])"

text \<open>The loop that turns inputs into messages; a missing key keeps the value of the input before.\<close>

fun macro_messages :: "int \<Rightarrow> int \<Rightarrow> int \<Rightarrow> macro_input list \<Rightarrow> py_error + u8 list list" where
  "macro_messages btns hat press_duration [] = Inr []"
| "macro_messages btns hat press_duration (i # is) =
     (let btns = (case in_buttons i of None \<Rightarrow> btns | Some b \<Rightarrow> b);
          press_duration = (case in_duration i of None \<Rightarrow> press_duration | Some d \<Rightarrow> d);
          hat = (case in_hat i of None \<Rightarrow> hat | Some h \<Rightarrow> h)
      in case struct_pack hat btns [128, 128, 128, 128] of
           Inl e \<Rightarrow> Inl e
         | Inr rawbytes \<Rightarrow>
             (case macro_messages btns hat press_duration is of
                Inl e \<Rightarrow> Inl e
              | Inr ms \<Rightarrow> Inr (replicate (nat press_duration) (hexlify rawbytes @ [0x0A]) @ ms)))"

definition example_macro :: "py_error + u8 list list" where
  "example_macro = macro_messages 0 dpad_released 50 switch_controller_input_sequence"

subsection \<open>Replaying a file\<close>

text \<open>\<^verbatim>\<open>readlines\<close> of a file opened in binary mode: the lines with their newline, and a last line without one if the file does not end in
  a newline. A file that does not exist gives no message.\<close>

fun readlines :: "u8 list \<Rightarrow> u8 list \<Rightarrow> u8 list list" where
  "readlines line [] = (if line = [] then [] else [line])"
| "readlines line (c # cs) = (if c = 0x0A then (line @ [c]) # readlines [] cs else readlines (line @ [c]) cs)"

definition replay_states :: "u8 list option \<Rightarrow> u8 list list" where
  "replay_states file = (case file of None \<Rightarrow> [] | Some cs \<Rightarrow> readlines [] cs)"

subsection \<open>The stack of sources\<close>

text \<open>A generator is a state with a function \<open>nxt\<close>: it yields a message, is exhausted, or raises an error. The files
  are the messages written to them; the last element of the list is the top of the stack.\<close>

datatype ('m, 'g) next_result = Yield 'm 'g | Exhausted | Raises py_error 'g

record ('m, 'g) InputStack =
  stack_l :: "'g list"
  recordfile :: "'m list option"
  macrofile :: "'m list option"

definition InputStack_push :: "'g \<Rightarrow> ('m, 'g) InputStack \<Rightarrow> ('m, 'g) InputStack" where
  "InputStack_push it s = s\<lparr>stack_l := stack_l s @ [it]\<rparr>"

definition InputStack_pop :: "('m, 'g) InputStack \<Rightarrow> py_error + ('m, 'g) InputStack" where
  "InputStack_pop s = (if stack_l s = [] then Inl IndexError else Inr (s\<lparr>stack_l := butlast (stack_l s)\<rparr>))"

definition macro_start :: "('m, 'g) InputStack \<Rightarrow> ('m, 'g) InputStack" where
  "macro_start s = (case macrofile s of None \<Rightarrow> s\<lparr>macrofile := Some []\<rparr> | Some _ \<Rightarrow> s)"

definition macro_end :: "('m, 'g) InputStack \<Rightarrow> ('m, 'g) InputStack" where
  "macro_end s = s\<lparr>macrofile := None\<rparr>"

text \<open>\<^verbatim>\<open>__next__\<close> returns a message or raises \<^verbatim>\<open>StopIteration\<close>. An \<^verbatim>\<open>IndexError\<close> ends the iteration wherever it comes from: from the empty
  list or out of the generator. Every other error leaves the method.\<close>

datatype 'm served = Served 'm | StopIteration | Propagates py_error

function InputStack_next :: "('g \<Rightarrow> ('m, 'g) next_result) \<Rightarrow> ('m, 'g) InputStack \<Rightarrow> 'm served \<times> ('m, 'g) InputStack" where
  "InputStack_next nxt s =
     (if stack_l s = [] then (StopIteration, s)
      else case nxt (last (stack_l s)) of
             Yield m g \<Rightarrow>
               (Served m, s\<lparr>stack_l := butlast (stack_l s) @ [g],
                          recordfile := map_option (\<lambda>f. f @ [m]) (recordfile s),
                          macrofile := map_option (\<lambda>f. f @ [m]) (macrofile s)\<rparr>)
           | Exhausted \<Rightarrow> InputStack_next nxt (s\<lparr>stack_l := butlast (stack_l s)\<rparr>)
           | Raises e g \<Rightarrow> (if e = IndexError then StopIteration else Propagates e, s\<lparr>stack_l := butlast (stack_l s) @ [g]\<rparr>))"
  by pat_completeness auto

termination
  by (relation "measure (\<lambda>(nxt, s). length (stack_l s))") auto

declare InputStack_next.simps [simp del]

subsection \<open>The main loop\<close>

text \<open>The script waits for the byte \<^verbatim>\<open>U\<close>; it reports an \<^verbatim>\<open>X\<close> and ignores every other byte. The port has no timeout: when no more
  bytes come it waits for ever, which is \<open>None\<close>. The second result counts the overruns it reports.\<close>

fun wait_for_request :: "u8 list \<Rightarrow> nat \<Rightarrow> (u8 list \<times> nat) option" where
  "wait_for_request [] n = None"
| "wait_for_request (r # rs) n =
     (if r = 0x55 then Some (rs, n) else if r = 0x58 then wait_for_request rs (Suc n) else wait_for_request rs n)"

lemma wait_for_request_shorter: "wait_for_request rs n = Some (rs', n') \<Longrightarrow> length rs' < length rs"
  by (induction rs n rule: wait_for_request.induct) (auto split: if_splits)

datatype loop_end = Stopped | Waiting | Crashed py_error

text \<open>In turn \<open>n\<close> the events hold \<open>clicks n\<close> clicks of the left stick, each of which pushes a fresh macro. The result has the
  messages written to the port, how the loop ends, the number of overruns it reports and the stack.\<close>

function bridge_loop :: "('g \<Rightarrow> ('m, 'g) next_result) \<Rightarrow> 'g \<Rightarrow> (nat \<Rightarrow> nat) \<Rightarrow> nat \<Rightarrow> u8 list \<Rightarrow> ('m, 'g) InputStack \<Rightarrow>
    'm list \<times> loop_end \<times> nat \<times> ('m, 'g) InputStack" where
  "bridge_loop nxt mac clicks n rs s =
     (case InputStack_next nxt ((InputStack_push mac ^^ clicks n) s) of
        (StopIteration, s) \<Rightarrow> ([], Stopped, 0, s)
      | (Propagates e, s) \<Rightarrow> ([], Crashed e, 0, s)
      | (Served message, s) \<Rightarrow>
          (case wait_for_request rs 0 of
             None \<Rightarrow> ([message], Waiting, count_list rs 0x58, s)
           | Some (rs', k) \<Rightarrow>
               (case bridge_loop nxt mac clicks (Suc n) rs' s of
                  (ms, e, k', s) \<Rightarrow> (message # ms, e, k + k', s))))"
  by pat_completeness auto

termination
  by (relation "measure (\<lambda>(_, _, _, _, rs, _). length rs)") (auto dest: wait_for_request_shorter)

declare bridge_loop.simps [simp del]

text \<open>The sources of the script: \<^verbatim>\<open>controller_states\<close>, whose controller is in state \<open>cs n\<close> when the generator is resumed for the
  \<open>n\<close>-th time, and the generators that yield a list of messages, \<^verbatim>\<open>replay_states\<close> and \<^verbatim>\<open>example_macro\<close>. A generator that has raised an error
  is exhausted.\<close>

datatype source = Live "nat \<Rightarrow> sdl_controller" nat | Messages "u8 list list"

fun next_source :: "source \<Rightarrow> (u8 list, source) next_result" where
  "next_source (Live cs n) =
     (case controller_state (cs n) of Inl e \<Rightarrow> Raises e (Messages []) | Inr message \<Rightarrow> Yield message (Live cs (Suc n)))"
| "next_source (Messages []) = Exhausted"
| "next_source (Messages (message # messages)) = Yield message (Messages messages)"

definition example_macro_source :: source where
  "example_macro_source = (case example_macro of Inl e \<Rightarrow> Messages [] | Inr messages \<Rightarrow> Messages messages)"

subsection \<open>Properties\<close>

text \<open>What SDL documents of its answers: a button is 0 or 1, an axis a signed 16-bit number.\<close>

definition sdl_answers :: "sdl_controller \<Rightarrow> bool" where
  "sdl_answers c \<longleftrightarrow> (\<forall>b. GetButton c b = 0 \<or> GetButton c b = 1) \<and> (\<forall>a. -32768 \<le> GetAxis c a \<and> GetAxis c a \<le> 32767)"

lemma sdl_button: "sdl_answers c \<Longrightarrow> GetButton c b = 0 \<or> GetButton c b = 1"
  by (simp add: sdl_answers_def)

lemma button_sum_hat:
  "button_sum c hatmapping = GetButton c BUTTON_DPAD_UP + 2 * GetButton c BUTTON_DPAD_RIGHT + 4 * GetButton c BUTTON_DPAD_DOWN +
     8 * GetButton c BUTTON_DPAD_LEFT"
  by (simp add: button_sum_def hatmapping_def push_bit_eq_mult)

lemma button_sum_bound:
  assumes "sdl_answers c"
  shows "0 \<le> button_sum c bs \<and> button_sum c bs < 2 ^ length bs"
proof -
  have "0 \<le> (\<Sum>(n, b) \<leftarrow> enumerate k bs. push_bit n (GetButton c b)) \<and>
      (\<Sum>(n, b) \<leftarrow> enumerate k bs. push_bit n (GetButton c b)) \<le> 2 ^ (k + length bs) - 2 ^ k" for k
  proof (induction bs arbitrary: k)
    case (Cons b bs)
    have "0 \<le> push_bit k (GetButton c b) \<and> push_bit k (GetButton c b) \<le> 2 ^ k" using sdl_button [OF assms, of b] by (auto simp: push_bit_eq_mult)
    then show ?case using Cons [of "Suc k"] by simp
  qed simp
  from this [of 0] show ?thesis by (simp add: button_sum_def)
qed

lemma bridge_buttons_bound:
  assumes "sdl_answers c"
  shows "0 \<le> bridge_buttons c \<and> bridge_buttons c < 2 ^ 14"
proof -
  have b: "0 \<le> button_sum c buttonmapping" "button_sum c buttonmapping < 2 ^ 14"
    using button_sum_bound [OF assms, of buttonmapping] by (simp_all add: buttonmapping_def)
  have t: "0 \<le> push_bit n (of_bool P :: int)" "push_bit n (of_bool P :: int) < 2 ^ 14" if "n \<in> {6, 7}" for n P
    using that by (auto simp: push_bit_eq_mult)
  have or: "0 \<le> x OR y \<and> x OR y < 2 ^ 14" if "0 \<le> x \<and> x < 2 ^ 14" "0 \<le> y" "y < 2 ^ 14" for x y :: int
    using that OR_upper [of x 14 y] by simp
  show ?thesis unfolding bridge_buttons_def Let_def by (intro or conjI b t) simp_all
qed

lemma bridge_axis_bound: "-32768 \<le> x \<Longrightarrow> x \<le> 32767 \<Longrightarrow> 0 \<le> bridge_axis x \<and> bridge_axis x < 256"
proof -
  assume "-32768 \<le> x" "x \<le> 32767"
  then have "-128 \<le> x div 256" "x div 256 \<le> 127" using zdiv_mono1 [of "-32768" x 256] zdiv_mono1 [of x 32767 256] by simp_all
  then show ?thesis by (simp add: bridge_axis_def drop_bit_eq_div)
qed

lemma pack_message:
  assumes "struct_pack hat btns [lx, ly, rx, ry] = Inr bs"
  shows "hexlify bs @ [0x0A] = bridge_message \<lparr>pad_HAT = word_of_int hat, pad_Button = word_of_int btns,
     pad_LX = word_of_int lx, pad_LY = word_of_int ly, pad_RX = word_of_int rx, pad_RY = word_of_int ry\<rparr>"
proof -
  have "hi8 (word_of_int btns) = word_of_int (btns div 256)" "lo8 (word_of_int btns) = word_of_int btns"
    for btns
  proof -
    show "hi8 (word_of_int btns) = word_of_int (btns div 256)"
      unfolding hi8_def drop_bit_eq_div [of 8 btns, simplified, symmetric] by (intro bit_word_eqI) (auto simp: bit_simps)
    have "(word_of_int btns AND 0xFF :: u16) = take_bit 8 (word_of_int btns)" by (simp add: take_bit_eq_mask mask_eq_exp_minus_1)
    then show "lo8 (word_of_int btns) = word_of_int btns" unfolding lo8_def by (intro bit_word_eqI) (auto simp: bit_simps)
  qed
  then show ?thesis using assms by (auto simp: struct_pack_def bridge_message_def pad_bytes_def split: if_splits)
qed

text \<open>The state a controller encodes.\<close>

definition pad_of_sdl :: "sdl_controller \<Rightarrow> pad" where
  "pad_of_sdl c = \<lparr>pad_HAT = word_of_int (hatcodes ! nat (button_sum c hatmapping)), pad_Button = word_of_int (bridge_buttons c),
     pad_LX = word_of_int (bridge_axis (GetAxis c AXIS_LEFTX)), pad_LY = word_of_int (bridge_axis (GetAxis c AXIS_LEFTY)),
     pad_RX = word_of_int (bridge_axis (GetAxis c AXIS_RIGHTX)), pad_RY = word_of_int (bridge_axis (GetAxis c AXIS_RIGHTY))\<rparr>"

lemma hatcodes_bound: "i < 15 \<Longrightarrow> 0 \<le> hatcodes ! i \<and> hatcodes ! i \<le> 8"
proof -
  assume "i < 15"
  then have "hatcodes ! i \<in> set hatcodes" by (intro nth_mem) (simp add: hatcodes_def)
  then show ?thesis by (auto simp: hatcodes_def)
qed

lemma uint_of_byte: "0 \<le> x \<Longrightarrow> x < 256 \<Longrightarrow> uint (word_of_int x :: 8 word) = x"
  by (simp add: uint_word_of_int_eq take_bit_int_eq_self)

lemma uint_of_short: "0 \<le> x \<Longrightarrow> x < 65536 \<Longrightarrow> uint (word_of_int x :: 16 word) = x"
  by (simp add: uint_word_of_int_eq take_bit_int_eq_self)

lemma controller_state_message:
  assumes "sdl_answers c" and "nat (button_sum c hatmapping) < 15"
  shows "controller_state c = Inr (bridge_message (pad_of_sdl c))"
proof -
  have axis: "0 \<le> bridge_axis (GetAxis c a) \<and> bridge_axis (GetAxis c a) < 256" for a
    using assms(1) by (intro bridge_axis_bound) (simp_all add: sdl_answers_def)
  let ?h = "hatcodes ! nat (button_sum c hatmapping)"
  obtain bs where bs: "struct_pack ?h (bridge_buttons c) (map (\<lambda>n. bridge_axis (GetAxis c n)) axismapping) = Inr bs"
    using hatcodes_bound [OF assms(2)] bridge_buttons_bound [OF assms(1)] axis by (simp add: struct_pack_def axismapping_def)
  have "length hatcodes = 15" by (simp add: hatcodes_def)
  then show ?thesis using bs assms(2) pack_message [OF bs [unfolded axismapping_def list.map]]
    by (simp add: controller_state_def pad_of_sdl_def)
qed

text \<open>C13: The bridge turns every state of a controller into a message for the firmware, or fails in exactly one case. If SDL answers as
  documented and not all four directions of the pad are pressed, the message encodes a state whose HAT value is at most eight, whose buttons
  use the lower fourteen bits, and which has the sticks in the range of a byte, at 128 inside the dead zone. With all four
  directions pressed the table of HAT values is too short and the script raises an \<^verbatim>\<open>IndexError\<close>.\<close>

theorem controller_message:
  assumes "sdl_answers c"
  shows "if GetButton c BUTTON_DPAD_UP = 1 \<and> GetButton c BUTTON_DPAD_RIGHT = 1 \<and> GetButton c BUTTON_DPAD_DOWN = 1 \<and> GetButton c BUTTON_DPAD_LEFT = 1
    then controller_state c = Inl IndexError
    else \<exists>p. controller_state c = Inr (bridge_message p) \<and> pad_HAT p \<le> 8 \<and> uint (pad_Button p) = bridge_buttons c \<and> bridge_buttons c < 2 ^ 14 \<and>
      map uint [pad_LX p, pad_LY p, pad_RX p, pad_RY p] = map (\<lambda>a. bridge_axis (GetAxis c a)) axismapping \<and>
      (\<bar>GetAxis c AXIS_LEFTX\<bar> < 10000 \<longrightarrow> pad_LX p = 128)"
proof -
  have s: "nat (button_sum c hatmapping) < 15 \<longleftrightarrow> \<not> (GetButton c BUTTON_DPAD_UP = 1 \<and> GetButton c BUTTON_DPAD_RIGHT = 1 \<and>
      GetButton c BUTTON_DPAD_DOWN = 1 \<and> GetButton c BUTTON_DPAD_LEFT = 1)"
    unfolding button_sum_hat using sdl_button [OF assms, of BUTTON_DPAD_UP] sdl_button [OF assms, of BUTTON_DPAD_RIGHT]
      sdl_button [OF assms, of BUTTON_DPAD_DOWN] sdl_button [OF assms, of BUTTON_DPAD_LEFT] by auto
  show ?thesis
  proof (cases "nat (button_sum c hatmapping) < 15")
    case False
    then show ?thesis using s by (simp add: controller_state_def hatcodes_def)
  next
    case True
    let ?h = "hatcodes ! nat (button_sum c hatmapping)"
    have x: "0 \<le> bridge_axis (GetAxis c a)" "bridge_axis (GetAxis c a) < 256" for a
      using bridge_axis_bound [of "GetAxis c a"] assms by (simp_all add: sdl_answers_def)
    have "uint (pad_HAT (pad_of_sdl c)) = ?h" using hatcodes_bound [OF True] by (simp add: pad_of_sdl_def uint_of_byte)
    then have "pad_HAT (pad_of_sdl c) \<le> 8" using hatcodes_bound [OF True] by (simp add: word_le_def)
    moreover have "uint (pad_Button (pad_of_sdl c)) = bridge_buttons c"
      using bridge_buttons_bound [OF assms] by (simp add: pad_of_sdl_def uint_of_short)
    moreover have "map uint [pad_LX (pad_of_sdl c), pad_LY (pad_of_sdl c), pad_RX (pad_of_sdl c), pad_RY (pad_of_sdl c)] =
        map (\<lambda>a. bridge_axis (GetAxis c a)) axismapping"
      using x by (simp add: pad_of_sdl_def uint_of_byte axismapping_def)
    moreover have "pad_LX (pad_of_sdl c) = 128" if "\<bar>GetAxis c AXIS_LEFTX\<bar> < 10000"
      using that by (simp add: pad_of_sdl_def bridge_axis_def axis_deadzone_def)
    ultimately show ?thesis
      using s True controller_state_message [OF assms True] bridge_buttons_bound [OF assms]
      by (auto simp: axismapping_def intro!: exI [of _ "pad_of_sdl c"])
  qed
qed

text \<open>A controller on which the D-pad points up and the left stick is half right.\<close>

definition example_controller :: sdl_controller where
  "example_controller = \<lparr>GetButton = (\<lambda>b. of_bool (b = BUTTON_DPAD_UP)), GetAxis = (\<lambda>a. if a = AXIS_LEFTX then 16384 else 0)\<rparr>"

theorem controller_message_witness:
  "\<exists>p. controller_state example_controller = Inr (bridge_message p) \<and> pad_HAT p \<le> 8 \<and> uint (pad_LX p) = 192"
proof -
  have "sdl_answers example_controller" by (simp add: sdl_answers_def example_controller_def)
  from controller_message [OF this] show ?thesis
    by (auto simp: example_controller_def bridge_axis_def axis_deadzone_def axismapping_def)
qed

subsection \<open>The macro's messages\<close>

lemma taps_hats: "i \<in> set (taps hs) \<Longrightarrow> \<exists>h \<in> insert dpad_released (set hs). i = hat_input h"
  by auto

lemma macro_inputs:
  "i \<in> set switch_controller_input_sequence \<Longrightarrow> \<exists>h \<in> {dpad_up, dpad_right, dpad_down, dpad_left, dpad_released}. i = hat_input h"
  unfolding switch_controller_input_sequence_def by auto

lemma length_concat_const: "(\<And>x. x \<in> set xs \<Longrightarrow> length (f x) = k) \<Longrightarrow> length (concat (map f xs)) = length xs * k"
  by (induction xs) auto

lemma macro_length: "length switch_controller_input_sequence = 17400"
  unfolding switch_controller_input_sequence_def by (simp add: length_concat_const [where k = 580] length_concat_const [where k = 36] length_concat_const [where k = 2])

definition hat_pad :: "int \<Rightarrow> pad" where
  "hat_pad h = \<lparr>pad_HAT = word_of_int h, pad_Button = 0, pad_LX = 128, pad_LY = 128, pad_RX = 128, pad_RY = 128\<rparr>"

lemma macro_messages_hats:
  assumes "\<And>i. i \<in> set is \<Longrightarrow> \<exists>h \<in> {0..8}. i = hat_input h"
  shows "macro_messages 0 hat d is = Inr (concat (map (\<lambda>i. replicate 10 (bridge_message (hat_pad (the (in_hat i))))) is))"
  using assms
proof (induction "is" arbitrary: hat d)
  case (Cons i "is")
  obtain h where h: "h \<in> {0..8}" "i = hat_input h" using Cons.prems [of i] by auto
  obtain bs where bs: "struct_pack h 0 [128, 128, 128, 128] = Inr bs" using h by (simp add: struct_pack_def)
  have "macro_messages 0 h 10 is = Inr (concat (map (\<lambda>i. replicate 10 (bridge_message (hat_pad (the (in_hat i))))) is))"
    using Cons.prems by (intro Cons.IH) simp
  then show ?case using bs pack_message [OF bs] h by (simp add: hat_pad_def)
qed simp

text \<open>The macro runs to its end: 174000 messages, each a state with the sticks in the middle, no button and the D-pad released or in one
  of the four directions.\<close>

lemma example_macro_messages:
  "\<exists>ms. example_macro = Inr ms \<and> length ms = 174000 \<and> set ms \<subseteq> (bridge_message \<circ> hat_pad) ` {0, 2, 4, 6, 8}"
proof -
  have hats: "\<exists>h \<in> {0, 2, 4, 6, 8}. i = hat_input h" if "i \<in> set switch_controller_input_sequence" for i
    using macro_inputs [OF that] by (auto simp: dpad_up_def dpad_right_def dpad_down_def dpad_left_def dpad_released_def)
  let ?ms = "concat (map (\<lambda>i. replicate 10 (bridge_message (hat_pad (the (in_hat i))))) switch_controller_input_sequence)"
  have "example_macro = Inr ?ms"
    unfolding example_macro_def by (intro macro_messages_hats) (use hats in force)
  moreover have "length ?ms = 174000"
    by (subst length_concat_const [where k = 10]) (simp_all add: macro_length)
  moreover have "set ?ms \<subseteq> (bridge_message \<circ> hat_pad) ` {0, 2, 4, 6, 8}"
    using hats by fastforce
  ultimately show ?thesis by blast
qed

subsection \<open>Properties of the stack and the main loop\<close>

lemma InputStack_next_skip:
  assumes "list_all (\<lambda>h. nxt h = Exhausted) gone" and "stack_l s = lower @ gone"
  shows "InputStack_next nxt s = InputStack_next nxt (s\<lparr>stack_l := lower\<rparr>)"
  using assms
proof (induction gone arbitrary: s rule: rev_induct)
  case (snoc h gone)
  have "InputStack_next nxt s = InputStack_next nxt (s\<lparr>stack_l := lower @ gone\<rparr>)"
    using snoc.prems by (subst InputStack_next.simps) (simp add: butlast_append)
  also have "\<dots> = InputStack_next nxt (s\<lparr>stack_l := lower\<rparr>)"
    using snoc.prems snoc.IH [of "s\<lparr>stack_l := lower @ gone\<rparr>"] by simp
  finally show ?case .
next
  case Nil
  then have "s\<lparr>stack_l := lower\<rparr> = s" by simp
  then show ?case by (rule arg_cong [THEN sym])
qed

text \<open>The stack of sources serves the topmost source that is not exhausted. The exhausted sources above it are dropped, its message is
  returned and written to both files that are open, and the sources below it wait. When every source is exhausted, or the topmost one that is not raises an
  \<^verbatim>\<open>IndexError\<close>, the iteration stops and nothing is written; only another error reaches the caller.\<close>

theorem input_stack_next:
  assumes "list_all (\<lambda>h. nxt h = Exhausted) gone"
  shows "InputStack_next nxt (s\<lparr>stack_l := gone\<rparr>) = (StopIteration, s\<lparr>stack_l := []\<rparr>) \<and>
    InputStack_next nxt (s\<lparr>stack_l := lower @ g # gone\<rparr>) =
      (case nxt g of
         Yield m g' \<Rightarrow> (Served m, \<lparr>stack_l = lower @ [g'], recordfile = map_option (\<lambda>f. f @ [m]) (recordfile s), macrofile = map_option (\<lambda>f. f @ [m]) (macrofile s)\<rparr>)
       | Raises e g' \<Rightarrow> (if e = IndexError then StopIteration else Propagates e, s\<lparr>stack_l := lower @ [g']\<rparr>)
       | Exhausted \<Rightarrow> InputStack_next nxt (s\<lparr>stack_l := lower\<rparr>))"
proof -
  have skip: "InputStack_next nxt (s\<lparr>stack_l := bs @ gone\<rparr>) = InputStack_next nxt (s\<lparr>stack_l := bs\<rparr>)" for bs
    using InputStack_next_skip [OF assms, of "s\<lparr>stack_l := bs @ gone\<rparr>"] by simp
  show ?thesis
    using skip [of "[]"] skip [of "lower @ [g]"]
    by (simp add: InputStack_next.simps [of nxt "s\<lparr>stack_l := []\<rparr>"] InputStack_next.simps [of nxt "s\<lparr>stack_l := lower @ [g]\<rparr>"]
        split: next_result.splits)
qed

text \<open>A file that has been replayed to its end, above a live controller on which all four directions are pressed.\<close>

definition stuck_controller :: sdl_controller where
  "stuck_controller = \<lparr>GetButton = (\<lambda>b. 1), GetAxis = (\<lambda>a. 0)\<rparr>"

theorem input_stack_next_witness:
  "InputStack_next next_source \<lparr>stack_l = [Messages [[0x0A]], Live (\<lambda>_. stuck_controller) 0, Messages []], recordfile = Some [], macrofile = None\<rparr> =
     (StopIteration, \<lparr>stack_l = [Messages [[0x0A]], Messages []], recordfile = Some [], macrofile = None\<rparr>)"
proof -
  have "controller_state stuck_controller = Inl IndexError"
    by (simp add: controller_state_def button_sum_hat stuck_controller_def hatcodes_def)
  then show ?thesis
    using input_stack_next [of next_source "[Messages []]" "\<lparr>stack_l = [], recordfile = Some [], macrofile = None\<rparr>" "[Messages [[0x0A]]]" "Live (\<lambda>_. stuck_controller) 0"]
    by simp
qed

lemma InputStack_next_files:
  "InputStack_next nxt s = (r, s') \<Longrightarrow>
     recordfile s' = map_option (\<lambda>f. f @ (case r of Served m \<Rightarrow> [m] | _ \<Rightarrow> [])) (recordfile s) \<and>
     macrofile s' = map_option (\<lambda>f. f @ (case r of Served m \<Rightarrow> [m] | _ \<Rightarrow> [])) (macrofile s)"
proof (induction nxt s rule: InputStack_next.induct)
  case (1 nxt s)
  have "InputStack_next nxt s = (r, s')" by (rule "1.prems")
  then show ?case using "1.IH"
    by (simp only: InputStack_next.simps [of nxt s]) (auto simp: map_option.identity split: if_splits next_result.splits)
qed

lemma push_files [simp]:
  "recordfile ((InputStack_push mac ^^ k) s) = recordfile s" "macrofile ((InputStack_push mac ^^ k) s) = macrofile s"
  by (induction k) (simp_all add: InputStack_push_def)

lemma wait_for_request_counts:
  "case wait_for_request rs n of
     None \<Rightarrow> count_list rs 0x55 = 0
   | Some (rs', n') \<Rightarrow> count_list rs 0x55 = Suc (count_list rs' 0x55) \<and> n' + count_list rs' 0x58 = n + count_list rs 0x58"
  by (induction rs n rule: wait_for_request.induct) (auto split: option.splits if_splits)

lemma readlines_line: "0x0A \<notin> set l \<Longrightarrow> readlines line (l @ 0x0A # cs) = (line @ l @ [0x0A]) # readlines [] cs"
  by (induction l arbitrary: line) auto

text \<open>What the script writes are lines.\<close>

definition is_line :: "u8 list \<Rightarrow> bool" where
  "is_line m \<longleftrightarrow> m \<noteq> [] \<and> last m = 0x0A \<and> 0x0A \<notin> set (butlast m)"

lemma replay_lines: "list_all is_line ms \<Longrightarrow> replay_states (Some (concat ms)) = ms"
proof (induction ms)
  case (Cons m ms)
  then obtain l where "m = l @ [0x0A]" "0x0A \<notin> set l" by (auto simp: is_line_def) (metis append_butlast_last_id)
  then show ?case using Cons by (simp add: replay_states_def readlines_line)
qed (simp add: replay_states_def)

lemma is_line_message: "is_line (bridge_message p)"
proof -
  have "hex_char d \<noteq> 0x0A" if "d < 16" for d using u8_less_16_cases [OF that] by (auto simp: hex_char_def)
  then show ?thesis using nibbles_less by (fastforce simp: is_line_def bridge_message_def hexlify_def)
qed

lemma bridge_loop_steps:
  assumes "bridge_loop nxt mac clicks n rs s = (ms, e, k, s')"
  shows "length ms \<le> Suc (count_list rs 0x55) \<and> k \<le> count_list rs 0x58 \<and>
    (e = Waiting \<longrightarrow> length ms = Suc (count_list rs 0x55) \<and> k = count_list rs 0x58) \<and>
    recordfile s' = map_option (\<lambda>f. f @ ms) (recordfile s)"
  using assms
proof (induction nxt mac clicks n rs s arbitrary: ms e k s' rule: bridge_loop.induct)
  case (1 nxt mac clicks n rs s)
  obtain r t where r: "InputStack_next nxt ((InputStack_push mac ^^ clicks n) s) = (r, t)" by fastforce
  note files = InputStack_next_files [OF r] and counts = wait_for_request_counts [of rs 0]
  show ?case
  proof (cases r)
    case StopIteration
    then show ?thesis using "1.prems" r files by (subst (asm) bridge_loop.simps) (auto simp: map_option.identity)
  next
    case (Propagates err)
    then show ?thesis using "1.prems" r files by (subst (asm) bridge_loop.simps) (auto simp: map_option.identity)
  next
    case (Served m)
    show ?thesis
    proof (cases "wait_for_request rs 0")
      case None
      then show ?thesis using "1.prems" r Served files counts by (subst (asm) bridge_loop.simps) auto
    next
      case (Some w)
      obtain rs' k1 where w: "w = (rs', k1)" by fastforce
      obtain ms1 e1 k2 t1 where rest: "bridge_loop nxt mac clicks (Suc n) rs' t = (ms1, e1, k2, t1)" by (metis prod_cases4)
      have "ms = m # ms1" "e = e1" "k = k1 + k2" "s' = t1"
        using "1.prems" r Served Some w rest by (simp_all add: bridge_loop.simps [of nxt mac clicks n rs s])
      then show ?thesis
        using "1.IH" [OF r [symmetric] Served Some w [symmetric] rest] files counts Served Some w
        by (auto simp: option.map_comp comp_def)
    qed
  qed
qed

text \<open>What the sources promise to the loop: as long as a source is in order it yields lines and stays in order, and the only error it
  raises is an \<^verbatim>\<open>IndexError\<close>.\<close>

locale line_source =
  fixes nxt :: "'g \<Rightarrow> (u8 list, 'g) next_result" and ok :: "'g \<Rightarrow> bool"
  assumes yields: "ok g \<Longrightarrow> nxt g = Yield m g' \<Longrightarrow> is_line m \<and> ok g'"
    and raises: "ok g \<Longrightarrow> nxt g = Raises e g' \<Longrightarrow> e = IndexError \<and> ok g'"
begin

lemma next_ok:
  assumes "InputStack_next nxt s = (r, s')" and "list_all ok (stack_l s)"
  shows "list_all ok (stack_l s') \<and> (\<forall>m. r = Served m \<longrightarrow> is_line m) \<and> (\<forall>e. r \<noteq> Propagates e)"
  using assms
proof (induction "length (stack_l s)" arbitrary: s rule: less_induct)
  case less
  note run = less.prems(1) [unfolded InputStack_next.simps [of nxt s]]
  show ?case
  proof (cases "stack_l s" rule: rev_cases)
    case Nil
    then show ?thesis using run less.prems(2) by auto
  next
    case (snoc l g)
    then have g: "ok g" "list_all ok l" using less.prems(2) by simp_all
    show ?thesis
    proof (cases "nxt g")
      case (Yield m g')
      then show ?thesis using run snoc g yields by auto
    next
      case Exhausted
      then show ?thesis using less.hyps [of "s\<lparr>stack_l := l\<rparr>"] run snoc g by simp
    next
      case (Raises e g')
      then show ?thesis using run snoc g raises [OF g(1) Raises] by auto
    qed
  qed
qed

lemma push_ok: "ok mac \<Longrightarrow> list_all ok (stack_l s) \<Longrightarrow> list_all ok (stack_l ((InputStack_push mac ^^ k) s))"
  by (induction k) (simp_all add: InputStack_push_def)

lemma loop_ok:
  assumes "bridge_loop nxt mac clicks n rs s = (ms, e, k, s')" and "ok mac" and "list_all ok (stack_l s)"
  shows "list_all is_line ms \<and> (\<forall>err. e \<noteq> Crashed err)"
  using assms
proof (induction "length rs" arbitrary: n rs s ms k rule: less_induct)
  case less
  note run = less.prems(1) [unfolded bridge_loop.simps [of nxt mac clicks n rs s]]
  obtain r t where r: "InputStack_next nxt ((InputStack_push mac ^^ clicks n) s) = (r, t)" by fastforce
  note ok = next_ok [OF r push_ok [OF less.prems(2,3)]]
  show ?case
  proof (cases r)
    case (Served m)
    show ?thesis
    proof (cases "wait_for_request rs 0")
      case None
      then show ?thesis using run r Served ok by auto
    next
      case (Some w)
      obtain rs' k1 where w: "wait_for_request rs 0 = Some (rs', k1)" using Some by (cases w) simp
      obtain ms1 e1 k2 t1 where rest: "bridge_loop nxt mac clicks (Suc n) rs' t = (ms1, e1, k2, t1)" by (metis prod_cases4)
      then show ?thesis using less.hyps [OF wait_for_request_shorter [OF w], of "Suc n" t ms1 k2] run r Served w ok less.prems(2) by auto
    qed
  qed (use run r ok in auto)
qed

end

text \<open>The sources of the script keep the promise, if SDL answers as documented.\<close>

fun source_ok :: "source \<Rightarrow> bool" where
  "source_ok (Live cs n) \<longleftrightarrow> (\<forall>k. sdl_answers (cs k))"
| "source_ok (Messages messages) \<longleftrightarrow> list_all is_line messages"

lemma controller_state_line:
  assumes "sdl_answers c"
  shows "controller_state c = Inl IndexError \<or> (\<exists>p. controller_state c = Inr (bridge_message p))"
proof (cases "nat (button_sum c hatmapping) < 15")
  case True
  then show ?thesis using controller_state_message [OF assms] by blast
next
  case False
  then show ?thesis by (simp add: controller_state_def hatcodes_def)
qed

lemma source_yields: "source_ok g \<Longrightarrow> next_source g = Yield m g' \<Longrightarrow> is_line m \<and> source_ok g'"
proof (cases g rule: next_source.cases)
  case (1 cs n)
  assume "source_ok g" "next_source g = Yield m g'"
  then show ?thesis using 1 controller_state_line [of "cs n"] by (auto simp: is_line_message)
qed auto

lemma source_raises: "source_ok g \<Longrightarrow> next_source g = Raises e g' \<Longrightarrow> e = IndexError \<and> source_ok g'"
proof (cases g rule: next_source.cases)
  case (1 cs n)
  assume "source_ok g" "next_source g = Raises e g'"
  then show ?thesis using 1 controller_state_line [of "cs n"] by auto
qed auto

interpretation script: line_source next_source source_ok
  by unfold_locales (fact source_yields source_raises)+

lemma example_macro_ok: "source_ok example_macro_source"
proof -
  obtain ms where ms: "example_macro = Inr ms" "set ms \<subseteq> (bridge_message \<circ> hat_pad) ` {0, 2, 4, 6, 8}" using example_macro_messages by (elim exE conjE)
  then have "list_all is_line ms" by (auto simp: list_all_iff is_line_message)
  then show ?thesis unfolding example_macro_source_def ms(1) by simp
qed

text \<open>C12: A recorded session of the bridge with a live controller, in which macros may be started. If SDL answers as documented,
  whatever the device sends, the script does not fail; it is in lock step with the device: it writes at most one message more than it has received requests,
  and exactly one more when it is left waiting. It reports
  no more overruns than the device sent, and all of them when it is left waiting. Every message is a line, and replaying the recording gives
  the messages that were written, in order.\<close>

theorem bridge_lock_step:
  assumes "\<forall>k. sdl_answers (cs k)"
    and "bridge_loop next_source example_macro_source clicks 0 rs \<lparr>stack_l = [Live cs 1], recordfile = Some [], macrofile = None\<rparr> = (ms, e, k, s')"
  shows "length ms \<le> Suc (count_list rs 0x55) \<and> k \<le> count_list rs 0x58 \<and> (\<forall>err. e \<noteq> Crashed err) \<and>
    (e = Waiting \<longrightarrow> length ms = Suc (count_list rs 0x55) \<and> k = count_list rs 0x58) \<and>
    list_all is_line ms \<and> replay_states (map_option concat (recordfile s')) = ms"
  using bridge_loop_steps [OF assms(2)] script.loop_ok [OF assms(2) example_macro_ok] replay_lines [of ms] assms(1) by auto

text \<open>A controller on which nothing is pressed; the device reports an overrun and asks for one more message.\<close>

definition idle_controller :: sdl_controller where
  "idle_controller = \<lparr>GetButton = (\<lambda>b. 0), GetAxis = (\<lambda>a. 0)\<rparr>"

theorem bridge_lock_step_witness:
  "\<exists>m s'. controller_state idle_controller = Inr m \<and> bridge_loop next_source example_macro_source (\<lambda>_. 0) 0 [0x58, 0x55]
      \<lparr>stack_l = [Live (\<lambda>_. idle_controller) 1], recordfile = Some [], macrofile = None\<rparr> = ([m, m], Waiting, 1, s') \<and>
     replay_states (map_option concat (recordfile s')) = [m, m]"
proof -
  have idle: "sdl_answers idle_controller" by (simp add: sdl_answers_def idle_controller_def)
  obtain m where m: "controller_state idle_controller = Inr m"
    using controller_state_message [OF idle] by (simp add: button_sum_hat idle_controller_def)
  have loop: "\<exists>s'. bridge_loop next_source mac (\<lambda>_. 0) 0 [0x58, 0x55]
      \<lparr>stack_l = [Live (\<lambda>_. idle_controller) 1], recordfile = Some [], macrofile = None\<rparr> = ([m, m], Waiting, 1, s')" for mac
    by (simp add: bridge_loop.simps InputStack_next.simps m)
  from loop [of example_macro_source] obtain s' where s': "bridge_loop next_source example_macro_source (\<lambda>_. 0) 0 [0x58, 0x55]
      \<lparr>stack_l = [Live (\<lambda>_. idle_controller) 1], recordfile = Some [], macrofile = None\<rparr> = ([m, m], Waiting, 1, s')" by (rule exE)
  have "replay_states (map_option concat (recordfile s')) = [m, m]"
    using bridge_lock_step [OF _ s'] idle by simp
  then show ?thesis by (intro exI [of _ m] exI [of _ s'] conjI m s')
qed

end
