(* ===== verification/Relays.thy ===== *)
theory Relays
  imports JoystickSerial
begin

text \<open>
  The older scripts of the directory \<^verbatim>\<open>controller\<close>: the class \<^verbatim>\<open>SwitchController\<close> with its text protocol, the scripts that
  fill it from the keyboard (\<^verbatim>\<open>pc-control.py\<close>), from a recording (\<^verbatim>\<open>twitch-control-TAS-reader.py\<close>) and from the players of a server
  (\<^verbatim>\<open>on_controller_state\<close> of \<^verbatim>\<open>twitch-control.py\<close>), and the relay of a game pad (\<^verbatim>\<open>gamepad-control-relay.py\<close>).
  Strings are lists of ASCII codes.
\<close>

section \<open>Python's strings and numbers\<close>

fun dec :: "nat \<Rightarrow> u8 list" where
  "dec n = (if n < 10 then [0x30 + of_nat n] else dec (n div 10) @ [0x30 + of_nat (n mod 10)])"

declare dec.simps [simp del]

definition py_str :: "int \<Rightarrow> u8 list" where
  "py_str i = (if i < 0 then 0x2D # dec (nat (- i)) else dec (nat i))"

definition is_digit :: "u8 \<Rightarrow> bool" where
  "is_digit c \<longleftrightarrow> 0x30 \<le> c \<and> c \<le> 0x39"

text \<open>\<^verbatim>\<open>int\<close> of a string without white space: a sign, and digits that single underscores may separate.\<close>

fun py_digits :: "u8 list \<Rightarrow> nat \<Rightarrow> bool \<Rightarrow> nat option" where
  "py_digits [] n digit = (if digit then Some n else None)"
| "py_digits (c # cs) n digit =
     (if is_digit c then py_digits cs (10 * n + unat (c - 0x30)) True
      else if c = 0x5F \<and> digit then py_digits cs n False
      else None)"

definition py_int :: "u8 list \<Rightarrow> int option" where
  "py_int cs =
     (case cs of
        [] \<Rightarrow> None
      | c # r \<Rightarrow>
          if c = 0x2D then map_option (\<lambda>n. - int n) (py_digits r 0 False)
          else if c = 0x2B then map_option int (py_digits r 0 False)
          else map_option int (py_digits cs 0 False))"

definition is_space :: "u8 \<Rightarrow> bool" where
  "is_space c \<longleftrightarrow> c = 0x20 \<or> 0x09 \<le> c \<and> c \<le> 0x0D \<or> 0x1C \<le> c \<and> c \<le> 0x1F"

fun split_words :: "u8 list \<Rightarrow> u8 list \<Rightarrow> u8 list list" where
  "split_words word [] = (if word = [] then [] else [word])"
| "split_words word (c # cs) =
     (if is_space c then (if word = [] then [] else [word]) @ split_words [] cs else split_words (word @ [c]) cs)"

definition py_split :: "u8 list \<Rightarrow> u8 list list" where
  "py_split = split_words []"

definition py_lower :: "u8 list \<Rightarrow> u8 list" where
  "py_lower = map (\<lambda>c. if 0x41 \<le> c \<and> c \<le> 0x5A then c + 0x20 else c)"

section \<open>The class SwitchController\<close>

definition STICK_MIN :: int where "STICK_MIN = 0"
definition STICK_MAX :: int where "STICK_MAX = 255"
definition STICK_CENTER :: int where "STICK_CENTER = 128"
definition DPAD_UP :: int where "DPAD_UP = 0"
definition DPAD_RIGHT :: int where "DPAD_RIGHT = 2"
definition DPAD_DOWN :: int where "DPAD_DOWN = 4"
definition DPAD_LEFT :: int where "DPAD_LEFT = 6"
definition DPAD_CENTER :: int where "DPAD_CENTER = 8"

record SwitchController =
  sc_dpad :: int
  sc_up :: int
  sc_down :: int
  sc_left :: int
  sc_right :: int
  sc_lstick :: int
  sc_l :: int
  sc_zl :: int
  sc_minus :: int
  sc_capture :: int
  sc_a :: int
  sc_b :: int
  sc_x :: int
  sc_y :: int
  sc_rstick :: int
  sc_r :: int
  sc_zr :: int
  sc_plus :: int
  sc_home :: int
  sc_LX :: int
  sc_LY :: int
  sc_RX :: int
  sc_RY :: int
  sc_output :: "u8 list"

definition SwitchController_init :: SwitchController where
  "SwitchController_init = \<lparr>sc_dpad = DPAD_CENTER, sc_up = 0, sc_down = 0, sc_left = 0, sc_right = 0,
     sc_lstick = 0, sc_l = 0, sc_zl = 0, sc_minus = 0, sc_capture = 0,
     sc_a = 0, sc_b = 0, sc_x = 0, sc_y = 0, sc_rstick = 0, sc_r = 0, sc_zr = 0, sc_plus = 0, sc_home = 0,
     sc_LX = STICK_CENTER, sc_LY = STICK_CENTER, sc_RX = STICK_CENTER, sc_RY = STICK_CENTER, sc_output = []\<rparr>"

definition SwitchController_reset :: "SwitchController \<Rightarrow> SwitchController" where
  "SwitchController_reset c = SwitchController_init\<lparr>sc_output := sc_output c\<rparr>"

definition flag :: "int \<Rightarrow> u8" where
  "flag b = (if b \<noteq> 0 then 0x31 else 0x30)"

definition getOutput :: "SwitchController \<Rightarrow> SwitchController" where
  "getOutput c = c\<lparr>sc_output :=
     py_str (sc_dpad c) @
     [flag (sc_lstick c), flag (sc_l c), flag (sc_zl c), flag (sc_minus c), flag (sc_capture c),
      flag (sc_a c), flag (sc_b c), flag (sc_x c), flag (sc_y c), flag (sc_rstick c), flag (sc_r c), flag (sc_zr c),
      flag (sc_plus c), flag (sc_home c)] @
     [0x20] @ py_str (sc_LX c) @ [0x20] @ py_str (sc_LY c) @ [0x20] @ py_str (sc_RX c) @ [0x20] @ py_str (sc_RY c)\<rparr>"

text \<open>The bytes \<^verbatim>\<open>send\<close> writes; an error of the port is reported on the console and ignored.\<close>

definition send :: "u8 list \<Rightarrow> u8 list" where
  "send msg = msg @ [0x0D, 0x0A]"

section \<open>The keyboard\<close>

datatype pc_key = Key_W | Key_S | Key_A | Key_D | Key_I | Key_K | Key_J | Key_L | VK_RIGHT | VK_DOWN | VK_UP | VK_LEFT
  | Key_T | Key_G | Key_F | Key_H | Key_O | Key_P | Key_9 | Key_0 | Key_5 | Key_6

text \<open>The tests of \<^verbatim>\<open>pc-control.py\<close>, one after the other: a key and what is done if it is down.\<close>

definition pc_bindings :: "(pc_key \<times> (SwitchController \<Rightarrow> SwitchController)) list" where
  "pc_bindings =
     [(Key_W, sc_LY_update (\<lambda>_. STICK_MIN)), (Key_S, sc_LY_update (\<lambda>_. STICK_MAX)),
      (Key_A, sc_LX_update (\<lambda>_. STICK_MIN)), (Key_D, sc_LX_update (\<lambda>_. STICK_MAX)),
      (Key_I, sc_RY_update (\<lambda>_. STICK_MIN)), (Key_K, sc_RY_update (\<lambda>_. STICK_MAX)),
      (Key_J, sc_RX_update (\<lambda>_. STICK_MIN)), (Key_L, sc_RX_update (\<lambda>_. STICK_MAX)),
      (VK_RIGHT, sc_a_update (\<lambda>_. 1)), (VK_DOWN, sc_b_update (\<lambda>_. 1)),
      (VK_UP, sc_x_update (\<lambda>_. 1)), (VK_LEFT, sc_y_update (\<lambda>_. 1)),
      (Key_T, sc_dpad_update (\<lambda>_. DPAD_UP)), (Key_G, sc_dpad_update (\<lambda>_. DPAD_DOWN)),
      (Key_F, sc_dpad_update (\<lambda>_. DPAD_LEFT)), (Key_H, sc_dpad_update (\<lambda>_. DPAD_RIGHT)),
      (Key_O, sc_l_update (\<lambda>_. 1)), (Key_P, sc_r_update (\<lambda>_. 1)),
      (Key_9, sc_zl_update (\<lambda>_. 1)), (Key_0, sc_zr_update (\<lambda>_. 1)),
      (Key_5, sc_minus_update (\<lambda>_. 1)), (Key_6, sc_plus_update (\<lambda>_. 1))]"

text \<open>One turn of the loop: the bytes sent, and the controller unless the script ends because escape is down. \<open>due\<close> says that 80
  milliseconds have gone by since the last message. The sticks that are clamped before the reset are overwritten by it.\<close>

definition pc_control_turn :: "(pc_key \<Rightarrow> bool) \<Rightarrow> bool \<Rightarrow> bool \<Rightarrow> SwitchController \<Rightarrow> u8 list \<times> SwitchController option" where
  "pc_control_turn key escape due c =
     (let c = c\<lparr>sc_RX := max STICK_MIN (min (sc_RX c) STICK_MAX)\<rparr>;
          c = c\<lparr>sc_RY := max STICK_MIN (min (sc_RY c) STICK_MAX)\<rparr>;
          c = SwitchController_reset c;
          c = fold (\<lambda>(k, f) c. if key k then f c else c) pc_bindings c
      in if escape then (send (map of_char ''RELEASE''), None)
         else let c = getOutput c in (if due then send (sc_output c) else [], Some c))"

section \<open>States from a server and from a recording\<close>

datatype relay_error = Index_Error | Value_Error

text \<open>The tests \<^verbatim>\<open>btns[i] == "1"\<close> one after the other; the first index that is out of range raises an \<^verbatim>\<open>IndexError\<close> and leaves the
  controller with the buttons set so far.\<close>

fun press :: "(SwitchController \<Rightarrow> SwitchController) list \<Rightarrow> u8 list \<Rightarrow> SwitchController \<Rightarrow> relay_error option \<times> SwitchController" where
  "press [] btns c = (None, c)"
| "press (f # fs) [] c = (Some Index_Error, c)"
| "press (f # fs) (b # btns) c = press fs btns (if b = 0x31 then f c else c)"

definition modlist :: "u8 list list" where
  "modlist = map (map of_char)
     [''alua2020'', ''ogcristofer'', ''stravos96'', ''yanchan230'', ''silvermagpi'', ''twitchplaysconsoles'', ''fosseisanerd'', ''tpnsbot'']"

text \<open>The buttons in the order of the message. Capture and home are for moderators and plus for the players of a list.\<close>

definition server_buttons :: "u8 list list \<Rightarrow> u8 list \<Rightarrow> (SwitchController \<Rightarrow> SwitchController) list" where
  "server_buttons pluslist cPlayer =
     [sc_lstick_update (\<lambda>_. 1), sc_l_update (\<lambda>_. 1), sc_zl_update (\<lambda>_. 1), sc_minus_update (\<lambda>_. 1),
      sc_capture_update (\<lambda>_. if py_lower cPlayer \<in> set modlist then 1 else 0),
      sc_a_update (\<lambda>_. 1), sc_b_update (\<lambda>_. 1), sc_x_update (\<lambda>_. 1), sc_y_update (\<lambda>_. 1),
      sc_rstick_update (\<lambda>_. 1), sc_r_update (\<lambda>_. 1), sc_zr_update (\<lambda>_. 1),
      sc_plus_update (\<lambda>_. if py_lower cPlayer \<in> set pluslist then 1 else 0),
      sc_home_update (\<lambda>_. if py_lower cPlayer \<in> set modlist then 1 else 0)]"

text \<open>The assignments to the sticks; the first word that is not a number ends them without an error.\<close>

definition server_sticks :: "u8 list \<Rightarrow> u8 list \<Rightarrow> u8 list \<Rightarrow> u8 list \<Rightarrow> SwitchController \<Rightarrow> SwitchController" where
  "server_sticks LX LY RX RY c =
     (case py_int LX of None \<Rightarrow> c | Some x \<Rightarrow> let c = c\<lparr>sc_LX := x\<rparr> in
      case py_int LY of None \<Rightarrow> c | Some x \<Rightarrow> let c = c\<lparr>sc_LY := 255 - x\<rparr> in
      case py_int RX of None \<Rightarrow> c | Some x \<Rightarrow> let c = c\<lparr>sc_RX := x\<rparr> in
      case py_int RY of None \<Rightarrow> c | Some x \<Rightarrow> c\<lparr>sc_RY := 255 - x\<rparr>)"

record twitch_client =
  controllerEnabled :: bool
  currentPlayers :: "u8 list list"
  currentGame :: "u8 list"
  oldArgs2 :: "u8 list"
  controllers :: "SwitchController list"

definition neutral :: "u8 list" where
  "neutral = [0x38] @ replicate 14 0x30 @ [0x20, 0x31, 0x32, 0x38, 0x20, 0x31, 0x32, 0x38, 0x20, 0x31, 0x32, 0x38, 0x20, 0x31, 0x32, 0x38]"

text \<open>\<^verbatim>\<open>send_and_reset\<close> with \<^verbatim>\<open>reset\<close> as the flag; the sleep has no effect on the state.\<close>

definition send_and_reset :: "bool \<Rightarrow> SwitchController \<Rightarrow> u8 list \<times> SwitchController" where
  "send_and_reset reset c =
     (let c = getOutput c; sent = send (sc_output c)
      in if reset then let c = getOutput (SwitchController_reset c) in (sent @ send (sc_output c), c)
         else (sent, c))"

text \<open>What the handler does with the controller: the error that leaves it, the bytes written to the port and the controller.\<close>

definition state_to_controller :: "u8 list list \<Rightarrow> u8 list \<Rightarrow> u8 list \<Rightarrow> SwitchController \<Rightarrow> relay_error option \<times> u8 list \<times> SwitchController" where
  "state_to_controller pluslist cPlayer state c =
     (let c = SwitchController_reset c; inputs = py_split state in
      if state = neutral then let c = getOutput (SwitchController_reset c) in (None, send (sc_output c), c)
      else case inputs of
        btns # LX # LY # RX # RY # _ \<Rightarrow>
          (case py_int (take 1 btns) of
             None \<Rightarrow> (Some Value_Error, [], c)
           | Some d \<Rightarrow>
               (case press (server_buttons pluslist cPlayer) (tl btns) (c\<lparr>sc_dpad := d\<rparr>) of
                  (Some e, c) \<Rightarrow> (Some e, [], c)
                | (None, c) \<Rightarrow> let (sent, c) = send_and_reset False (server_sticks LX LY RX RY c) in (None, sent, c)))
      | _ \<Rightarrow> (Some Index_Error, [], c))"

definition singlePlayerGames :: "u8 list list" where
  "singlePlayerGames = [map of_char ''The Legend of Zelda: Breath of the Wild'']"

text \<open>The handler for player \<open>cNum\<close>, at most 3; \<^verbatim>\<open>pluslist\<close> is read from a file.\<close>

definition on_controller_state :: "u8 list list \<Rightarrow> u8 list \<Rightarrow> nat \<Rightarrow> twitch_client \<Rightarrow> relay_error option \<times> u8 list \<times> twitch_client" where
  "on_controller_state pluslist state cNum t =
     (if \<not> controllerEnabled t then (None, [], t)
      else if cNum > 0 \<and> currentGame t \<in> set singlePlayerGames then (None, [], t)
      else
        let t = t\<lparr>oldArgs2 := state\<rparr>;
            cPlayer = (if cNum < length (currentPlayers t) then currentPlayers t ! cNum else []);
            (e, sent, c) = state_to_controller pluslist cPlayer state (controllers t ! cNum)
        in (e, sent, t\<lparr>controllers := (controllers t)[cNum := c]\<rparr>))"

text \<open>The handler of \<^verbatim>\<open>twitch-control-TAS-reader.py\<close>. It sets the attributes \<^verbatim>\<open>lclick\<close> and \<^verbatim>\<open>rclick\<close>, which the class does not have and
  \<^verbatim>\<open>getOutput\<close> does not read; a stick that is not a number is an error.\<close>

definition tas_buttons :: "(SwitchController \<Rightarrow> SwitchController) list" where
  "tas_buttons =
     [id, sc_l_update (\<lambda>_. 1), sc_zl_update (\<lambda>_. 1), sc_minus_update (\<lambda>_. 1), sc_capture_update (\<lambda>_. 1),
      sc_a_update (\<lambda>_. 1), sc_b_update (\<lambda>_. 1), sc_x_update (\<lambda>_. 1), sc_y_update (\<lambda>_. 1),
      id, sc_r_update (\<lambda>_. 1), sc_zr_update (\<lambda>_. 1), sc_plus_update (\<lambda>_. 1), sc_home_update (\<lambda>_. 1)]"

definition tas_sticks :: "u8 list \<Rightarrow> u8 list \<Rightarrow> u8 list \<Rightarrow> u8 list \<Rightarrow> SwitchController \<Rightarrow> relay_error option \<times> SwitchController" where
  "tas_sticks LX LY RX RY c =
     (case py_int LX of None \<Rightarrow> (Some Value_Error, c) | Some x \<Rightarrow> let c = c\<lparr>sc_LX := x\<rparr> in
      case py_int LY of None \<Rightarrow> (Some Value_Error, c) | Some x \<Rightarrow> let c = c\<lparr>sc_LY := 255 - x\<rparr> in
      case py_int RX of None \<Rightarrow> (Some Value_Error, c) | Some x \<Rightarrow> let c = c\<lparr>sc_RX := x\<rparr> in
      case py_int RY of None \<Rightarrow> (Some Value_Error, c) | Some x \<Rightarrow> (None, c\<lparr>sc_RY := 255 - x\<rparr>))"

definition tas_on_controller_state :: "u8 list \<Rightarrow> SwitchController \<Rightarrow> relay_error option \<times> u8 list \<times> SwitchController" where
  "tas_on_controller_state args c =
     (let c = SwitchController_reset c; inputs = py_split args in
      case inputs of
        btns # LX # LY # RX # RY # _ \<Rightarrow>
          (case py_int (take 1 btns) of
             None \<Rightarrow> (Some Value_Error, [], c)
           | Some d \<Rightarrow>
               (case press tas_buttons (tl btns) (c\<lparr>sc_dpad := d\<rparr>) of
                  (Some e, c) \<Rightarrow> (Some e, [], c)
                | (None, c) \<Rightarrow>
                    (case tas_sticks LX LY RX RY c of
                       (Some e, c) \<Rightarrow> (Some e, [], c)
                     | (None, c) \<Rightarrow> let (sent, c) = send_and_reset False c in (None, sent, c))))
      | _ \<Rightarrow> (Some Index_Error, [], c))"

section \<open>The relay of a game pad\<close>

datatype ev_code = BTN_DPAD_UP | BTN_DPAD_RIGHT | BTN_DPAD_DOWN | BTN_DPAD_LEFT | BTN_THUMBL | BTN_THUMBR | BTN_TL | BTN_TL2
  | BTN_SELECT | BTN_EAST | BTN_SOUTH | BTN_NORTH | BTN_WEST | BTN_TR | BTN_TR2 | BTN_START | BTN_MODE
  | ABS_X | ABS_Y | ABS_RX | ABS_RY | Other_code

datatype ev = EV_KEY ev_code int | EV_ABS ev_code int | EV_Other

record relay =
  command :: "int list"
  dpad :: "int list"
  relay_lx :: int
  relay_ly :: int
  relay_rx :: int
  relay_ry :: int
  previousCommand :: "u8 list"

definition relay_init :: relay where
  "relay_init = \<lparr>command = (replicate 15 0)[0 := 8], dpad = replicate 4 0, relay_lx = 128, relay_ly = 128, relay_rx = 128, relay_ry = 128,
     previousCommand = [0x38] @ replicate 14 0x30 @ [0x20, 0x31, 0x32, 0x36, 0x20, 0x31, 0x32, 0x36, 0x20, 0x31, 0x32, 0x36, 0x20, 0x31, 0x32, 0x36]\<rparr>"

text \<open>The chain of \<^verbatim>\<open>elif\<close>s; the tenth entry repeats the test for \<^verbatim>\<open>BTN_THUMBL\<close>.\<close>

definition relay_key :: "ev_code \<Rightarrow> int \<Rightarrow> relay \<Rightarrow> relay" where
  "relay_key code v r =
     (let set_dpad = (\<lambda>i. r\<lparr>dpad := (dpad r)[i := v]\<rparr>); set_command = (\<lambda>i. r\<lparr>command := (command r)[i := v]\<rparr>) in
      if code = BTN_DPAD_UP then set_dpad 0
      else if code = BTN_DPAD_RIGHT then set_dpad 1
      else if code = BTN_DPAD_DOWN then set_dpad 2
      else if code = BTN_DPAD_LEFT then set_dpad 3
      else if code = BTN_THUMBL then set_command 1
      else if code = BTN_TL then set_command 2
      else if code = BTN_TL2 then set_command 3
      else if code = BTN_SELECT then set_command 4
      else if code = BTN_EAST then set_command 6
      else if code = BTN_SOUTH then set_command 7
      else if code = BTN_NORTH then set_command 8
      else if code = BTN_WEST then set_command 9
      else if code = BTN_THUMBL then set_command 10
      else if code = BTN_TR then set_command 11
      else if code = BTN_TR2 then set_command 12
      else if code = BTN_START then set_command 13
      else if code = BTN_MODE then set_command 14
      else r)"

definition relay_hat :: "relay \<Rightarrow> relay" where
  "relay_hat r =
     (let hat = (\<lambda>h. r\<lparr>command := (command r)[0 := h]\<rparr>) in
      if dpad r = [1, 0, 0, 0] then hat 0
      else if dpad r = [1, 1, 0, 0] then hat 1
      else if dpad r = [0, 1, 0, 0] then hat 2
      else if dpad r = [0, 1, 1, 0] then hat 3
      else if dpad r = [0, 0, 1, 0] then hat 4
      else if dpad r = [0, 0, 1, 1] then hat 5
      else if dpad r = [0, 0, 0, 1] then hat 6
      else if dpad r = [1, 0, 0, 1] then hat 7
      else if dpad r = [0, 0, 0, 0] then hat 8
      else r)"

definition relay_abs :: "ev_code \<Rightarrow> int \<Rightarrow> relay \<Rightarrow> relay" where
  "relay_abs code v r =
     (if code = ABS_X then r\<lparr>relay_lx := v\<rparr>
      else if code = ABS_Y then r\<lparr>relay_ly := v\<rparr>
      else if code = ABS_RX then r\<lparr>relay_rx := v\<rparr>
      else if code = ABS_RY then r\<lparr>relay_ry := v\<rparr>
      else r)"

definition stringCommand :: "relay \<Rightarrow> u8 list" where
  "stringCommand r = concat (map py_str (command r)) @ [0x20] @ py_str (relay_lx r) @ [0x20] @ py_str (relay_ly r) @
     [0x20] @ py_str (relay_rx r) @ [0x20] @ py_str (relay_ry r)"

text \<open>One turn of the loop: the messages sent, at most one, and the new state.\<close>

definition relay_event :: "ev \<Rightarrow> relay \<Rightarrow> u8 list list \<times> relay" where
  "relay_event e r =
     (let r = (case e of EV_KEY code v \<Rightarrow> relay_hat (relay_key code v r) | EV_ABS code v \<Rightarrow> relay_abs code v r | EV_Other \<Rightarrow> r);
          msg = stringCommand r
      in if previousCommand r \<noteq> msg then ([send msg], r\<lparr>previousCommand := msg\<rparr>) else ([], r))"

fun relay_events :: "ev list \<Rightarrow> relay \<Rightarrow> u8 list list \<times> relay" where
  "relay_events [] r = ([], r)"
| "relay_events (e # es) r = (let (ms, r) = relay_event e r; (ms', r) = relay_events es r in (ms @ ms', r))"

section \<open>Numbers as text\<close>

lemma digit_char: "n < 10 \<Longrightarrow> is_digit (0x30 + of_nat n) \<and> unat (0x30 + of_nat n - 0x30 :: u8) = n"
proof -
  assume "n < 10"
  then have "n \<in> {0, 1, 2, 3, 4, 5, 6, 7, 8, 9}" by auto
  then show ?thesis by (auto simp: is_digit_def)
qed

lemma dec_digits: "c \<in> set (dec n) \<Longrightarrow> is_digit c"
proof (induction n rule: dec.induct)
  case (1 n)
  then show ?case using digit_char [of n] digit_char [of "n mod 10"] by (auto simp: dec.simps [of n] split: if_splits)
qed

lemma dec_not_Nil [simp]: "dec n \<noteq> []"
  by (simp add: dec.simps [of n])

lemma py_digits_append:
  "(\<And>c. c \<in> set cs \<Longrightarrow> is_digit c) \<Longrightarrow> cs \<noteq> [] \<Longrightarrow>
     py_digits (cs @ ds) n b = py_digits ds (foldl (\<lambda>n c. 10 * n + unat (c - 0x30)) n cs) True"
  by (induction cs arbitrary: n b) (auto simp: neq_Nil_conv, metis append_Nil foldl_Nil list.exhaust)

lemma dec_value: "foldl (\<lambda>n c. 10 * n + unat (c - 0x30)) 0 (dec n) = n"
proof (induction n rule: dec.induct)
  case (1 n)
  then show ?case using digit_char [of n] digit_char [of "n mod 10"] by (simp add: dec.simps [of n])
qed

lemma py_digits_dec: "py_digits (dec n) 0 b = Some n"
  using py_digits_append [of "dec n" "[]" 0 b] dec_digits dec_value by simp

lemma digit_not_sign: "is_digit c \<Longrightarrow> c \<noteq> 0x2D \<and> c \<noteq> 0x2B \<and> \<not> is_space c \<and> c \<noteq> 0x0D \<and> c \<noteq> 0x0A"
  unfolding is_digit_def is_space_def word_le_nat_alt by auto

lemma py_int_str [simp]: "py_int (py_str i) = Some i"
proof (cases "i < 0")
  case True
  then show ?thesis by (simp add: py_int_def py_str_def py_digits_dec)
next
  case False
  obtain c r where cr: "dec (nat i) = c # r" by (cases "dec (nat i)") auto
  then have "c \<noteq> 0x2D \<and> c \<noteq> 0x2B" using dec_digits [of c "nat i"] digit_not_sign by simp
  then show ?thesis using False cr py_digits_dec [of "nat i" False] by (simp add: py_int_def py_str_def)
qed

lemma py_str_char: "c \<in> set (py_str i) \<Longrightarrow> c = 0x2D \<or> is_digit c"
  by (auto simp: py_str_def dest: dec_digits split: if_splits)

lemma py_str_no_space: "c \<in> set (py_str i) \<Longrightarrow> \<not> is_space c \<and> c \<noteq> 0x0D \<and> c \<noteq> 0x0A"
  using py_str_char [of c i] digit_not_sign [of c] by (auto simp: is_space_def word_le_nat_alt)

lemma split_word: "(\<And>c. c \<in> set cs \<Longrightarrow> \<not> is_space c) \<Longrightarrow> split_words word (cs @ ds) = split_words (word @ cs) ds"
  by (induction cs arbitrary: word) auto

section \<open>The text protocol at the firmware\<close>

abbreviation hex_digits :: "u8 list \<Rightarrow> nat" where
  "hex_digits cs \<equiv> length (filter (\<lambda>c. hex_val c \<noteq> 0xff) cs)"

lemma line_run_many_digits:
  assumes "0x0D \<notin> set cs" and "0x0A \<notin> set cs" and "length ds \<le> 14" and "14 < length ds + hex_digits cs"
  shows "line_run (cs @ rest) (q, ds) = None"
  using assms
proof (induction cs arbitrary: ds)
  case (Cons c cs)
  then show ?case by (cases "hex_val c = 0xff"; cases "length ds < 14") (auto simp: line_spec_def)
qed simp

lemma digit_hex: "is_digit c \<Longrightarrow> hex_val c \<noteq> 0xff"
proof -
  assume c: "is_digit c"
  then have "hex_val c = c - 0x30" by (simp add: hex_val_def is_digit_def)
  moreover have "c - 0x30 \<noteq> 0xff" using c by (auto simp: is_digit_def word_le_nat_alt unat_word_ariths dest: arg_cong [of _ _ "\<lambda>x. x + 0x30"])
  ultimately show ?thesis by simp
qed

lemma hex_digits_str: "1 \<le> hex_digits (py_str i)"
proof -
  have "\<exists>n. set (dec n) \<subseteq> set (py_str i)" by (cases "i < 0") (auto simp: py_str_def)
  then obtain n where n: "set (dec n) \<subseteq> set (py_str i)" by (rule exE)
  obtain c where "c \<in> set (dec n)" using dec_not_Nil [of n] by (cases "dec n") auto
  then have "c \<in> set (filter (\<lambda>c. hex_val c \<noteq> 0xff) (py_str i))" using n dec_digits digit_hex by auto
  then show ?thesis by (cases "filter (\<lambda>c. hex_val c \<noteq> 0xff) (py_str i)") auto
qed

lemma hex_digits_strs: "length is \<le> hex_digits (concat (map py_str is))"
proof (induction "is")
  case (Cons i "is")
  then show ?case using hex_digits_str [of i] by simp
qed simp

lemma overlong_message:
  assumes "line_rel (q, []) s" and "pending s = m @ cs" and "m = pre @ rest" and "0x0D \<notin> set pre" and "0x0A \<notin> set pre" and "15 \<le> hex_digits pre"
  shows "Serial_Task s = Inl (OutOfBounds 7)"
proof -
  have "line_run (pending s) (q, []) = None"
    unfolding assms(2,3) append_assoc by (rule line_run_many_digits) (use assms in auto)
  with Serial_chars_refines [OF assms(1), of "pending s"] show ?thesis
    by (simp add: Serial_Task_pending split: sum.splits)
qed

section \<open>The relay\<close>

definition relay_ok :: "relay \<Rightarrow> bool" where
  "relay_ok r \<longleftrightarrow> length (command r) = 15 \<and> command r ! 0 \<in> {0..8} \<and> command r ! 5 = 0 \<and> command r ! 10 = 0"

lemma relay_key_ok: "relay_ok r \<Longrightarrow> relay_ok (relay_key code v r)"
  by (cases code) (simp_all add: relay_key_def relay_ok_def)

lemma relay_hat_ok: "relay_ok r \<Longrightarrow> relay_ok (relay_hat r)"
  by (simp add: relay_hat_def relay_ok_def)

lemma relay_abs_ok: "relay_ok r \<Longrightarrow> relay_ok (relay_abs code v r)"
  by (simp add: relay_abs_def relay_ok_def)

lemma stringCommand_previous [simp]: "stringCommand (r\<lparr>previousCommand := m\<rparr>) = stringCommand r"
  by (simp add: stringCommand_def)

lemma previous_unchanged [simp]:
  "previousCommand (relay_key code v r) = previousCommand r" "previousCommand (relay_hat r) = previousCommand r"
  "previousCommand (relay_abs code v r) = previousCommand r"
  by (simp_all add: relay_key_def relay_hat_def relay_abs_def Let_def)

text \<open>After every event the last message is the current state.\<close>

lemma relay_event_step:
  assumes "relay_ok r" and "relay_event e r = (ms, r')"
  shows "relay_ok r' \<and> previousCommand r' = stringCommand r' \<and>
    ms = (if previousCommand r' = previousCommand r then [] else [send (previousCommand r')])"
proof -
  let ?r = "case e of EV_KEY code v \<Rightarrow> relay_hat (relay_key code v r) | EV_ABS code v \<Rightarrow> relay_abs code v r | EV_Other \<Rightarrow> r"
  have ok: "relay_ok ?r" and prev: "previousCommand ?r = previousCommand r"
    using assms(1) by (auto simp: relay_key_ok relay_hat_ok relay_abs_ok split: ev.split)
  have upd: "relay_ok (?r\<lparr>previousCommand := m\<rparr>)" for m using ok by (simp add: relay_ok_def)
  show ?thesis using assms(2) ok upd prev by (auto simp: relay_event_def Let_def split: if_splits)
qed

lemma relay_events_step:
  assumes "relay_ok r" and "relay_events es r = (ms, r')"
  shows "relay_ok r' \<and> (es \<noteq> [] \<longrightarrow> previousCommand r' = stringCommand r') \<and>
    last (send (previousCommand r) # ms) = send (previousCommand r') \<and> distinct_adj (send (previousCommand r) # ms) \<and>
    (\<forall>m \<in> set ms. \<exists>t. relay_ok t \<and> m = send (stringCommand t))"
  using assms
proof (induction es arbitrary: r ms)
  case (Cons e es)
  obtain ms1 r1 where 1: "relay_event e r = (ms1, r1)" by fastforce
  obtain ms2 r2 where 2: "relay_events es r1 = (ms2, r2)" by fastforce
  have r2: "r' = r2" "ms = ms1 @ ms2" using Cons.prems(2) 1 2 by simp_all
  note step = relay_event_step [OF Cons.prems(1) 1]
  have rest: "relay_ok r' \<and> (es \<noteq> [] \<longrightarrow> previousCommand r' = stringCommand r') \<and>
    last (send (previousCommand r1) # ms2) = send (previousCommand r') \<and> distinct_adj (send (previousCommand r1) # ms2) \<and>
    (\<forall>m \<in> set ms2. \<exists>t. relay_ok t \<and> m = send (stringCommand t))"
    using Cons.IH [of r1 ms2] step 2 r2 by blast
  have same: "previousCommand r' = stringCommand r'" using step rest r2 2 by (cases es) auto
  show ?case
  proof (cases "previousCommand r1 = previousCommand r")
    case True
    then show ?thesis using step rest r2 same by simp
  next
    case False
    then have "ms = send (previousCommand r1) # ms2" "send (previousCommand r1) \<noteq> send (previousCommand r)"
      using step r2 by (simp_all add: send_def)
    then show ?thesis using step rest same by auto
  qed
qed simp

lemma relay_init_ok: "relay_ok relay_init"
  by (simp add: relay_ok_def relay_init_def)



section \<open>Messages at the firmware\<close>

lemma getOutput_prefix:
  "\<exists>pre rest. send (sc_output (getOutput c)) = pre @ rest \<and> 0x0D \<notin> set pre \<and> 0x0A \<notin> set pre \<and> 15 \<le> hex_digits pre"
proof -
  let ?flags = "[flag (sc_lstick c), flag (sc_l c), flag (sc_zl c), flag (sc_minus c), flag (sc_capture c),
      flag (sc_a c), flag (sc_b c), flag (sc_x c), flag (sc_y c), flag (sc_rstick c), flag (sc_r c), flag (sc_zr c),
      flag (sc_plus c), flag (sc_home c)]"
  have f: "is_digit (flag b)" for b by (simp add: flag_def is_digit_def)
  have "hex_digits (py_str (sc_dpad c) @ ?flags) = hex_digits (py_str (sc_dpad c)) + 14" using digit_hex [OF f] by simp
  then have n: "15 \<le> hex_digits (py_str (sc_dpad c) @ ?flags)" using hex_digits_str [of "sc_dpad c"] by simp
  have "\<forall>x \<in> set (py_str (sc_dpad c) @ ?flags). x \<noteq> 0x0D \<and> x \<noteq> 0x0A"
    using py_str_no_space digit_not_sign [OF f] by simp
  then have nl: "0x0D \<notin> set (py_str (sc_dpad c) @ ?flags)" "0x0A \<notin> set (py_str (sc_dpad c) @ ?flags)" by (metis)+
  have out: "send (sc_output (getOutput c)) = (py_str (sc_dpad c) @ ?flags) @
      [0x20] @ py_str (sc_LX c) @ [0x20] @ py_str (sc_LY c) @ [0x20] @ py_str (sc_RX c) @ [0x20] @ py_str (sc_RY c) @ [0x0D, 0x0A]"
    by (simp add: getOutput_def send_def)
  show ?thesis by (intro exI conjI, rule out) (use nl n in simp_all)
qed

lemma relay_prefix:
  assumes "relay_ok r"
  shows "\<exists>pre rest. send (stringCommand r) = pre @ rest \<and> 0x0D \<notin> set pre \<and> 0x0A \<notin> set pre \<and> 15 \<le> hex_digits pre"
proof -
  let ?pre = "concat (map py_str (command r))"
  have "15 \<le> hex_digits ?pre" using hex_digits_strs [of "command r"] assms by (simp add: relay_ok_def)
  moreover have "0x0D \<notin> set ?pre \<and> 0x0A \<notin> set ?pre" using py_str_no_space by auto
  moreover have "send (stringCommand r) = ?pre @ [0x20] @ py_str (relay_lx r) @ [0x20] @ py_str (relay_ly r) @
     [0x20] @ py_str (relay_rx r) @ [0x20] @ py_str (relay_ry r) @ [0x0D, 0x0A]" by (simp add: stringCommand_def send_def)
  ultimately show ?thesis by blast
qed



section \<open>Players\<close>

text \<open>What a player may press, and the vertical axes turned around.\<close>

definition permitted :: "u8 list list \<Rightarrow> u8 list \<Rightarrow> SwitchController \<Rightarrow> SwitchController" where
  "permitted pluslist cPlayer c =
     c\<lparr>sc_LY := 255 - sc_LY c, sc_RY := 255 - sc_RY c,
       sc_capture := if py_lower cPlayer \<in> set modlist then sc_capture c else 0,
       sc_plus := if py_lower cPlayer \<in> set pluslist then sc_plus c else 0,
       sc_home := if py_lower cPlayer \<in> set modlist then sc_home c else 0\<rparr>"

definition may_press :: "u8 list list \<Rightarrow> u8 list \<Rightarrow> SwitchController \<Rightarrow> bool" where
  "may_press pluslist cPlayer c \<longleftrightarrow>
     (sc_capture c \<noteq> 0 \<or> sc_home c \<noteq> 0 \<longrightarrow> py_lower cPlayer \<in> set modlist) \<and> (sc_plus c \<noteq> 0 \<longrightarrow> py_lower cPlayer \<in> set pluslist)"

lemma press_invariant:
  "(\<And>f c. f \<in> set fs \<Longrightarrow> I c \<Longrightarrow> I (f c)) \<Longrightarrow> I c \<Longrightarrow> I (snd (press fs btns c))"
  by (induction fs btns c rule: press.induct) auto

lemma press_may_press:
  assumes "may_press pluslist cPlayer c"
  shows "may_press pluslist cPlayer (snd (press (server_buttons pluslist cPlayer) btns c))"
  by (rule press_invariant [where I = "may_press pluslist cPlayer", OF _ assms]) (auto simp: server_buttons_def may_press_def split: if_splits)

lemma sticks_may_press: "may_press pluslist cPlayer (server_sticks LX LY RX RY c) = may_press pluslist cPlayer c"
  by (simp add: server_sticks_def may_press_def Let_def split: option.split)

lemma may_press_output [simp]: "may_press pluslist cPlayer (getOutput c) = may_press pluslist cPlayer c"
  by (simp add: may_press_def getOutput_def)

lemma may_press_reset [simp]: "may_press pluslist cPlayer (SwitchController_reset c)"
  by (simp add: may_press_def SwitchController_reset_def SwitchController_init_def)

lemma may_press_dpad [simp]: "may_press pluslist cPlayer (c\<lparr>sc_dpad := d\<rparr>) = may_press pluslist cPlayer c"
  by (simp add: may_press_def)

lemma state_may_press:
  assumes "state_to_controller pluslist cPlayer state c = (e, sent, c')"
  shows "may_press pluslist cPlayer c' \<and> (sent = [] \<or> sent = send (sc_output (getOutput c')))"
proof -
  have idem: "sc_output (getOutput (getOutput d)) = sc_output (getOutput d)" for d by (simp add: getOutput_def)
  note press = press_may_press [of pluslist cPlayer "SwitchController_reset c\<lparr>sc_dpad := d\<rparr>" for d]
  show ?thesis using assms press
    by (auto simp: state_to_controller_def send_and_reset_def Let_def sticks_may_press idem split: if_splits list.splits option.splits prod.splits)
      (metis snd_conv)+
qed

abbreviation flags :: "SwitchController \<Rightarrow> u8 list" where
  "flags c \<equiv> [flag (sc_lstick c), flag (sc_l c), flag (sc_zl c), flag (sc_minus c), flag (sc_capture c),
      flag (sc_a c), flag (sc_b c), flag (sc_x c), flag (sc_y c), flag (sc_rstick c), flag (sc_r c), flag (sc_zr c),
      flag (sc_plus c), flag (sc_home c)]"

lemma py_str_not_Nil [simp]: "py_str i \<noteq> []"
  by (simp add: py_str_def)

lemma flag_no_space [simp]: "\<not> is_space (flag b)"
  by (simp add: flag_def is_space_def)

lemma split_str: "split_words [] (py_str i @ 0x20 # cs) = py_str i # split_words [] cs" "split_words [] (py_str i) = [py_str i]"
  using split_word [of "py_str i" "[]" "0x20 # cs"] split_word [of "py_str i" "[]" "[]"] py_str_no_space [of _ i] by (simp_all add: is_space_def)

lemma split_output:
  "py_split (sc_output (getOutput c)) =
     [py_str (sc_dpad c) @ flags c, py_str (sc_LX c), py_str (sc_LY c), py_str (sc_RX c), py_str (sc_RY c)]"
proof -
  let ?btns = "py_str (sc_dpad c) @ flags c"
  let ?sticks = "py_str (sc_LX c) @ 0x20 # py_str (sc_LY c) @ 0x20 # py_str (sc_RX c) @ 0x20 # py_str (sc_RY c)"
  have "sc_output (getOutput c) = ?btns @ 0x20 # ?sticks" by (simp add: getOutput_def)
  moreover have "split_words [] (?btns @ 0x20 # ?sticks) = split_words ?btns (0x20 # ?sticks)"
    by (subst split_word) (use py_str_no_space in auto)
  moreover have "split_words ?btns (0x20 # ?sticks) = ?btns # split_words [] ?sticks" by (simp add: is_space_def)
  ultimately show ?thesis by (simp add: py_split_def split_str)
qed

lemma py_str_digit: "0 \<le> d \<Longrightarrow> d \<le> 9 \<Longrightarrow> length (py_str d) = 1"
  by (simp add: py_str_def dec.simps)

text \<open>A conditional press as the update of one field.\<close>

lemma press_update:
  "(if P then sc_lstick_update (\<lambda>_. v) c else c) = sc_lstick_update (\<lambda>x. if P then v else x) c"
  "(if P then sc_l_update (\<lambda>_. v) c else c) = sc_l_update (\<lambda>x. if P then v else x) c"
  "(if P then sc_zl_update (\<lambda>_. v) c else c) = sc_zl_update (\<lambda>x. if P then v else x) c"
  "(if P then sc_minus_update (\<lambda>_. v) c else c) = sc_minus_update (\<lambda>x. if P then v else x) c"
  "(if P then sc_capture_update (\<lambda>_. v) c else c) = sc_capture_update (\<lambda>x. if P then v else x) c"
  "(if P then sc_a_update (\<lambda>_. v) c else c) = sc_a_update (\<lambda>x. if P then v else x) c"
  "(if P then sc_b_update (\<lambda>_. v) c else c) = sc_b_update (\<lambda>x. if P then v else x) c"
  "(if P then sc_x_update (\<lambda>_. v) c else c) = sc_x_update (\<lambda>x. if P then v else x) c"
  "(if P then sc_y_update (\<lambda>_. v) c else c) = sc_y_update (\<lambda>x. if P then v else x) c"
  "(if P then sc_rstick_update (\<lambda>_. v) c else c) = sc_rstick_update (\<lambda>x. if P then v else x) c"
  "(if P then sc_r_update (\<lambda>_. v) c else c) = sc_r_update (\<lambda>x. if P then v else x) c"
  "(if P then sc_zr_update (\<lambda>_. v) c else c) = sc_zr_update (\<lambda>x. if P then v else x) c"
  "(if P then sc_plus_update (\<lambda>_. v) c else c) = sc_plus_update (\<lambda>x. if P then v else x) c"
  "(if P then sc_home_update (\<lambda>_. v) c else c) = sc_home_update (\<lambda>x. if P then v else x) c"
  by simp_all

lemma flag_pressed: "flag b = 0x31 \<longleftrightarrow> b \<noteq> 0"
  by (simp add: flag_def)

lemma press_flags:
  "press (server_buttons pluslist cPlayer) (flags c) (SwitchController_reset c0\<lparr>sc_dpad := d\<rparr>) =
     (None, SwitchController_reset c0\<lparr>sc_dpad := d,
         sc_lstick := if sc_lstick c \<noteq> 0 then 1 else 0,
         sc_l := if sc_l c \<noteq> 0 then 1 else 0,
         sc_zl := if sc_zl c \<noteq> 0 then 1 else 0,
         sc_minus := if sc_minus c \<noteq> 0 then 1 else 0,
         sc_capture := if sc_capture c \<noteq> 0 \<and> py_lower cPlayer \<in> set modlist then 1 else 0,
         sc_a := if sc_a c \<noteq> 0 then 1 else 0,
         sc_b := if sc_b c \<noteq> 0 then 1 else 0,
         sc_x := if sc_x c \<noteq> 0 then 1 else 0,
         sc_y := if sc_y c \<noteq> 0 then 1 else 0,
         sc_rstick := if sc_rstick c \<noteq> 0 then 1 else 0,
         sc_r := if sc_r c \<noteq> 0 then 1 else 0,
         sc_zr := if sc_zr c \<noteq> 0 then 1 else 0,
         sc_plus := if sc_plus c \<noteq> 0 \<and> py_lower cPlayer \<in> set pluslist then 1 else 0,
         sc_home := if sc_home c \<noteq> 0 \<and> py_lower cPlayer \<in> set modlist then 1 else 0\<rparr>)"
  unfolding server_buttons_def press.simps flag_pressed press_update prod.inject
  by (intro conjI refl SwitchController.equality) (simp_all add: SwitchController_reset_def SwitchController_init_def)

lemma state_of_output:
  assumes "0 \<le> sc_dpad c" and "sc_dpad c \<le> 9" and "sc_output (getOutput c) \<noteq> neutral"
  shows "\<exists>c'. state_to_controller pluslist cPlayer (sc_output (getOutput c)) c0 = (None, send (sc_output (getOutput (permitted pluslist cPlayer c))), c')"
proof -
  let ?d = "py_str (sc_dpad c)"
  have d: "take 1 (?d @ flags c) = ?d" "tl (?d @ flags c) = flags c"
    using py_str_digit [OF assms(1,2)] by (auto simp: length_Suc_conv)
  have flags: "flag (if b \<noteq> 0 then 1 else 0) = flag b" "flag (if b \<noteq> 0 \<and> P then 1 else 0) = flag (if P then b else 0)" for b P
    by (simp_all add: flag_def)
  show ?thesis
    unfolding state_to_controller_def Let_def split_output list.case d py_int_str option.case press_flags prod.case
    using assms(3) by (simp add: send_and_reset_def server_sticks_def permitted_def getOutput_def flags SwitchController_reset_def SwitchController_init_def)
qed

text \<open>The player a handler acts for.\<close>

definition player :: "twitch_client \<Rightarrow> nat \<Rightarrow> u8 list" where
  "player t cNum = (if cNum < length (currentPlayers t) then currentPlayers t ! cNum else [])"

lemma on_controller_state_run:
  assumes "controllerEnabled t" and "cNum = 0 \<or> currentGame t \<notin> set singlePlayerGames"
  shows "on_controller_state pluslist state cNum t =
    (let (e, sent, c) = state_to_controller pluslist (player t cNum) state (controllers t ! cNum)
     in (e, sent, t\<lparr>oldArgs2 := state, controllers := (controllers t)[cNum := c]\<rparr>))"
  using assms by (auto simp: on_controller_state_def player_def Let_def split: prod.split)

text \<open>C14: The privileged buttons of the server are protected against every text a player can send: whatever is received for
  player \<open>cNum\<close>, what is written to the port describes a controller on which capture and home are pressed only if the player is a moderator,
  and plus only if the player is on the list; nothing but the controller of that player changes.\<close>

theorem privileged_buttons:
  assumes "on_controller_state pluslist state cNum t = (e, sent, t')" and "cNum < length (controllers t)"
  shows "(sent = [] \<or> (\<exists>c. sent = send (sc_output (getOutput c)) \<and> c = controllers t' ! cNum \<and> may_press pluslist (player t cNum) c)) \<and>
    (\<exists>c. controllers t' = (controllers t)[cNum := c])"
proof (cases "controllerEnabled t \<and> (cNum = 0 \<or> currentGame t \<notin> set singlePlayerGames)")
  case True
  obtain e1 sent1 c where c: "state_to_controller pluslist (player t cNum) state (controllers t ! cNum) = (e1, sent1, c)" by (metis prod_cases3)
  have "sent = sent1 \<and> t' = t\<lparr>oldArgs2 := state, controllers := (controllers t)[cNum := c]\<rparr>"
    using assms(1) True c on_controller_state_run [of t cNum pluslist state] by simp
  then show ?thesis using state_may_press [OF c] assms(2) by auto
next
  case False
  then have "sent = [] \<and> t' = t" using assms(1) unfolding on_controller_state_def by (auto split: if_splits)
  then show ?thesis by (auto intro: exI [of _ "controllers t ! cNum"])
qed

text \<open>C15: The server's text protocol is read back as it is written: a state in the form \<^verbatim>\<open>getOutput\<close> gives it is relayed without an error, with
  every button the player may press and both sticks; the vertical axes are turned around.\<close>

theorem server_relays_state:
  assumes "controllerEnabled t" and "cNum = 0 \<or> currentGame t \<notin> set singlePlayerGames"
    and "0 \<le> sc_dpad c" and "sc_dpad c \<le> 9" and "sc_output (getOutput c) \<noteq> neutral"
  shows "\<exists>t'. on_controller_state pluslist (sc_output (getOutput c)) cNum t =
    (None, send (sc_output (getOutput (permitted pluslist (player t cNum) c))), t')"
proof -
  obtain c' where "state_to_controller pluslist (player t cNum) (sc_output (getOutput c)) (controllers t ! cNum) =
      (None, send (sc_output (getOutput (permitted pluslist (player t cNum) c))), c')"
    using state_of_output [OF assms(3-5)] by (rule exE)
  then show ?thesis by (simp add: on_controller_state_run [OF assms(1,2)])
qed

text \<open>A server with one unknown player, who presses home and B.\<close>

definition example_client :: twitch_client where
  "example_client = \<lparr>controllerEnabled = True, currentPlayers = [[0x61]], currentGame = [], oldArgs2 = neutral,
     controllers = replicate 4 SwitchController_init\<rparr>"

lemma example_player: "player example_client 0 = [0x61]" "py_lower [0x61] \<notin> set modlist" "py_lower [0x61] = [0x61]"
  by (simp_all add: player_def example_client_def py_lower_def modlist_def)

lemma example_state: "sc_output (getOutput (SwitchController_init\<lparr>sc_b := 1, sc_home := 1\<rparr>)) \<noteq> neutral"
proof -
  let ?o = "sc_output (getOutput (SwitchController_init\<lparr>sc_b := 1, sc_home := 1\<rparr>))"
  have "?o ! 7 = 0x31" by (simp add: getOutput_def flag_def py_str_def dec.simps SwitchController_init_def DPAD_CENTER_def)
  moreover have "neutral ! 7 = 0x30" by (simp add: neutral_def nth_append)
  ultimately show ?thesis by auto
qed

theorem server_relays_state_witness:
  "\<exists>t' c. on_controller_state [] (sc_output (getOutput (SwitchController_init\<lparr>sc_b := 1, sc_home := 1\<rparr>))) 0 example_client =
     (None, send (sc_output (getOutput c)), t') \<and> sc_b c = 1 \<and> sc_home c = 0 \<and> sc_LY c = 127"
proof -
  let ?c = "SwitchController_init\<lparr>sc_b := 1, sc_home := 1\<rparr>"
  have "\<exists>t'. on_controller_state [] (sc_output (getOutput ?c)) 0 example_client =
      (None, send (sc_output (getOutput (permitted [] (player example_client 0) ?c))), t')"
    by (rule server_relays_state) (simp_all add: example_client_def example_state, simp_all add: SwitchController_init_def DPAD_CENTER_def)
  moreover have "sc_b (permitted [] [0x61] ?c) = 1 \<and> sc_home (permitted [] [0x61] ?c) = 0 \<and> sc_LY (permitted [] [0x61] ?c) = 127"
    using example_player(2) by (simp add: permitted_def SwitchController_init_def STICK_CENTER_def)
  ultimately show ?thesis unfolding example_player(1) by (elim exE) (rule exI, rule exI, rule conjI)
qed

theorem privileged_buttons_witness:
  "\<exists>e sent t'. on_controller_state [] (sc_output (getOutput (SwitchController_init\<lparr>sc_b := 1, sc_home := 1\<rparr>))) 0 example_client = (e, sent, t') \<and>
     (sent = [] \<or> (\<exists>c. sent = send (sc_output (getOutput c)) \<and> sc_home c = 0))"
proof -
  let ?state = "sc_output (getOutput (SwitchController_init\<lparr>sc_b := 1, sc_home := 1\<rparr>))"
  obtain e sent t' where run: "on_controller_state [] ?state 0 example_client = (e, sent, t')" by (metis prod_cases3)
  have "0 < length (controllers example_client)" by (simp add: example_client_def)
  from privileged_buttons [OF run this] have "sent = [] \<or> (\<exists>c. sent = send (sc_output (getOutput c)) \<and> sc_home c = 0)"
    unfolding example_player(1) may_press_def using example_player(2) by auto
  then show ?thesis using run by (intro exI conjI)
qed

section \<open>The recording and the keyboard\<close>

text \<open>The reader of recordings never presses a stick.\<close>

lemma tas_reader_no_stick_click:
  assumes "tas_on_controller_state args c = (e, sent, c')"
  shows "sc_lstick c' = 0 \<and> sc_rstick c' = 0"
proof -
  let ?I = "\<lambda>c. sc_lstick c = 0 \<and> sc_rstick c = 0"
  have press: "?I (snd (press tas_buttons btns d))" if "?I d" for btns d
    by (rule press_invariant [where I = ?I, OF _ that]) (auto simp: tas_buttons_def)
  have sticks: "?I d \<Longrightarrow> ?I (snd (tas_sticks LX LY RX RY d))" for LX LY RX RY d
    by (auto simp: tas_sticks_def Let_def split: option.split)
  have reset: "?I (SwitchController_reset c)" "?I (SwitchController_reset c\<lparr>sc_dpad := d\<rparr>)" for d
    by (simp_all add: SwitchController_reset_def SwitchController_init_def)
  show ?thesis using assms press [OF reset(2)] sticks reset(1)
    by (auto simp: tas_on_controller_state_def send_and_reset_def getOutput_def Let_def split: list.splits option.splits prod.splits)
      (metis snd_conv)+
qed

text \<open>The keyboard gives the ends and the middle of the sticks and one of five directions.\<close>

definition pc_values :: "SwitchController \<Rightarrow> bool" where
  "pc_values c \<longleftrightarrow> {sc_LX c, sc_LY c, sc_RX c, sc_RY c} \<subseteq> {0, 128, 255} \<and> sc_dpad c \<in> {0, 2, 4, 6, 8}"

lemma pc_control_values:
  assumes "pc_control_turn key escape due c = (sent, Some c')"
  shows "pc_values c' \<and> (sent = [] \<or> sent = send (sc_output c'))"
proof -
  note value_defs = STICK_MIN_def STICK_MAX_def STICK_CENTER_def DPAD_UP_def DPAD_RIGHT_def DPAD_DOWN_def DPAD_LEFT_def DPAD_CENTER_def
  have binding: "list_all (\<lambda>(k, f). \<forall>c. pc_values c \<longrightarrow> pc_values (f c)) pc_bindings"
    by (simp add: pc_bindings_def pc_values_def value_defs)
  have "pc_values (fold (\<lambda>(k, f) c. if key k then f c else c) bs c)" if "list_all (\<lambda>(k, f). \<forall>c. pc_values c \<longrightarrow> pc_values (f c)) bs" "pc_values c" for bs c
    using that by (induction bs arbitrary: c) auto
  note run = this [OF binding]
  have reset: "pc_values (SwitchController_reset c)" for c
    by (simp add: pc_values_def SwitchController_reset_def SwitchController_init_def value_defs)
  have "pc_values (getOutput c) = pc_values c" for c by (simp add: pc_values_def getOutput_def)
  then show ?thesis using assms run [OF reset] by (auto simp: pc_control_turn_def Let_def split: if_splits)
qed

end
