(* ===== verification/ConfigDescriptors.thy ===== *)
theory ConfigDescriptors
  imports Descriptors "HOL-Library.Sublist"
begin

text \<open>
  Traversal of a configuration descriptor (\<^verbatim>\<open>LUFA/Drivers/USB/Core/ConfigDescriptors.c\<close> and
  \<^verbatim>\<open>.h\<close>). The routines walk over raw memory with a pointer and a count of the remaining bytes, so
  the model has the 64 KiB byte memory of the AVR as a function \<open>mem\<close> on 16-bit addresses and a
  cursor \<open>(BytesRem, CurrConfigLoc)\<close>. The loops need not end (a descriptor of length zero is
  never passed), hence they are partial functions.
\<close>

type_synonym cursor = "u16 \<times> u16"

definition DESCRIPTOR_SIZE :: "mem \<Rightarrow> u16 \<Rightarrow> u8" where
  "DESCRIPTOR_SIZE mem p = mem p"

definition DESCRIPTOR_TYPE :: "mem \<Rightarrow> u16 \<Rightarrow> u8" where
  "DESCRIPTOR_TYPE mem p = mem (p + 1)"

definition DESCRIPTOR_SEARCH_Found :: u8 where "DESCRIPTOR_SEARCH_Found = 0"
definition DESCRIPTOR_SEARCH_Fail :: u8 where "DESCRIPTOR_SEARCH_Fail = 1"
definition DESCRIPTOR_SEARCH_NotFound :: u8 where "DESCRIPTOR_SEARCH_NotFound = 2"
definition DESCRIPTOR_SEARCH_COMP_EndOfDescriptor :: u8 where
  "DESCRIPTOR_SEARCH_COMP_EndOfDescriptor = 2"

lemmas search_defs = DESCRIPTOR_SEARCH_Found_def DESCRIPTOR_SEARCH_Fail_def
  DESCRIPTOR_SEARCH_NotFound_def DESCRIPTOR_SEARCH_COMP_EndOfDescriptor_def

definition USB_GetNextDescriptor :: "mem \<Rightarrow> cursor \<Rightarrow> cursor" where
  "USB_GetNextDescriptor mem c =
     (let (BytesRem, CurrConfigLoc) = c;
          CurrDescriptorSize = (ucast (DESCRIPTOR_SIZE mem CurrConfigLoc) :: u16);
          CurrDescriptorSize = (if BytesRem < CurrDescriptorSize then BytesRem else CurrDescriptorSize)
      in (BytesRem - CurrDescriptorSize, CurrConfigLoc + CurrDescriptorSize))"

partial_function (option) USB_GetNextDescriptorOfType :: "mem \<Rightarrow> u8 \<Rightarrow> cursor \<Rightarrow> cursor option" where
  "USB_GetNextDescriptorOfType mem T c =
     (if fst c = 0 then Some c
      else let c' = USB_GetNextDescriptor mem c in
        if DESCRIPTOR_TYPE mem (snd c') = T then Some c'
        else USB_GetNextDescriptorOfType mem T c')"

partial_function (option) USB_GetNextDescriptorOfTypeBefore ::
  "mem \<Rightarrow> u8 \<Rightarrow> u8 \<Rightarrow> cursor \<Rightarrow> cursor option" where
  "USB_GetNextDescriptorOfTypeBefore mem T BeforeType c =
     (if fst c = 0 then Some c
      else let c' = USB_GetNextDescriptor mem c in
        if DESCRIPTOR_TYPE mem (snd c') = T then Some c'
        else if DESCRIPTOR_TYPE mem (snd c') = BeforeType then Some (0, snd c')
        else USB_GetNextDescriptorOfTypeBefore mem T BeforeType c')"

definition USB_GetNextDescriptorOfTypeAfter ::
  "mem \<Rightarrow> u8 \<Rightarrow> u8 \<Rightarrow> cursor \<Rightarrow> cursor option" where
  "USB_GetNextDescriptorOfTypeAfter mem T AfterType c =
     (case USB_GetNextDescriptorOfType mem AfterType c of
        None \<Rightarrow> None
      | Some c' \<Rightarrow> if fst c' \<noteq> 0 then USB_GetNextDescriptorOfType mem T c' else Some c')"

text \<open>The comparator is code of the caller: a parameter.\<close>

partial_function (option) USB_GetNextDescriptorComp ::
  "mem \<Rightarrow> (mem \<Rightarrow> u16 \<Rightarrow> u8) \<Rightarrow> cursor \<Rightarrow> (u8 \<times> cursor) option" where
  "USB_GetNextDescriptorComp mem ComparatorRoutine c =
     (if fst c = 0 then Some (DESCRIPTOR_SEARCH_COMP_EndOfDescriptor, c)
      else let c' = USB_GetNextDescriptor mem c; ErrorCode = ComparatorRoutine mem (snd c') in
        if ErrorCode \<noteq> DESCRIPTOR_SEARCH_NotFound
        then Some (ErrorCode, if ErrorCode = DESCRIPTOR_SEARCH_Fail then c else c')
        else USB_GetNextDescriptorComp mem ComparatorRoutine c')"

subsection \<open>Descriptor sequences in memory\<close>

text \<open>\<open>wf_desc d\<close>: a descriptor is its own length byte, its type byte and more. \<open>stored mem p bs\<close>: the
  bytes \<open>bs\<close> are in memory from address \<open>p\<close> on.\<close>

definition wf_desc :: "u8 list \<Rightarrow> bool" where
  "wf_desc d \<longleftrightarrow> 2 \<le> length d \<and> unat (d ! 0) = length d"

definition desc_type :: "u8 list \<Rightarrow> u8" where
  "desc_type d = d ! 1"

definition stored :: "mem \<Rightarrow> u16 \<Rightarrow> u8 list \<Rightarrow> bool" where
  "stored mem p bs \<longleftrightarrow> (\<forall>i < length bs. mem (p + of_nat i) = bs ! i)"

text \<open>The cursor that stands at the first of the descriptors \<open>ds\<close>, the whole of which ends at \<open>e\<close>.\<close>

definition cursor_at :: "u16 \<Rightarrow> u8 list list \<Rightarrow> cursor" where
  "cursor_at e ds = (of_nat (length (concat ds)), e - of_nat (length (concat ds)))"

definition config_mem :: "mem \<Rightarrow> u16 \<Rightarrow> u8 list list \<Rightarrow> bool" where
  "config_mem mem e ds \<longleftrightarrow> list_all wf_desc ds \<and> length (concat ds) < 2 ^ 16 \<and>
     stored mem (e - of_nat (length (concat ds))) (concat ds)"

lemma stored_append:
  "stored mem p (xs @ ys) \<longleftrightarrow> stored mem p xs \<and> stored mem (p + of_nat (length xs)) ys"
proof
  assume a: "stored mem p (xs @ ys)"
  have "mem (p + of_nat (length xs) + of_nat i) = ys ! i" if "i < length ys" for i
    using a that by (auto simp: stored_def add.assoc dest: spec [of _ "length xs + i"])
  moreover have "mem (p + of_nat i) = xs ! i" if "i < length xs" for i
    using a that by (auto simp: stored_def nth_append dest!: spec [of _ i])
  ultimately show "stored mem p xs \<and> stored mem (p + of_nat (length xs)) ys"
    by (auto simp: stored_def)
next
  assume a: "stored mem p xs \<and> stored mem (p + of_nat (length xs)) ys"
  show "stored mem p (xs @ ys)" unfolding stored_def
  proof (intro allI impI)
    fix i assume i: "i < length (xs @ ys)"
    show "mem (p + of_nat i) = (xs @ ys) ! i"
    proof (cases "i < length xs")
      case True
      then show ?thesis using a by (simp add: stored_def nth_append)
    next
      case False
      then obtain j where j: "i = length xs + j" using le_Suc_ex by (metis not_less)
      then have "j < length ys" using i by simp
      then show ?thesis using a j by (auto simp: stored_def nth_append add.assoc)
    qed
  qed
qed

lemma config_mem_Cons:
  assumes "config_mem mem e (d # ds)"
  shows "config_mem mem e ds" and "wf_desc d" and "stored mem (snd (cursor_at e (d # ds))) d"
  using assms unfolding config_mem_def cursor_at_def
  by (auto simp: stored_append algebra_simps)

lemma stored_nth: "stored mem p bs \<Longrightarrow> i < length bs \<Longrightarrow> mem (p + of_nat i) = bs ! i"
  by (simp add: stored_def)

lemma cursor_type:
  assumes "config_mem mem e (d # ds)"
  shows "DESCRIPTOR_TYPE mem (snd (cursor_at e (d # ds))) = desc_type d"
  using stored_nth [OF config_mem_Cons(3) [OF assms], of 1] config_mem_Cons(2) [OF assms]
  by (simp add: DESCRIPTOR_TYPE_def wf_desc_def desc_type_def)

lemma cursor_next:
  assumes "config_mem mem e (d # ds)"
  shows "USB_GetNextDescriptor mem (cursor_at e (d # ds)) = cursor_at e ds"
proof -
  have w: "wf_desc d" and st: "stored mem (snd (cursor_at e (d # ds))) d"
    using config_mem_Cons [OF assms] by auto
  then have sz: "mem (snd (cursor_at e (d # ds))) = d ! 0"
    using stored_nth [OF st, of 0] by (cases d) (auto simp: wf_desc_def)
  have len: "(ucast (d ! 0) :: u16) = of_nat (length d)"
    using w by (intro ucast_u16_of_nat) (simp add: wf_desc_def)
  define n where "n = length (concat (d # ds))"
  have "n < 65536" "length d \<le> n" using assms by (auto simp: config_mem_def n_def)
  then have "\<not> (of_nat n :: u16) < of_nat (length d)"
    by (simp add: word_less_nat_alt unat_of_nat_u16)
  then have "\<not> (of_nat (length d) + of_nat (length (concat ds)) :: u16) < of_nat (length d)"
    by (simp add: n_def)
  then show ?thesis using sz len
    by (simp add: USB_GetNextDescriptor_def DESCRIPTOR_SIZE_def cursor_at_def)
qed

lemma cursor_empty: "config_mem mem e ds \<Longrightarrow> fst (cursor_at e ds) = 0 \<longleftrightarrow> ds = []"
proof
  assume c: "config_mem mem e ds" and z: "fst (cursor_at e ds) = 0"
  have "unat (of_nat (length (concat ds)) :: u16) = length (concat ds)"
    using c by (intro unat_of_nat_u16) (simp add: config_mem_def)
  with z have "length (concat ds) = 0" by (simp add: cursor_at_def)
  then show "ds = []" using c by (cases ds) (auto simp: config_mem_def wf_desc_def)
qed (simp add: cursor_at_def)

subsection \<open>The searches find the first matching descriptor\<close>

text \<open>One turn of a search loop, over a well-formed sequence of descriptors. After the last descriptor
  the type byte the loop reads lies behind the sequence; the result is the same whatever it is, up
  to the value of the pointer, because no bytes remain.\<close>

lemma cursor_at_Nil: "cursor_at e [] = (0, e)"
  by (simp add: cursor_at_def)

lemma OfType_end:
  "USB_GetNextDescriptorOfType mem T (0, e) = Some (0, e)"
  by (subst USB_GetNextDescriptorOfType.simps) simp

lemma OfType_step:
  assumes "config_mem mem e (d # ds)"
  shows "USB_GetNextDescriptorOfType mem T (cursor_at e (d # ds)) =
    (if DESCRIPTOR_TYPE mem (snd (cursor_at e ds)) = T then Some (cursor_at e ds)
     else USB_GetNextDescriptorOfType mem T (cursor_at e ds))"
  using cursor_empty [OF assms] cursor_next [OF assms]
  by (subst USB_GetNextDescriptorOfType.simps) (simp add: Let_def)

lemma OfType_search:
  "config_mem mem e (d # ds) \<Longrightarrow>
   USB_GetNextDescriptorOfType mem T (cursor_at e (d # ds)) =
     Some (cursor_at e (dropWhile (\<lambda>x. desc_type x \<noteq> T) ds))"
proof (induction ds arbitrary: d)
  case Nil
  then show ?case by (simp add: OfType_step OfType_end cursor_at_Nil)
next
  case (Cons x ds)
  then have "config_mem mem e (x # ds)" by (blast dest: config_mem_Cons(1))
  then show ?case using Cons by (simp add: OfType_step cursor_type)
qed

lemma Before_step:
  assumes "config_mem mem e (d # ds)"
  shows "USB_GetNextDescriptorOfTypeBefore mem T B (cursor_at e (d # ds)) =
    (if DESCRIPTOR_TYPE mem (snd (cursor_at e ds)) = T then Some (cursor_at e ds)
     else if DESCRIPTOR_TYPE mem (snd (cursor_at e ds)) = B then Some (0, snd (cursor_at e ds))
     else USB_GetNextDescriptorOfTypeBefore mem T B (cursor_at e ds))"
  using cursor_empty [OF assms] cursor_next [OF assms]
  by (subst USB_GetNextDescriptorOfTypeBefore.simps) (simp add: Let_def)

lemma Before_end: "USB_GetNextDescriptorOfTypeBefore mem T B (0, e) = Some (0, e)"
  by (subst USB_GetNextDescriptorOfTypeBefore.simps) simp

definition before_spec :: "u8 \<Rightarrow> u8 \<Rightarrow> u16 \<Rightarrow> u8 list list \<Rightarrow> cursor" where
  "before_spec T B e ds =
     (let r = dropWhile (\<lambda>x. desc_type x \<noteq> T \<and> desc_type x \<noteq> B) ds in
      if r \<noteq> [] \<and> desc_type (hd r) = T then cursor_at e r else (0, snd (cursor_at e r)))"

lemma Before_search:
  "config_mem mem e (d # ds) \<Longrightarrow>
   USB_GetNextDescriptorOfTypeBefore mem T B (cursor_at e (d # ds)) = Some (before_spec T B e ds)"
proof (induction ds arbitrary: d)
  case Nil
  then show ?case by (simp add: Before_step Before_end cursor_at_Nil before_spec_def)
next
  case (Cons x ds)
  then have "config_mem mem e (x # ds)" by (blast dest: config_mem_Cons(1))
  then show ?case using Cons by (auto simp: Before_step cursor_type before_spec_def Let_def)
qed

lemma config_mem_dropWhile: "config_mem mem e ds \<Longrightarrow> config_mem mem e (dropWhile P ds)"
  by (induction ds) (auto dest: config_mem_Cons(1))

definition desc_after :: "u8 \<Rightarrow> u8 \<Rightarrow> u8 list list \<Rightarrow> u8 list list" where
  "desc_after T A ds = dropWhile (\<lambda>x. desc_type x \<noteq> T) (tl (dropWhile (\<lambda>x. desc_type x \<noteq> A) ds))"

lemma After_search:
  assumes "config_mem mem e (d # ds)"
  shows "USB_GetNextDescriptorOfTypeAfter mem T A (cursor_at e (d # ds)) =
    Some (cursor_at e (desc_after T A ds))"
proof -
  let ?r = "dropWhile (\<lambda>x. desc_type x \<noteq> A) ds"
  have c: "config_mem mem e ?r" using assms by (blast dest: config_mem_Cons(1) config_mem_dropWhile)
  show ?thesis
  proof (cases ?r)
    case Nil
    show ?thesis
      unfolding USB_GetNextDescriptorOfTypeAfter_def desc_after_def OfType_search [OF assms] Nil
      by (simp add: cursor_at_Nil)
  next
    case (Cons x xs)
    then have "fst (cursor_at e (x # xs)) \<noteq> 0" using cursor_empty [OF c] by simp
    then show ?thesis using assms Cons c
      by (simp add: USB_GetNextDescriptorOfTypeAfter_def OfType_search desc_after_def)
  qed
qed


text \<open>The configuration descriptor of the firmware, placed at an address of the memory.\<close>

definition joystick_descs :: "u8 list list" where
  "joystick_descs =
     [bytes_of_Configuration_Header (Config ConfigurationDescriptor),
      bytes_of_Interface (HID_Interface ConfigurationDescriptor),
      bytes_of_HID (HID_JoystickHID ConfigurationDescriptor),
      bytes_of_Endpoint (HID_ReportOUTEndpoint ConfigurationDescriptor),
      bytes_of_Endpoint (HID_ReportINEndpoint ConfigurationDescriptor)]"

lemma joystick_descs_bytes:
  "joystick_descs =
     [[9, 2, 41, 0, 1, 1, 0, 0x80, 125], [9, 4, 0, 0, 2, 3, 0, 0, 0],
      [9, 0x21, 0x11, 0x01, 0, 1, 0x22, 0x50, 0], [7, 5, 0x02, 3, 64, 0, 5], [7, 5, 0x81, 3, 64, 0, 5]]"
  by (simp add: joystick_descs_def ConfigurationDescriptor_def bytes_of_defs le16_def lo8_def
      hi8_def dtype_defs ep_defs VERSION_BCD_def USB_CONFIG_POWER_MA_def sizeof_JoystickReport)

definition rom_image :: "u8 list \<Rightarrow> mem" where
  "rom_image bs p = (if unat p < length bs then bs ! unat p else 0)"

lemma stored_rom_image: "length bs < 65536 \<Longrightarrow> stored (rom_image bs) 0 bs"
  by (simp add: stored_def rom_image_def unat_of_nat_u16)

lemma config_mem_joystick: "config_mem (rom_image (concat joystick_descs)) 41 joystick_descs"
proof -
  have "length (concat joystick_descs) = 41" by (simp add: joystick_descs_bytes)
  then show ?thesis
    using stored_rom_image [of "concat joystick_descs"]
    by (simp add: config_mem_def) (simp add: joystick_descs_bytes wf_desc_def)
qed


subsection \<open>Comparator search, zero-length descriptors and the read behind the end\<close>

fun comp_spec :: "(u16 \<Rightarrow> u8) \<Rightarrow> u16 \<Rightarrow> u8 list list \<Rightarrow> u8 \<times> cursor" where
  "comp_spec cmp e [] = (DESCRIPTOR_SEARCH_COMP_EndOfDescriptor, cursor_at e [])"
| "comp_spec cmp e (d # ds) =
     (let r = cmp (snd (cursor_at e ds)) in
      if r = DESCRIPTOR_SEARCH_NotFound then comp_spec cmp e ds
      else (r, if r = DESCRIPTOR_SEARCH_Fail then cursor_at e (d # ds) else cursor_at e ds))"

lemma comp_spec_rejecting:
  assumes "\<And>ds'. suffix ds' ds \<Longrightarrow> ds' \<noteq> [] \<Longrightarrow> cmp (snd (cursor_at e ds')) = DESCRIPTOR_SEARCH_NotFound"
    and "cmp e = DESCRIPTOR_SEARCH_Found"
  shows "comp_spec cmp e (d # ds) = (DESCRIPTOR_SEARCH_Found, (0, e))"
  using assms(1)
proof (induction ds arbitrary: d)
  case Nil
  then show ?case using assms(2) by (simp add: cursor_at_Nil search_defs)
next
  case (Cons x ds)
  then have "cmp (snd (cursor_at e (x # ds))) = DESCRIPTOR_SEARCH_NotFound" by blast
  then show ?case using Cons by (simp add: Let_def suffix_Cons)
qed

lemma Comp_search:
  "config_mem mem e ds \<Longrightarrow>
   USB_GetNextDescriptorComp mem cmp (cursor_at e ds) = Some (comp_spec (cmp mem) e ds)"
proof (induction ds)
  case Nil
  then show ?case by (subst USB_GetNextDescriptorComp.simps) (simp add: cursor_at_Nil)
next
  case (Cons d ds)
  then show ?case
    using cursor_empty [OF Cons.prems] cursor_next [OF Cons.prems] config_mem_Cons(1) [OF Cons.prems]
    by (subst USB_GetNextDescriptorComp.simps) (simp add: Let_def)
qed

text \<open>The comparator is also called with the address behind the last descriptor: it may report a
  match there although no bytes remain.\<close>

text \<open>A comparator that accepts whatever memory follows the configuration descriptor makes the
  search report success behind its end: when it rejects every descriptor after the current one,
  the result of \<^verbatim>\<open>USB_GetNextDescriptorComp\<close> is the verdict on the address just behind the
  descriptor, with no bytes remaining.\<close>

theorem Comp_reads_behind_the_end:
  assumes "config_mem mem e (d # ds)"
    and "\<And>ds'. suffix ds' ds \<Longrightarrow> ds' \<noteq> [] \<Longrightarrow>
           cmp mem (snd (cursor_at e ds')) = DESCRIPTOR_SEARCH_NotFound"
    and "cmp mem e = DESCRIPTOR_SEARCH_Found"
  shows "USB_GetNextDescriptorComp mem cmp (cursor_at e (d # ds)) =
    Some (DESCRIPTOR_SEARCH_Found, (0, e))"
  using Comp_search [OF assms(1)] comp_spec_rejecting [of ds "cmp mem" e d] assms(2,3) by simp

theorem Comp_reads_behind_the_end_witness:
  "\<exists>mem. USB_GetNextDescriptorComp mem
     (\<lambda>mem p. if DESCRIPTOR_TYPE mem p = 0x24 then DESCRIPTOR_SEARCH_Found
              else DESCRIPTOR_SEARCH_NotFound) (14, 27) = Some (DESCRIPTOR_SEARCH_Found, (0, 41))"
proof -
  let ?m = "rom_image (concat joystick_descs @ [5, 0x24])"
  let ?d = "[7, 5, 0x02, 3, 64, 0, 5]" and ?x = "[7, 5, 0x81, 3, 64, 0, 5]"
  let ?cmp = "\<lambda>mem p. if DESCRIPTOR_TYPE mem p = 0x24 then DESCRIPTOR_SEARCH_Found
              else DESCRIPTOR_SEARCH_NotFound"
  have m: "?m (27 + of_nat i) = (concat joystick_descs @ [5, 0x24]) ! (27 + i)" if "i < 16" for i
    using that unat_of_nat_u16 [of "27 + i"] by (simp add: rom_image_def joystick_descs_bytes)
  have "config_mem ?m 41 [?d, ?x]"
    unfolding config_mem_def stored_def
    using m by (simp add: wf_desc_def joystick_descs_bytes All_less_Suc)
  moreover have "DESCRIPTOR_TYPE ?m 41 = 0x24" and "DESCRIPTOR_TYPE ?m 34 = 5"
    using m [of 15] m [of 8] by (simp_all add: DESCRIPTOR_TYPE_def joystick_descs_bytes)
  ultimately have "USB_GetNextDescriptorComp ?m ?cmp (cursor_at 41 (?d # [?x])) =
    Some (DESCRIPTOR_SEARCH_Found, (0, 41))"
    by (intro Comp_reads_behind_the_end) (auto simp: suffix_Cons cursor_at_def)
  then show ?thesis by (intro exI [of _ ?m]) (simp add: cursor_at_def)
qed

text \<open>A descriptor whose length byte is zero is never passed: every typed search that starts on
  it with bytes remaining and another type wanted runs forever.\<close>

theorem zero_length_descriptor_hangs:
  assumes "DESCRIPTOR_SIZE mem p = 0" and "DESCRIPTOR_TYPE mem p \<noteq> T" and "n \<noteq> 0"
  shows "USB_GetNextDescriptorOfType mem T (n, p) = None"
proof -
  have stay: "USB_GetNextDescriptor mem (n, p) = (n, p)"
    using assms by (simp add: USB_GetNextDescriptor_def)
  have "\<not> (mem' = mem \<and> T' = T \<and> c = (n, p))"
    if ret: "USB_GetNextDescriptorOfType mem' T' c = Some r" for mem' T' c r
  proof (rule USB_GetNextDescriptorOfType.raw_induct
      [of "\<lambda>mem' T' c r. \<not> (mem' = mem \<and> T' = T \<and> c = (n, p))", OF _ ret])
    fix f :: "mem \<Rightarrow> u8 \<Rightarrow> cursor \<Rightarrow> cursor option" and mem' T' c r
    assume ih: "\<And>mem' T' c r. f mem' T' c = Some r \<Longrightarrow> \<not> (mem' = mem \<and> T' = T \<and> c = (n, p))"
      and body: "(if fst c = 0 then Some c
            else let c' = USB_GetNextDescriptor mem' c
                 in if DESCRIPTOR_TYPE mem' (snd c') = T' then Some c' else f mem' T' c') = Some r"
    show "\<not> (mem' = mem \<and> T' = T \<and> c = (n, p))"
    proof
      assume "mem' = mem \<and> T' = T \<and> c = (n, p)"
      with body have "f mem T (n, p) = Some r" using assms stay by (simp add: Let_def)
      with ih show False by blast
    qed
  qed
  then show ?thesis by (metis not_None_eq)
qed

theorem zero_length_descriptor_hangs_witness:
  "USB_GetNextDescriptorOfType (\<lambda>_. 0) DTYPE_Interface (1, 0) = None"
  by (rule zero_length_descriptor_hangs) (simp_all add: DESCRIPTOR_SIZE_def DESCRIPTOR_TYPE_def dtype_defs)

end
