(* ===== verification/RingBuffer.thy ===== *)
theory RingBuffer
  imports ByteQueue
begin

text \<open>
  The generic ring buffer of LUFA (\<^verbatim>\<open>Drivers/Misc/RingBuffer.h\<close>). The record has the fields of
  \<^verbatim>\<open>RingBuffer_t\<close> with the pointers as offsets into the storage array \<open>Data\<close> (so \<^verbatim>\<open>Start\<close> is
  offset 0). Reads and writes through a pointer outside the storage give \<open>None\<close>. The sections that
  run with interrupts disabled are single updates of \<open>Count\<close>; an insertion by an interrupt handler
  can fall between the two halves of a removal, which \<open>Remove_fetch\<close> and \<open>Remove_commit\<close> separate.
\<close>

record RingBuffer_t =
  Data :: "u8 list"
  In :: nat
  Out :: nat
  End :: nat
  RB_Size :: u16
  Count :: u16

definition RingBuffer_InitBuffer :: "u8 list \<Rightarrow> u16 \<Rightarrow> RingBuffer_t" where
  "RingBuffer_InitBuffer DataPtr Size =
     \<lparr>Data = DataPtr, In = 0, Out = 0, End = unat Size, RB_Size = Size, Count = 0\<rparr>"

definition RingBuffer_GetCount :: "RingBuffer_t \<Rightarrow> u16" where
  "RingBuffer_GetCount b = Count b"

definition RingBuffer_GetFreeCount :: "RingBuffer_t \<Rightarrow> u16" where
  "RingBuffer_GetFreeCount b = RB_Size b - RingBuffer_GetCount b"

definition RingBuffer_IsEmpty :: "RingBuffer_t \<Rightarrow> bool" where
  "RingBuffer_IsEmpty b \<longleftrightarrow> RingBuffer_GetCount b = 0"

definition RingBuffer_IsFull :: "RingBuffer_t \<Rightarrow> bool" where
  "RingBuffer_IsFull b \<longleftrightarrow> RingBuffer_GetCount b = RB_Size b"

text \<open>The pointer after \<^verbatim>\<open>++p\<close> and its reset to the start at the end of the storage.\<close>

definition rb_next :: "RingBuffer_t \<Rightarrow> nat \<Rightarrow> nat" where
  "rb_next b k = (if Suc k = End b then 0 else Suc k)"

definition RingBuffer_Insert :: "u8 \<Rightarrow> RingBuffer_t \<Rightarrow> RingBuffer_t option" where
  "RingBuffer_Insert x b =
     (if In b < length (Data b)
      then Some (b\<lparr>Data := (Data b)[In b := x],
                   In := rb_next b (In b),
                   Count := Count b + 1\<rparr>)
      else None)"

definition Remove_fetch :: "RingBuffer_t \<Rightarrow> (u8 \<times> RingBuffer_t) option" where
  "Remove_fetch b =
     (if Out b < length (Data b)
      then Some (Data b ! Out b, b\<lparr>Out := rb_next b (Out b)\<rparr>)
      else None)"

definition Remove_commit :: "RingBuffer_t \<Rightarrow> RingBuffer_t" where
  "Remove_commit b = b\<lparr>Count := Count b - 1\<rparr>"

definition RingBuffer_Remove :: "RingBuffer_t \<Rightarrow> (u8 \<times> RingBuffer_t) option" where
  "RingBuffer_Remove b = map_option (\<lambda>(x, b'). (x, Remove_commit b')) (Remove_fetch b)"

definition RingBuffer_Peek :: "RingBuffer_t \<Rightarrow> u8 option" where
  "RingBuffer_Peek b = (if Out b < length (Data b) then Some (Data b ! Out b) else None)"

subsection \<open>The queue it represents\<close>

definition rb_ok :: "RingBuffer_t \<Rightarrow> bool" where
  "rb_ok b \<longleftrightarrow> length (Data b) = unat (RB_Size b) \<and> End b = unat (RB_Size b) \<and> RB_Size b \<noteq> 0 \<and>
     In b < End b \<and> Out b < End b \<and> Count b \<le> RB_Size b \<and>
     In b = (Out b + unat (Count b)) mod End b"

definition rb_content :: "RingBuffer_t \<Rightarrow> u8 list" where
  "rb_content b = map (\<lambda>i. Data b ! ((Out b + i) mod End b)) [0..<unat (Count b)]"

lemma length_rb_content [simp]: "length (rb_content b) = unat (Count b)"
  by (simp add: rb_content_def)

lemma InitBuffer_ok:
  "length DataPtr = unat Size \<Longrightarrow> Size \<noteq> 0 \<Longrightarrow>
   rb_ok (RingBuffer_InitBuffer DataPtr Size) \<and> rb_content (RingBuffer_InitBuffer DataPtr Size) = []"
  by (simp add: RingBuffer_InitBuffer_def rb_ok_def rb_content_def unat_gt_0)

lemma rb_next_mod: "k < End b \<Longrightarrow> rb_next b k = Suc k mod End b"
  by (simp add: rb_next_def)

lemma rb_next_update [simp]:
  "rb_next (b\<lparr>Data := d\<rparr>) k = rb_next b k" "rb_next (b\<lparr>In := i\<rparr>) k = rb_next b k"
  "rb_next (b\<lparr>Out := j\<rparr>) k = rb_next b k" "rb_next (b\<lparr>Count := c\<rparr>) k = rb_next b k"
  by (simp_all add: rb_next_def)

lemma ring_index_ne:
  assumes "i < c" and "c < n"
  shows "(k + i) mod n \<noteq> (k + c) mod (n :: nat)"
proof
  assume "(k + i) mod n = (k + c) mod n"
  then have "n dvd (k + c) - (k + i)" using assms mod_eq_dvd_iff_nat [of "k + i" "k + c" n] by auto
  then show False using assms by (auto dest: dvd_imp_le)
qed

lemma unat_u16_inc:
  assumes "unat x < unat (y :: u16)"
  shows "unat (x + 1 :: u16) = unat x + 1"
proof -
  have "unat x + 1 < 65536" using assms unat_u16_lt [of y] by linarith
  then show ?thesis by (simp add: unat_word_ariths)
qed

lemma unat_u16_dec: "x \<noteq> 0 \<Longrightarrow> unat (x - 1 :: u16) = unat x - 1"
  by (simp add: unat_minus_one)

lemma Insert_ok:
  assumes ok: "rb_ok b" and room: "unat (Count b) < unat (RB_Size b)"
  shows "\<exists>b'. RingBuffer_Insert x b = Some b' \<and> rb_ok b' \<and> rb_content b' = rb_content b @ [x] \<and>
    RB_Size b' = RB_Size b"
proof -
  let ?n = "unat (RB_Size b)" and ?c = "unat (Count b)"
  let ?b = "b\<lparr>Data := (Data b)[In b := x], In := rb_next b (In b),
              Count := Count b + 1\<rparr>"
  have c: "unat (Count b + 1) = ?c + 1" using room by (rule unat_u16_inc)
  have n: "length (Data b) = ?n" "End b = ?n" and inn: "In b = (Out b + ?c) mod ?n" and lt: "In b < ?n"
    using ok by (auto simp: rb_ok_def)
  have ins: "RingBuffer_Insert x b = Some ?b" using lt n by (simp add: RingBuffer_Insert_def)
  have "rb_next b (In b) = (Out b + Suc ?c) mod ?n"
    using lt n inn by (simp add: rb_next_mod mod_Suc_eq)
  then have "rb_ok ?b"
    using ok room c n lt by (auto simp: rb_ok_def word_le_nat_alt)
  moreover have "rb_content ?b = rb_content b @ [x]"
  proof -
    have "(Data b)[In b := x] ! ((Out b + i) mod ?n) = Data b ! ((Out b + i) mod ?n)" if "i < ?c" for i
      using ring_index_ne [OF that room, of "Out b"] inn by simp
    moreover have "(Data b)[In b := x] ! ((Out b + ?c) mod ?n) = x" using inn lt n by simp
    ultimately show ?thesis using c n by (simp add: rb_content_def)
  qed
  ultimately show ?thesis using ins by auto
qed

lemma Remove_ok:
  assumes ok: "rb_ok b" and ne: "rb_content b \<noteq> []"
  shows "\<exists>x b'. RingBuffer_Remove b = Some (x, b') \<and> rb_ok b' \<and> rb_content b = x # rb_content b' \<and>
    RB_Size b' = RB_Size b"
proof -
  let ?n = "unat (RB_Size b)" and ?c = "unat (Count b)"
  let ?b = "b\<lparr>Out := rb_next b (Out b), Count := Count b - 1\<rparr>"
  have nz: "Count b \<noteq> 0" using ne by (auto simp: rb_content_def)
  then have c: "unat (Count b - 1) = ?c - 1" and pos: "0 < ?c" by (simp_all add: unat_u16_dec unat_gt_0)
  have n: "length (Data b) = ?n" "End b = ?n" and lt: "Out b < ?n" and cn: "?c \<le> ?n"
    using ok by (auto simp: rb_ok_def word_le_nat_alt)
  have rem: "RingBuffer_Remove b = Some (Data b ! Out b, ?b)"
    using lt n by (simp add: RingBuffer_Remove_def Remove_fetch_def Remove_commit_def)
  have out: "Out ?b = Suc (Out b) mod ?n" using lt n by (simp add: rb_next_mod)
  have shift: "(Suc (Out b) mod ?n + i) mod ?n = (Out b + Suc i) mod ?n" for i
    by (simp add: mod_add_left_eq)
  have "(Suc (Out b) mod ?n + (?c - 1)) mod ?n = (Out b + ?c) mod ?n"
    using shift [of "?c - 1"] pos by simp
  then have "rb_ok ?b" using ok c n lt out cn by (auto simp: rb_ok_def word_le_nat_alt)
  moreover have "rb_content b = Data b ! Out b # rb_content ?b"
  proof -
    have "[0..<?c] = 0 # map Suc [0..<?c - 1]" using pos by (simp add: map_Suc_upt upt_conv_Cons)
    then show ?thesis using lt n out c shift by (simp add: rb_content_def comp_def)
  qed
  ultimately show ?thesis using rem by auto
qed

text \<open>The contract of \<open>bounded_queue\<close>, with the capacity equal to the size of the storage.\<close>

definition rb_put :: "u8 \<Rightarrow> RingBuffer_t \<Rightarrow> RingBuffer_t" where
  "rb_put x b = (case RingBuffer_Insert x b of Some b' \<Rightarrow> b' | None \<Rightarrow> b)"

definition rb_front :: "RingBuffer_t \<Rightarrow> u8" where
  "rb_front b = (case RingBuffer_Peek b of Some x \<Rightarrow> x | None \<Rightarrow> 0)"

definition rb_advance :: "RingBuffer_t \<Rightarrow> RingBuffer_t" where
  "rb_advance b = (case RingBuffer_Remove b of Some (x, b') \<Rightarrow> b' | None \<Rightarrow> b)"

lemma Remove_Peek: "RingBuffer_Remove b = Some (x, b') \<Longrightarrow> RingBuffer_Peek b = Some x"
  by (auto simp: RingBuffer_Remove_def Remove_fetch_def RingBuffer_Peek_def split: if_splits)

lemma rb_cap [simp]: "RB_Size (rb_put x b) = RB_Size b" "RB_Size (rb_advance b) = RB_Size b"
  by (auto simp: rb_put_def rb_advance_def RingBuffer_Insert_def RingBuffer_Remove_def Remove_fetch_def
      Remove_commit_def)

interpretation ring: bounded_queue rb_ok rb_content "\<lambda>b. unat (RB_Size b)" rb_put rb_front rb_advance
proof
  fix q x
  assume "rb_ok q" and "length (rb_content q) < unat (RB_Size q)"
  then show "rb_content (rb_put x q) = rb_content q @ [x]" and "rb_ok (rb_put x q)"
    using Insert_ok [of q x] by (auto simp: rb_put_def)
next
  fix q
  assume "rb_ok q" and "rb_content q \<noteq> []"
  then show "rb_content q = rb_front q # rb_content (rb_advance q)" and "rb_ok (rb_advance q)"
    using Remove_ok [of q] Remove_Peek [of q] by (auto simp: rb_front_def rb_advance_def)
qed simp_all

text \<open>Storing a whole byte string and taking bytes out again, with the results of the C functions.\<close>

fun insert_all :: "u8 list \<Rightarrow> RingBuffer_t \<Rightarrow> RingBuffer_t option" where
  "insert_all [] b = Some b"
| "insert_all (x # xs) b = Option.bind (RingBuffer_Insert x b) (insert_all xs)"

fun remove_n :: "nat \<Rightarrow> RingBuffer_t \<Rightarrow> (u8 list \<times> RingBuffer_t) option" where
  "remove_n 0 b = Some ([], b)"
| "remove_n (Suc n) b =
     Option.bind (RingBuffer_Remove b) (\<lambda>(x, b'). map_option (\<lambda>(xs, b''). (x # xs, b'')) (remove_n n b'))"

lemma insert_all_ok:
  "rb_ok b \<Longrightarrow> unat (Count b) + length xs \<le> unat (RB_Size b) \<Longrightarrow>
   insert_all xs b = Some (fold rb_put xs b)"
proof (induction xs arbitrary: b)
  case Nil
  then show ?case by simp
next
  case (Cons x xs)
  then obtain b' where b': "RingBuffer_Insert x b = Some b'" "rb_ok b'" "rb_content b' = rb_content b @ [x]"
    "RB_Size b' = RB_Size b"
    using Insert_ok [of b x] by auto
  then have "unat (Count b') = unat (Count b) + 1" by (metis length_append_singleton length_rb_content Suc_eq_plus1)
  then show ?case using Cons b' by (simp add: rb_put_def)
qed

lemma remove_n_ok:
  "rb_ok b \<Longrightarrow> n \<le> unat (Count b) \<Longrightarrow>
   \<exists>b'. remove_n n b = Some (take n (rb_content b), b') \<and> rb_ok b' \<and> rb_content b' = drop n (rb_content b)"
proof (induction n arbitrary: b)
  case 0
  then show ?case by simp
next
  case (Suc n)
  then have ne: "rb_content b \<noteq> []" by (metis Suc_n_not_le_n le0 le_trans length_0_conv length_rb_content not_less_eq_eq)
  obtain x b1 where r: "RingBuffer_Remove b = Some (x, b1)" "rb_ok b1" "rb_content b = x # rb_content b1"
    using Remove_ok [OF Suc.prems(1) ne] by auto
  then have "n \<le> unat (Count b1)" using Suc.prems(2) length_rb_content [of b] length_rb_content [of b1] by simp
  then show ?case using Suc.IH [OF r(2)] r by auto
qed





end
