(* ===== verification/Common.thy ===== *)
theory Common
  imports Prelude
begin

text \<open>
  Byte and bit order utilities of LUFA (\<^verbatim>\<open>Common/Endianness.h\<close>, \<^verbatim>\<open>Common/Common.h\<close>). The run-time swaps
  go through a union of the word and its bytes, which the AVR stores least significant first; the
  compile-time macros use masks and shifts. Both are modelled and shown equal.
\<close>

definition SWAPENDIAN_16 :: "u16 \<Rightarrow> u16" where
  "SWAPENDIAN_16 x = drop_bit 8 (x AND 0xFF00) OR push_bit 8 (x AND 0x00FF)"

definition SWAPENDIAN_32 :: "u32 \<Rightarrow> u32" where
  "SWAPENDIAN_32 x = drop_bit 24 (x AND 0xFF000000) OR drop_bit 8 (x AND 0x00FF0000) OR
     push_bit 8 (x AND 0x0000FF00) OR push_bit 24 (x AND 0x000000FF)"

text \<open>\<open>Bytes[0]\<close> of the union is the least significant byte.\<close>

definition SwapEndian_16 :: "u16 \<Rightarrow> u16" where
  "SwapEndian_16 Word =
     (let Bytes = [lo8 Word, hi8 Word];
          Temp = Bytes ! 0;
          Bytes = Bytes[0 := Bytes ! 1];
          Bytes = Bytes[1 := Temp]
      in join16 (Bytes ! 1) (Bytes ! 0))"

definition SwapEndian_32 :: "u32 \<Rightarrow> u32" where
  "SwapEndian_32 DWord =
     (let Bytes = [byte32 0 DWord, byte32 1 DWord, byte32 2 DWord, byte32 3 DWord];
          Temp = Bytes ! 0;
          Bytes = Bytes[0 := Bytes ! 3];
          Bytes = Bytes[3 := Temp];
          Temp = Bytes ! 1;
          Bytes = Bytes[1 := Bytes ! 2];
          Bytes = Bytes[2 := Temp]
      in join32 (Bytes ! 3) (Bytes ! 2) (Bytes ! 1) (Bytes ! 0))"

text \<open>The loop of \<^verbatim>\<open>SwapEndian_n\<close>: \<open>pos\<close> is \<^verbatim>\<open>CurrDataPos - Data\<close>.\<close>

fun SwapEndian_n_loop :: "nat \<Rightarrow> nat \<Rightarrow> u8 list \<Rightarrow> u8 list" where
  "SwapEndian_n_loop pos len d =
     (if 1 < len
      then (let Temp = d ! pos;
                d = d[pos := d ! (pos + len - 1)];
                d = d[pos + len - 1 := Temp]
            in SwapEndian_n_loop (pos + 1) (len - 2) d)
      else d)"

declare SwapEndian_n_loop.simps [simp del]

definition SwapEndian_n :: "u8 list \<Rightarrow> u8 \<Rightarrow> u8 list" where
  "SwapEndian_n d Length = SwapEndian_n_loop 0 (unat Length) d"

definition BitReverse :: "u8 \<Rightarrow> u8" where
  "BitReverse x =
     (let x = drop_bit 4 (x AND 0xF0) OR push_bit 4 (x AND 0x0F);
          x = drop_bit 2 (x AND 0xCC) OR push_bit 2 (x AND 0x33)
      in drop_bit 1 (x AND 0xAA) OR push_bit 1 (x AND 0x55))"

subsection \<open>Properties\<close>

lemma SwapEndian_16_eq: "SwapEndian_16 x = join16 (lo8 x) (hi8 x)"
  by (simp add: SwapEndian_16_def Let_def)

lemma SwapEndian_32_eq:
  "SwapEndian_32 x = join32 (byte32 0 x) (byte32 1 x) (byte32 2 x) (byte32 3 x)"
  by (simp add: SwapEndian_32_def Let_def eval_nat_numeral)

lemma SwapEndian_n_loop_rev:
  "SwapEndian_n_loop (length as) (length bs) (as @ bs @ cs) = as @ rev bs @ cs"
proof (induction "length bs" arbitrary: as bs cs rule: less_induct)
  case less
  show ?case
  proof (cases "1 < length bs")
    case False
    then have "rev bs = bs" by (cases bs) auto
    then show ?thesis using False by (subst SwapEndian_n_loop.simps) simp
  next
    case True
    then obtain x y ms where bs: "bs = x # ms @ [y]"
      by (cases bs; cases "tl bs" rule: rev_cases) auto
    have "SwapEndian_n_loop (length as) (length bs) (as @ bs @ cs) =
        SwapEndian_n_loop (length (as @ [y])) (length ms) ((as @ [y]) @ ms @ (x # cs))"
      using True by (subst SwapEndian_n_loop.simps)
        (simp add: bs Let_def nth_append list_update_append)
    also have "\<dots> = (as @ [y]) @ rev ms @ (x # cs)" by (rule less) (simp add: bs)
    finally show ?thesis by (simp add: bs)
  qed
qed

lemma SWAPENDIAN_16_eq: "SWAPENDIAN_16 x = SwapEndian_16 x"
proof (rule bit_word_eqI)
  fix n
  assume "n < LENGTH(16)"
  have m: "(0xFF00 :: u16) = push_bit 8 (mask 8)" "(0xFF :: u16) = mask 8"
    by (simp_all add: mask_eq_exp_minus_1)
  show "bit (SWAPENDIAN_16 x) n = bit (SwapEndian_16 x) n"
    unfolding SWAPENDIAN_16_def SwapEndian_16_eq join16_def lo8_def hi8_def m
    using \<open>n < LENGTH(16)\<close> by (auto simp: byte_bits bit_simps)
qed

lemma SWAPENDIAN_32_eq: "SWAPENDIAN_32 x = SwapEndian_32 x"
proof (rule bit_word_eqI)
  fix n
  assume n: "n < LENGTH(32)"
  have m: "(0xFF000000 :: u32) = push_bit 24 (mask 8)" "(0xFF0000 :: u32) = push_bit 16 (mask 8)"
    "(0xFF00 :: u32) = push_bit 8 (mask 8)" "(0xFF :: u32) = mask 8"
    by (simp_all add: mask_eq_exp_minus_1)
  consider "n < 8" | "8 \<le> n" "n < 16" | "16 \<le> n" "n < 24" | "24 \<le> n" "n < 32" using n by fastforce
  then show "bit (SWAPENDIAN_32 x) n = bit (SwapEndian_32 x) n"
    unfolding SWAPENDIAN_32_def SwapEndian_32_eq join32_def byte32_def m
    by cases (auto simp: byte_bits bit_simps)
qed

lemma SwapEndian_n_rev: "length d < 256 \<Longrightarrow> SwapEndian_n d (of_nat (length d)) = rev d"
  using SwapEndian_n_loop_rev [of "[]" d "[]"] by (simp add: SwapEndian_n_def unat_of_nat_u8)

text \<open>The three run-time byte swaps reverse the byte order: the 16-bit and 32-bit swap agree with
  the compile-time macros and are their own inverse, and \<^verbatim>\<open>SwapEndian_n\<close> on a buffer of up to 255
  bytes is list reversal, so on the bytes of a 16-bit value it agrees with \<^verbatim>\<open>SwapEndian_16\<close>.\<close>

theorem SwapEndian_correct:
  "SwapEndian_16 x = SWAPENDIAN_16 x \<and> SwapEndian_16 (SwapEndian_16 x) = x \<and>
   SwapEndian_32 y = SWAPENDIAN_32 y \<and> SwapEndian_32 (SwapEndian_32 y) = y \<and>
   SwapEndian_n (le16 x) 2 = le16 (SwapEndian_16 x) \<and>
   (length d < 256 \<longrightarrow> SwapEndian_n d (of_nat (length d)) = rev d)"
  using SwapEndian_n_rev [of "le16 x"] SwapEndian_n_rev [of d]
  by (simp add: SWAPENDIAN_16_eq SWAPENDIAN_32_eq)
    (simp add: SwapEndian_16_eq SwapEndian_32_eq le16_def join32_bytes del: One_nat_def)

theorem SwapEndian_correct_witness:
  "SwapEndian_n [1, 2, 3] (of_nat (length [1, 2, 3 :: u8])) = [3, 2, 1] \<and> SwapEndian_16 0x1234 = 0x3412"
  using SwapEndian_correct [of "0x1234" 0 "[1, 2, 3]"] by (simp add: SWAPENDIAN_16_def)

lemma less_8_cases: "(n :: nat) < 8 \<Longrightarrow> n = 0 \<or> n = 1 \<or> n = 2 \<or> n = 3 \<or> n = 4 \<or> n = 5 \<or> n = 6 \<or> n = 7"
  by arith

lemma bit_swap_groups:
  "bit (drop_bit k (x AND m) OR push_bit k (x AND m') :: u8) n \<longleftrightarrow>
     bit x (k + n) \<and> bit m (k + n) \<or> k \<le> n \<and> n < 8 \<and> bit x (n - k) \<and> bit m' (n - k)"
  by (auto simp: bit_simps)

lemma bit_BitReverse: "n < 8 \<Longrightarrow> bit (BitReverse x) n = bit x (7 - n)"
  by (drule less_8_cases) (elim disjE; simp only: BitReverse_def Let_def bit_swap_groups; simp)

text \<open>\<^verbatim>\<open>BitReverse\<close> moves bit \<open>n\<close> of a byte to bit \<open>7 - n\<close>, and applying it twice gives the byte back.\<close>

theorem BitReverse_correct:
  "(n < 8 \<longrightarrow> bit (BitReverse x) n = bit x (7 - n)) \<and> BitReverse (BitReverse x) = x"
  by (auto simp: bit_BitReverse intro: bit_word_eqI)

theorem BitReverse_correct_witness: "bit (BitReverse 1) 7 \<and> BitReverse (BitReverse 0xB0) = 0xB0"
  using BitReverse_correct [of 7 1] BitReverse_correct [of 7 "0xB0"] by simp

end
