(* ===== verification/BootloaderHID.thy ===== *)
theory BootloaderHID
  imports Joystick USBController
begin

text \<open>
  The device side of the HID boot loader (\<^verbatim>\<open>Bootloaders/HID/BootloaderHID.c\<close>) on the endpoint layer of the other theories.
  The chip is a parameter: the last address of its flash memory, the first address of the boot section and the size of a page. The
  macros of the C library that drive the flash controller (\<^verbatim>\<open>boot_page_erase\<close> and the others) are recorded in the state,
  in order; what the flash memory makes of them is not part of the program.
\<close>

subsection \<open>State\<close>

datatype spm_op = Page_Erase nat | Page_Fill nat u16 | Page_Write nat | Busy_Wait | RWW_Enable

record boot_target =
  FLASHEND :: nat
  BOOT_START_ADDR :: nat
  SPM_PAGESIZE :: nat

record bootloader = usb +
  RunBootloader :: bool
  MagicBootKey :: u16
  spm :: "spm_op list"

definition COMMAND_STARTAPPLICATION :: u16 where "COMMAND_STARTAPPLICATION = 0xFFFF"
definition MAGIC_BOOT_KEY :: u16 where "MAGIC_BOOT_KEY = 0xDC42"
definition CONTROL_REQTYPE_TYPE :: u8 where "CONTROL_REQTYPE_TYPE = 0x60"
definition HID_IN_EPADDR :: u8 where "HID_IN_EPADDR = ENDPOINT_DIR_IN OR 1"
definition HID_IN_EPSIZE :: u16 where "HID_IN_EPSIZE = 64"

subsection \<open>Descriptors\<close>

text \<open>\<^verbatim>\<open>Bootloaders/HID/Descriptors.c\<close>. The control endpoint has 8 bytes, and the report has room for an address and a page.\<close>

definition FIXED_CONTROL_ENDPOINT_SIZE_boot :: u8 where "FIXED_CONTROL_ENDPOINT_SIZE_boot = 8"
definition INTERFACE_ID_GenericHID :: u8 where "INTERFACE_ID_GenericHID = 0"

definition HIDReport_boot :: "boot_target \<Rightarrow> u8 list" where
  "HIDReport_boot c =
     HID_RI_USAGE_PAGE 16 0xFFDC @
     HID_RI_USAGE 8 0xFB @
     HID_RI_COLLECTION 8 1 @
     HID_RI_USAGE 8 2 @
     HID_RI_LOGICAL_MINIMUM 8 0 @
     HID_RI_LOGICAL_MAXIMUM 8 0xFF @
     HID_RI_REPORT_SIZE 8 8 @
     HID_RI_REPORT_COUNT 16 (of_nat (2 + SPM_PAGESIZE c)) @
     HID_RI_OUTPUT 8 2 @
     HID_RI_END_COLLECTION 0 0"

definition DeviceDescriptor_boot :: USB_Descriptor_Device_t where
  "DeviceDescriptor_boot =
     \<lparr>Dev_Header = \<lparr>Size = 18, Type = DTYPE_Device\<rparr>,
      USBSpecification = VERSION_BCD 1 1 0,
      Dev_Class = 0, Dev_SubClass = 0, Dev_Protocol = 0,
      Endpoint0Size = FIXED_CONTROL_ENDPOINT_SIZE_boot,
      VendorID = 0x03EB, ProductID = 0x2067, ReleaseNumber = VERSION_BCD 0 0 1,
      ManufacturerStrIndex = NO_DESCRIPTOR, ProductStrIndex = NO_DESCRIPTOR,
      SerialNumStrIndex = NO_DESCRIPTOR, NumberOfConfigurations = FIXED_NUM_CONFIGURATIONS\<rparr>"

record USB_Descriptor_Configuration_boot =
  Config_boot :: USB_Descriptor_Configuration_Header_t
  HID_Interface_boot :: USB_Descriptor_Interface_t
  HID_VendorHID :: USB_HID_Descriptor_HID_t
  HID_ReportINEndpoint_boot :: USB_Descriptor_Endpoint_t

definition bytes_of_Configuration_boot :: "USB_Descriptor_Configuration_boot \<Rightarrow> u8 list" where
  "bytes_of_Configuration_boot d = bytes_of_Configuration_Header (Config_boot d) @ bytes_of_Interface (HID_Interface_boot d) @
     bytes_of_HID (HID_VendorHID d) @ bytes_of_Endpoint (HID_ReportINEndpoint_boot d)"

definition ConfigurationDescriptor_boot :: "boot_target \<Rightarrow> USB_Descriptor_Configuration_boot" where
  "ConfigurationDescriptor_boot c =
     \<lparr>Config_boot =
        \<lparr>Cfg_Header = \<lparr>Size = 9, Type = DTYPE_Configuration\<rparr>,
         TotalConfigurationSize = 9 + 9 + 9 + 7, TotalInterfaces = 1,
         ConfigurationNumber = 1, ConfigurationStrIndex = NO_DESCRIPTOR,
         ConfigAttributes = 0x80, MaxPowerConsumption = USB_CONFIG_POWER_MA 100\<rparr>,
      HID_Interface_boot =
        \<lparr>If_Header = \<lparr>Size = 9, Type = DTYPE_Interface\<rparr>,
         InterfaceNumber = INTERFACE_ID_GenericHID, AlternateSetting = 0, TotalEndpoints = 1,
         If_Class = 3, If_SubClass = 0, If_Protocol = 0, InterfaceStrIndex = NO_DESCRIPTOR\<rparr>,
      HID_VendorHID =
        \<lparr>Hid_Header = \<lparr>Size = 9, Type = DTYPE_HID\<rparr>,
         HIDSpec = VERSION_BCD 1 1 1, CountryCode = 0, TotalReportDescriptors = 1,
         HIDReportType = DTYPE_Report, HIDReportLength = of_nat (length (HIDReport_boot c))\<rparr>,
      HID_ReportINEndpoint_boot =
        \<lparr>Ep_Header = \<lparr>Size = 7, Type = DTYPE_Endpoint\<rparr>,
         EndpointAddress = HID_IN_EPADDR, Attributes = EP_TYPE_INTERRUPT OR 0 OR 0,
         EndpointSize = HID_IN_EPSIZE, PollingIntervalMS = 5\<rparr>\<rparr>"

text \<open>The callback; the address of an object in RAM is given by the bytes from there on.\<close>

definition CALLBACK_USB_GetDescriptor_boot :: "boot_target \<Rightarrow> u16 \<Rightarrow> u16 \<Rightarrow> u16 \<times> u8 list option" where
  "CALLBACK_USB_GetDescriptor_boot c v i =
     (let DescriptorType = hi8 v in
      if DescriptorType = DTYPE_Device then (18, Some (bytes_of_Device DeviceDescriptor_boot))
      else if DescriptorType = DTYPE_Configuration then (9 + 9 + 9 + 7, Some (bytes_of_Configuration_boot (ConfigurationDescriptor_boot c)))
      else if DescriptorType = DTYPE_HID then (9, Some (drop (9 + 9) (bytes_of_Configuration_boot (ConfigurationDescriptor_boot c))))
      else if DescriptorType = DTYPE_Report then (of_nat (length (HIDReport_boot c)), Some (HIDReport_boot c))
      else (ucast NO_DESCRIPTOR, None))"

subsection \<open>Events\<close>

definition boot_spm :: "spm_op list \<Rightarrow> bootloader \<Rightarrow> bootloader" where
  "boot_spm ops s = s\<lparr>spm := spm s @ ops\<rparr>"

definition EVENT_USB_Device_ConfigurationChanged_boot :: "world \<Rightarrow> bootloader \<Rightarrow> bootloader option" where
  "EVENT_USB_Device_ConfigurationChanged_boot w s =
     do { (_, s) \<leftarrow> Endpoint_ConfigureEndpoint_ordered w HID_IN_EPADDR EP_TYPE_INTERRUPT HID_IN_EPSIZE 1 s; Some s }"

text \<open>\<^verbatim>\<open>while (!(Endpoint_IsOUTReceived()));\<close>\<close>

definition spin_OUTReceived :: "world \<Rightarrow> 'a usb_scheme \<Rightarrow> 'a usb_scheme option" where
  "spin_OUTReceived w = iterate (\<lambda>s. let (b, s) = Endpoint_IsOUTReceived w s in Some (if b then Inl s else Inr s))"

text \<open>The address of the page, a 32-bit variable if the flash memory is larger than 64 KB and a 16-bit variable otherwise, and the
  address of a word in it.\<close>

definition page_address :: "boot_target \<Rightarrow> u16 \<Rightarrow> nat" where
  "page_address c v = (if FLASHEND c > 0xFFFF then unat v * 256 else unat v)"

definition fill_address :: "boot_target \<Rightarrow> nat \<Rightarrow> u8 \<Rightarrow> nat" where
  "fill_address c PageAddress PageWord =
     (PageAddress + 2 * unat PageWord) mod (if FLASHEND c > 0xFFFF then 2 ^ 32 else 2 ^ 16)"

text \<open>The loop that fills the page buffer.\<close>

definition fill_turn :: "boot_target \<Rightarrow> world \<Rightarrow> nat \<Rightarrow> u8 \<times> bootloader \<Rightarrow> (bootloader + u8 \<times> bootloader) option" where
  "fill_turn c w PageAddress = (\<lambda>(PageWord, s).
     if unat PageWord < SPM_PAGESIZE c div 2 then
       let (n, s) = Endpoint_BytesInEndpoint w s in
       do {
         s \<leftarrow> (if n = 0 then spin_OUTReceived w (Endpoint_ClearOUT w s) else Some s);
         let (v, s) = Endpoint_Read_16_LE w s;
         Some (Inr (PageWord + 1, boot_spm [Page_Fill (fill_address c PageAddress PageWord) v] s))
       }
     else Some (Inl s))"

definition fill_loop :: "boot_target \<Rightarrow> world \<Rightarrow> nat \<Rightarrow> u8 \<times> bootloader \<Rightarrow> bootloader option" where
  "fill_loop c w PageAddress = iterate (fill_turn c w PageAddress)"

definition is_SetReport :: "'a usb_scheme \<Rightarrow> bool" where
  "is_SetReport s \<longleftrightarrow> bmRequestType (USB_ControlRequest s) AND (CONTROL_REQTYPE_TYPE OR CONTROL_REQTYPE_RECIPIENT) = REQTYPE_CLASS OR REQREC_INTERFACE \<and>
     bRequest (USB_ControlRequest s) = HID_REQ_SetReport"

definition EVENT_USB_Device_ControlRequest_boot :: "boot_target \<Rightarrow> world \<Rightarrow> bootloader \<Rightarrow> bootloader option" where
  "EVENT_USB_Device_ControlRequest_boot c w s =
     (if bmRequestType (USB_ControlRequest s) AND (CONTROL_REQTYPE_TYPE OR CONTROL_REQTYPE_RECIPIENT) \<noteq> REQTYPE_CLASS OR REQREC_INTERFACE
      then Some s
      else if bRequest (USB_ControlRequest s) = HID_REQ_SetReport then
        do {
          s \<leftarrow> spin_OUTReceived w (Endpoint_ClearSETUP w s);
          let (v, s) = Endpoint_Read_16_LE w s;
          let PageAddress = page_address c v;
          s \<leftarrow> (if v = COMMAND_STARTAPPLICATION then Some (s\<lparr>RunBootloader := False\<rparr>)
                else if PageAddress < BOOT_START_ADDR c then
                  do {
                    s \<leftarrow> fill_loop c w PageAddress (0, boot_spm [Page_Erase PageAddress, Busy_Wait] s);
                    Some (boot_spm [Page_Write PageAddress, Busy_Wait, RWW_Enable] s)
                  }
                else Some s);
          Endpoint_ClearStatusStage w (Endpoint_ClearOUT w s)
        }
      else Some s)"

subsection \<open>Start and end of the boot loader\<close>

text \<open>The functions of the C library that drive the watchdog are parameters.\<close>

record boot_libc =
  boot_wdt_disable :: "bootloader \<Rightarrow> bootloader"
  boot_wdt_enable :: "bootloader \<Rightarrow> bootloader"

text \<open>The result says whether the function jumps to the application.\<close>

definition Application_Jump_Check :: "boot_libc \<Rightarrow> world \<Rightarrow> bootloader \<Rightarrow> bool \<times> bootloader" where
  "Application_Jump_Check lib w s =
     (let (wdrf, s) = test_mask w MCUSR (bv 3) s in
      if wdrf \<and> MagicBootKey s = MAGIC_BOOT_KEY then
        let s = clear_mask w MCUSR (bv 3) s;
            s = boot_wdt_disable lib s
        in (True, s\<lparr>MagicBootKey := 0\<rparr>)
      else (False, s))"

text \<open>The loop of \<^verbatim>\<open>main\<close> and what follows it; \<open>task\<close> is the management task of the library in the configuration of the boot loader.\<close>

definition boot_loop :: "(world \<Rightarrow> bootloader \<Rightarrow> bootloader option) \<Rightarrow> boot_libc \<Rightarrow> world \<Rightarrow> bootloader \<Rightarrow> bootloader option" where
  "boot_loop task lib w s =
     do {
       s \<leftarrow> iterate (\<lambda>s. if RunBootloader s then do { s \<leftarrow> task w s; Some (Inr s) } else Some (Inl s)) s;
       let s = USB_Detach w s;
       Some (boot_wdt_enable lib (s\<lparr>MagicBootKey := MAGIC_BOOT_KEY\<rparr>))
     }"

text \<open>The configuration handler sets up one interrupt endpoint of 64 bytes for input.\<close>

lemma ConfigurationChanged_boot_writes:
  "\<exists>t. EVENT_USB_Device_ConfigurationChanged_boot w s = Some (s\<lparr>io := io s @ t\<rparr>) \<and>
     writes UENUM t = [1] \<and> writes UECFG0X t = [0xC1] \<and> writes UECFG1X t = [0, 0x32]"
proof -
  have "HID_IN_EPADDR AND ENDPOINT_EPNUM_MASK = 1" "has HID_IN_EPADDR ENDPOINT_DIR_IN"
    by (simp_all add: HID_IN_EPADDR_def ENDPOINT_DIR_IN_def ENDPOINT_EPNUM_MASK_def has_def)
  then show ?thesis
    by (auto simp: EVENT_USB_Device_ConfigurationChanged_boot_def Endpoint_ConfigureEndpoint_ordered_def Endpoint_ConfigureEndpoint_Prv_ordered_def HID_IN_EPSIZE_def
        EPSizeMask_64 ENDPOINT_TOTAL_ENDPOINTS_def ENDPOINT_EPNUM_MASK_def bv_def ep_defs ep_io Let_def intro!: exI [of _ "_ # _"])
qed

subsection \<open>The descriptors\<close>

lemma HIDReport_boot_bytes:
  "HIDReport_boot c = [0x06, 0xDC, 0xFF, 0x09, 0xFB, 0xA1, 1, 0x09, 2, 0x15, 0, 0x25, 0xFF, 0x75, 8, 0x96,
     byte32 0 (of_nat (2 + SPM_PAGESIZE c)), byte32 1 (of_nat (2 + SPM_PAGESIZE c)), 0x91, 2, 0xC0]"
  by (simp add: HIDReport_boot_def hid_ri_defs hid_ri_type_defs HID_RI_ENTRY_def HID_RI_ENCODE_def HID_RI_DATA_BITS_def byte32_def)

lemma ConfigurationDescriptor_boot_bytes:
  "bytes_of_Configuration_boot (ConfigurationDescriptor_boot c) =
     [9, 2, 34, 0, 1, 1, 0, 0x80, 50,
      9, 4, 0, 0, 1, 3, 0, 0, 0,
      9, 0x21, 0x11, 0x01, 0, 1, 0x22, 21, 0,
      7, 5, 0x81, 3, 64, 0, 5]"
  by (simp add: bytes_of_Configuration_boot_def ConfigurationDescriptor_boot_def bytes_of_defs le16_def lo8_def hi8_def dtype_defs ep_defs
      VERSION_BCD_def USB_CONFIG_POWER_MA_def HIDReport_boot_bytes INTERFACE_ID_GenericHID_def HID_IN_EPADDR_def HID_IN_EPSIZE_def)

lemma DeviceDescriptor_boot_bytes:
  "bytes_of_Device DeviceDescriptor_boot = [18, 1, 0x10, 0x01, 0, 0, 0, 8, 0xEB, 0x03, 0x67, 0x20, 0x01, 0x00, 0, 0, 0, 1]"
  by (simp add: DeviceDescriptor_boot_def bytes_of_defs le16_def lo8_def hi8_def dtype_defs ep_defs VERSION_BCD_def FIXED_CONTROL_ENDPOINT_SIZE_boot_def)

text \<open>Every descriptor has the length the callback says, and names its type and length itself; the report descriptor announces one
  report of the length of an address and a page.\<close>

lemma GetDescriptor_boot_sound:
  assumes "CALLBACK_USB_GetDescriptor_boot c v i = (sz, p)"
  shows "case p of None \<Rightarrow> sz = 0
    | Some bs \<Rightarrow> unat sz \<le> length bs \<and> (hi8 v \<noteq> DTYPE_Report \<longrightarrow> bs ! 1 = hi8 v \<and>
        sz = (if hi8 v = DTYPE_Configuration then join16 (bs ! 3) (bs ! 2) else ucast (bs ! 0)))"
  using assms
  by (auto simp: CALLBACK_USB_GetDescriptor_boot_def Let_def dtype_defs ep_defs DeviceDescriptor_boot_bytes ConfigurationDescriptor_boot_bytes
      HIDReport_boot_bytes join16_def split: if_splits)

lemma report_count_boot:
  assumes "SPM_PAGESIZE c \<le> 256"
  shows "unat (join16 (HIDReport_boot c ! 17) (HIDReport_boot c ! 16)) = 2 + SPM_PAGESIZE c"
proof -
  define x :: u32 where "x = of_nat (2 + SPM_PAGESIZE c)"
  have x: "unat x = 2 + SPM_PAGESIZE c" using assms unfolding x_def by (subst unat_of_nat) simp
  have "unat (byte32 0 x) = unat x mod 256" "unat (byte32 1 x) = unat x div 256 mod 256"
    by (simp_all add: byte32_def unsigned_ucast_eq take_bit_eq_mod drop_bit_eq_div unat_div)
  moreover have "HIDReport_boot c ! 17 = byte32 1 x" "HIDReport_boot c ! 16 = byte32 0 x"
    unfolding HIDReport_boot_bytes x_def by simp_all
  moreover have "unat x div 256 < 256" using x assms by simp
  ultimately show ?thesis by (simp add: unat_join16 x)
qed

subsection \<open>What the handler does\<close>

text \<open>A trace agrees with a world if every read returned what the world says.\<close>

fun agrees :: "world \<Rightarrow> history \<Rightarrow> history \<Rightarrow> bool" where
  "agrees w h [] \<longleftrightarrow> True"
| "agrees w h (Rd r v # t) \<longleftrightarrow> v = dev w h r \<and> agrees w (h @ [Rd r v]) t"
| "agrees w h (Wr r v # t) \<longleftrightarrow> agrees w (h @ [Wr r v]) t"

lemma agrees_append: "agrees w h (t @ t') \<longleftrightarrow> agrees w h t \<and> agrees w (h @ t) t'"
  by (induction w h t rule: agrees.induct) auto

text \<open>\<open>served w bs ops s s'\<close>: from \<open>s\<close> to \<open>s'\<close> the bytes \<open>bs\<close> came out of the data register, the flash controller got the operations \<open>ops\<close>,
  and no variable of the boot loader changed.\<close>

definition served :: "world \<Rightarrow> u8 list \<Rightarrow> spm_op list \<Rightarrow> bootloader \<Rightarrow> bootloader \<Rightarrow> bool" where
  "served w bs ops s s' \<longleftrightarrow> (\<exists>t st. s' = s\<lparr>io := io s @ t, USB_DeviceState := st, spm := spm s @ ops\<rparr> \<and> reads UEDATX t = bs \<and> agrees w (io s) t)"

named_theorems serving \<open>what the operations of the boot loader read and program\<close>

lemma served_refl: "served w [] [] s s"
  unfolding served_def by (intro exI [of _ "[]"] exI [of _ "USB_DeviceState s"]) simp

lemma served_trans:
  assumes "served w bs ops s s'" and "served w bs' ops' s' s''"
  shows "served w (bs @ bs') (ops @ ops') s s''"
proof -
  obtain t st where t: "s' = s\<lparr>io := io s @ t, USB_DeviceState := st, spm := spm s @ ops\<rparr>" "reads UEDATX t = bs" "agrees w (io s) t"
    using assms(1) unfolding served_def by blast
  obtain t' st' where t': "s'' = s'\<lparr>io := io s' @ t', USB_DeviceState := st', spm := spm s' @ ops'\<rparr>" "reads UEDATX t' = bs'" "agrees w (io s') t'"
    using assms(2) unfolding served_def by blast
  show ?thesis unfolding served_def
  proof (intro exI conjI)
    show "s'' = s\<lparr>io := io s @ (t @ t'), USB_DeviceState := st', spm := spm s @ ops @ ops'\<rparr>" unfolding t'(1) t(1) by simp
    show "reads UEDATX (t @ t') = bs @ bs'" using t(2) t'(2) by simp
    show "agrees w (io s) (t @ t')" using t t'(3) by (simp add: agrees_append)
  qed
qed

lemma served_quiet: "served w [] [] s s' \<Longrightarrow> served w bs ops s' s'' \<Longrightarrow> served w bs ops s s''"
  using served_trans [of w "[]" "[]" s s' bs ops s''] by simp

lemma served_io: "reads UEDATX t = bs \<Longrightarrow> agrees w (io s) t \<Longrightarrow> served w bs [] s (s\<lparr>io := io s @ t\<rparr>)"
  unfolding served_def by (intro exI [of _ t] exI [of _ "USB_DeviceState s"]) simp

lemma served_spm [serving]: "served w [] ops s (boot_spm ops s)"
  unfolding served_def boot_spm_def by (intro exI [of _ "[]"] exI [of _ "USB_DeviceState s"]) simp

lemma served_state [serving]: "get_DeviceState w s = (st, s') \<Longrightarrow> served w [] [] s s'"
  unfolding served_def by (intro exI [of _ "[]"] exI [of _ st]) (auto simp: get_DeviceState_eq)

lemma served_ops [serving]:
  "served w [] [] s (Endpoint_ClearSETUP w s)" "served w [] [] s (Endpoint_ClearOUT w s)" "served w [] [] s (Endpoint_ClearIN w s)"
  "Endpoint_IsOUTReceived w s = (b, s') \<Longrightarrow> served w [] [] s s'" "Endpoint_IsINReady w s = (b, s') \<Longrightarrow> served w [] [] s s'"
  "Endpoint_BytesInEndpoint w s = (n, s') \<Longrightarrow> served w [] [] s s'"
  by (auto simp: ep_io intro!: served_io)

lemma served_Read_16:
  assumes "Endpoint_Read_16_LE w s = (v, s')"
  shows "\<exists>b0 b1. v = join16 b1 b0 \<and> served w [b0, b1] [] s s'"
  using assms by (auto simp: Endpoint_Read_16_LE_def io_simps Let_def intro!: exI served_io)

lemma served_iterate:
  assumes "iterate turn s = Some r" and "\<And>s r. turn s = Some (Inl r) \<Longrightarrow> served w [] [] s (f r)" and "\<And>s s'. turn s = Some (Inr s') \<Longrightarrow> served w [] [] s s'"
  shows "served w [] [] s (f r)"
  using assms(1)
proof (induction rule: iterate_induct)
  case (stop s r)
  then show ?case by (rule assms(2))
next
  case (go s s' r)
  then show ?case using assms(3) served_quiet by blast
qed

lemma served_spin [serving]: "spin_OUTReceived w s = Some s' \<Longrightarrow> served w [] [] s s'"
  unfolding spin_OUTReceived_def
  by (rule served_iterate [where f = id, simplified]) (auto split: prod.splits if_splits intro: serving)

lemma served_poll:
  assumes "(let (b, s) = poll s in if b then Some (Inl (True, s)) else let (st, s) = get_DeviceState w s in
      Some (if st = DEVICE_STATE_Unattached then Inl (False, s) else Inr s)) = Some r"
    and "\<And>b s'. poll s = (b, s') \<Longrightarrow> served w [] [] s s'"
  shows "served w [] [] s (case r of Inl (b, s') \<Rightarrow> s' | Inr s' \<Rightarrow> s')"
proof -
  obtain b s1 where s1: "poll s = (b, s1)" by fastforce
  obtain st s2 where s2: "get_DeviceState w s1 = (st, s2)" by fastforce
  show ?thesis using assms(1) assms(2) [OF s1] served_quiet [OF assms(2) [OF s1] served_state [OF s2]]
    by (auto simp: s1 s2 split: if_splits)
qed

lemma served_wait:
  assumes "iterate (\<lambda>s. let (b, s) = poll s in if b then Some (Inl (True, s)) else let (st, s) = get_DeviceState w s in
      Some (if st = DEVICE_STATE_Unattached then Inl (False, s) else Inr s)) s = Some r"
    and "\<And>s b s'. poll s = (b, s') \<Longrightarrow> served w [] [] s s'"
  shows "served w [] [] s (snd r)"
  using assms(1)
proof (rule served_iterate)
  show "served w [] [] s (snd r)" if "(let (b, s) = poll s in if b then Some (Inl (True, s)) else let (st, s) = get_DeviceState w s in
      Some (if st = DEVICE_STATE_Unattached then Inl (False, s) else Inr s)) = Some (Inl r)" for s r
    using served_poll [where poll = poll and s = s and w = w, OF that assms(2)] by (cases r) simp
  show "served w [] [] s s'" if "(let (b, s) = poll s in if b then Some (Inl (True, s)) else let (st, s) = get_DeviceState w s in
      Some (if st = DEVICE_STATE_Unattached then Inl (False, s) else Inr s)) = Some (Inr s')" for s s'
    using served_poll [where poll = poll and s = s and w = w, OF that assms(2)] by simp
qed

lemma served_waits:
  "wait_OUT_or_unattached w s = Some (b, s') \<Longrightarrow> served w [] [] s s'"
  "wait_IN_or_unattached w s = Some (b, s') \<Longrightarrow> served w [] [] s s'"
  using served_wait [of "Endpoint_IsOUTReceived w" w s "(b, s')"] served_wait [of "Endpoint_IsINReady w" w s "(b, s')"]
  by (auto simp: wait_OUT_or_unattached_def wait_IN_or_unattached_def served_ops(4,5))

lemma served_ClearStatusStage [serving]: "Endpoint_ClearStatusStage w s = Some s' \<Longrightarrow> served w [] [] s s'"
  by (auto simp: Endpoint_ClearStatusStage_def split: if_splits bind_splits dest!: served_waits intro: served_quiet [OF _ served_ops(2)] served_quiet [OF _ served_ops(3)])

text \<open>The words of a page as operations, from word \<open>k\<close> on.\<close>

fun fill_ops :: "boot_target \<Rightarrow> nat \<Rightarrow> u8 \<Rightarrow> u8 list \<Rightarrow> spm_op list" where
  "fill_ops c a k (b0 # b1 # bs) = Page_Fill (fill_address c a k) (join16 b1 b0) # fill_ops c a (k + 1) bs"
| "fill_ops c a k _ = []"

lemma length_fill_ops: "length (fill_ops c a k bs) = length bs div 2"
  by (induction c a k bs rule: fill_ops.induct) auto

lemma fill_turn_serves:
  assumes "fill_turn c w a (k, s) = Some r"
  obtains (stop) "unat k \<ge> SPM_PAGESIZE c div 2" "r = Inl s"
    | (go) b0 b1 s' where "unat k < SPM_PAGESIZE c div 2" "r = Inr (k + 1, s')" "served w [b0, b1] [Page_Fill (fill_address c a k) (join16 b1 b0)] s s'"
proof (cases "unat k < SPM_PAGESIZE c div 2")
  case True
  obtain n s1 where s1: "Endpoint_BytesInEndpoint w s = (n, s1)" by fastforce
  obtain s2 where s2: "(if n = 0 then spin_OUTReceived w (Endpoint_ClearOUT w s1) else Some s1) = Some s2"
    using assms True by (auto simp: fill_turn_def s1 split: bind_splits if_splits)
  obtain v s3 where s3: "Endpoint_Read_16_LE w s2 = (v, s3)" by fastforce
  obtain b0 b1 where b: "v = join16 b1 b0" "served w [b0, b1] [] s2 s3" using served_Read_16 [OF s3] by blast
  have "served w [] [] s1 s2" using s2 by (auto split: if_splits intro: serving served_quiet served_refl)
  then have "served w [b0, b1] [] s s3" using served_ops(6) [OF s1] b(2) served_quiet by blast
  from served_trans [OF this served_spm] have "served w [b0, b1] [Page_Fill (fill_address c a k) v] s (boot_spm [Page_Fill (fill_address c a k) v] s3)"
    by simp
  moreover have "r = Inr (k + 1, boot_spm [Page_Fill (fill_address c a k) v] s3)" using assms True s2 by (simp add: fill_turn_def s1 s3)
  ultimately show thesis using go True b(1) by blast
next
  case False
  then show thesis using assms stop by (simp add: fill_turn_def)
qed

lemma fill_loop_serves:
  assumes "fill_loop c w a (k, s) = Some s'" and "SPM_PAGESIZE c div 2 < 256" and "unat k \<le> SPM_PAGESIZE c div 2"
  shows "\<exists>bs. served w bs (fill_ops c a k bs) s s' \<and> length bs = 2 * (SPM_PAGESIZE c div 2 - unat k)"
proof -
  have "unat (fst x) \<le> SPM_PAGESIZE c div 2 \<longrightarrow>
      (\<exists>bs. served w bs (fill_ops c a (fst x) bs) (snd x) s' \<and> length bs = 2 * (SPM_PAGESIZE c div 2 - unat (fst x)))"
    if "iterate (fill_turn c w a) x = Some s'" for x
    using that
  proof (induction rule: iterate_induct)
    case (stop x s')
    obtain k s where x: "x = (k, s)" by (cases x)
    have "fill_turn c w a (k, s) = Some (Inl s')" using stop x by simp
    then show ?case by (cases rule: fill_turn_serves) (auto simp: x intro!: exI [of _ "[]"] served_refl)
  next
    case (go x x' s')
    obtain k s where x: "x = (k, s)" by (cases x)
    have "fill_turn c w a (k, s) = Some (Inr x')" using go(1) x by simp
    then show ?case
    proof (cases rule: fill_turn_serves)
      case (go b0 b1 s1)
      have k: "unat (k + 1) = Suc (unat k)" using go(1) assms(2) by (subst unat_word_ariths) simp
      obtain bs where bs: "served w bs (fill_ops c a (k + 1) bs) s1 s'" "length bs = 2 * (SPM_PAGESIZE c div 2 - unat (k + 1))"
        using \<open>unat (fst x') \<le> _ \<longrightarrow> _\<close> go k by auto
      show ?thesis using served_trans [OF go(3) bs(1)] bs(2) k go(1) by (intro impI exI [of _ "b0 # b1 # bs"]) (simp add: x)
    qed simp
  qed
  from this [OF assms(1) [unfolded fill_loop_def]] assms(3) show ?thesis by simp
qed

text \<open>The operations a report stands for.\<close>

definition report_page :: "u8 list \<Rightarrow> u16" where
  "report_page bs = join16 (bs ! 1) (bs ! 0)"

definition report_ops :: "boot_target \<Rightarrow> u8 list \<Rightarrow> spm_op list" where
  "report_ops c bs =
     (let a = page_address c (report_page bs) in
      if report_page bs = COMMAND_STARTAPPLICATION \<or> a \<ge> BOOT_START_ADDR c then []
      else [Page_Erase a, Busy_Wait] @ fill_ops c a 0 (drop 2 bs) @ [Page_Write a, Busy_Wait, RWW_Enable])"

lemma served_Run: "served w bs ops s s' \<Longrightarrow> served w bs ops (s\<lparr>RunBootloader := b\<rparr>) (s'\<lparr>RunBootloader := b\<rparr>)"
proof -
  assume "served w bs ops s s'"
  then obtain t st where "s' = s\<lparr>io := io s @ t, USB_DeviceState := st, spm := spm s @ ops\<rparr>" "reads UEDATX t = bs" "agrees w (io s) t"
    unfolding served_def by blast
  then show ?thesis unfolding served_def by (intro exI [of _ t] exI [of _ st]) simp
qed

lemma SetReport_serves:
  assumes "EVENT_USB_Device_ControlRequest_boot c w s = Some s'" and "is_SetReport s" and "SPM_PAGESIZE c div 2 < 256"
  shows "\<exists>bs. served w bs (report_ops c bs) (s\<lparr>RunBootloader := RunBootloader s \<and> report_page bs \<noteq> COMMAND_STARTAPPLICATION\<rparr>) s' \<and>
    length bs = (if report_ops c bs = [] then 2 else 2 + 2 * (SPM_PAGESIZE c div 2))"
proof -
  obtain s1 where s1: "spin_OUTReceived w (Endpoint_ClearSETUP w s) = Some s1"
    using assms(1,2) by (auto simp: EVENT_USB_Device_ControlRequest_boot_def is_SetReport_def split: bind_splits)
  obtain v s2 where s2: "Endpoint_Read_16_LE w s1 = (v, s2)" by fastforce
  obtain b0 b1 where b: "v = join16 b1 b0" "served w [b0, b1] [] s1 s2" using served_Read_16 [OF s2] by blast
  let ?a = "page_address c v"
  have head: "served w [b0, b1] [] s s2" using served_quiet [OF served_ops(1) served_quiet [OF served_spin [OF s1] b(2)]] .
  obtain s3 where s3: "(if v = COMMAND_STARTAPPLICATION then Some (s2\<lparr>RunBootloader := False\<rparr>)
       else if ?a < BOOT_START_ADDR c then
         do { s \<leftarrow> fill_loop c w ?a (0, boot_spm [Page_Erase ?a, Busy_Wait] s2); Some (boot_spm [Page_Write ?a, Busy_Wait, RWW_Enable] s) }
       else Some s2) = Some s3"
    and s': "Endpoint_ClearStatusStage w (Endpoint_ClearOUT w s3) = Some s'"
    using assms(1,2) s1 s2 by (auto simp: EVENT_USB_Device_ControlRequest_boot_def is_SetReport_def Let_def split: bind_splits)
  have tail: "served w [] [] s3 s'" using served_quiet [OF served_ops(2) served_ClearStatusStage [OF s']] .
  consider (start) "v = COMMAND_STARTAPPLICATION" | (refuse) "v \<noteq> COMMAND_STARTAPPLICATION" "\<not> ?a < BOOT_START_ADDR c"
    | (program) "v \<noteq> COMMAND_STARTAPPLICATION" "?a < BOOT_START_ADDR c" by blast
  then show ?thesis
  proof cases
    case start
    then have "served w [b0, b1] [] (s\<lparr>RunBootloader := False\<rparr>) s'"
      using s3 served_trans [OF served_Run [OF head, of False], of "[]" "[]" s'] tail by simp
    then show ?thesis using start b(1) by (intro exI [of _ "[b0, b1]"]) (simp add: report_ops_def report_page_def Let_def)
  next
    case refuse
    then have "served w [b0, b1] [] s s'" using s3 served_trans [OF head, of "[]" "[]" s'] tail by simp
    then show ?thesis using refuse b(1) by (intro exI [of _ "[b0, b1]"]) (simp add: report_ops_def report_page_def Let_def)
  next
    case program
    obtain s4 where s4: "fill_loop c w ?a (0, boot_spm [Page_Erase ?a, Busy_Wait] s2) = Some s4"
      and s3': "s3 = boot_spm [Page_Write ?a, Busy_Wait, RWW_Enable] s4"
      using s3 program by (auto split: bind_splits)
    obtain bs where bs: "served w bs (fill_ops c ?a 0 bs) (boot_spm [Page_Erase ?a, Busy_Wait] s2) s4" "length bs = 2 * (SPM_PAGESIZE c div 2)"
      using fill_loop_serves [OF s4 assms(3)] by auto
    have "served w [b0, b1] [Page_Erase ?a, Busy_Wait] s (boot_spm [Page_Erase ?a, Busy_Wait] s2)"
      using served_trans [OF head served_spm] by simp
    from served_trans [OF this served_trans [OF bs(1) served_trans [OF served_spm tail [unfolded s3']]]]
    have "served w (b0 # b1 # bs) (report_ops c (b0 # b1 # bs)) s s'"
      using program b(1) by (simp add: report_ops_def report_page_def Let_def)
    moreover have "report_ops c (b0 # b1 # bs) \<noteq> []" using program b(1) by (simp add: report_ops_def report_page_def Let_def)
    ultimately show ?thesis using program b(1) bs(2) by (intro exI [of _ "b0 # b1 # bs"]) (simp add: report_page_def)
  qed
qed

subsection \<open>The handler returns\<close>

lemma spin_ready: "ready w \<Longrightarrow> \<exists>s'. spin_OUTReceived w s = Some s'"
  unfolding spin_OUTReceived_def by (rule exI, rule iterate_stop) (simp add: ready_def ep_io)

lemma fill_loop_ready:
  assumes "ready w" and "SPM_PAGESIZE c div 2 < 256"
  shows "\<exists>s'. fill_loop c w a (k, s) = Some s'"
proof -
  have "\<exists>s'. iterate (fill_turn c w a) (k, s) = Some s' \<and> True"
  proof (rule iterate_returns [where I = "\<lambda>_. True" and R = "measure (\<lambda>x. 256 - unat (fst x))"])
    show "\<exists>y. fill_turn c w a x = Some y" for x
    proof (cases x)
      case (Pair k s)
      obtain n s1 where s1: "Endpoint_BytesInEndpoint w s = (n, s1)" by fastforce
      obtain s2 where s2: "spin_OUTReceived w (Endpoint_ClearOUT w s1) = Some s2" using spin_ready [OF assms(1)] by blast
      show ?thesis using s2 by (auto simp: fill_turn_def Pair s1 split: prod.split)
    qed
    show "True \<and> (x', x) \<in> measure (\<lambda>x. 256 - unat (fst x))" if "fill_turn c w a x = Some (Inr x')" for x x'
    proof (cases x)
      case (Pair k s)
      have "fill_turn c w a (k, s) = Some (Inr x')" using that Pair by simp
      then show ?thesis
      proof (cases rule: fill_turn_serves)
        case (go b0 b1 s1)
        have "unat (k + 1) = Suc (unat k)" using go(1) assms(2) by (subst unat_word_ariths) simp
        then show ?thesis using go(1,2) assms(2) Pair by auto
      qed simp
    qed
  qed auto
  then show ?thesis by (simp add: fill_loop_def)
qed

lemma ControlRequest_ready:
  assumes "ready w" and "SPM_PAGESIZE c div 2 < 256"
  shows "\<exists>s'. EVENT_USB_Device_ControlRequest_boot c w s = Some s'"
proof -
  obtain s1 where s1: "spin_OUTReceived w (Endpoint_ClearSETUP w s) = Some s1" using spin_ready [OF assms(1)] by blast
  obtain v s2 where s2: "Endpoint_Read_16_LE w s1 = (v, s2)" by fastforce
  obtain s3 where s3: "fill_loop c w (page_address c v) (0, boot_spm [Page_Erase (page_address c v), Busy_Wait] s2) = Some s3"
    using fill_loop_ready [OF assms] by blast
  show ?thesis using ClearStatusStage_ready [OF assms(1)]
    by (auto simp: EVENT_USB_Device_ControlRequest_boot_def s1 s2 s3 Let_def)
qed

text \<open>A host that sends the report \<open>r\<close> after \<open>n\<close> bytes have been read.\<close>

definition report_host :: "nat \<Rightarrow> u8 list \<Rightarrow> world" where
  "report_host n r = \<lparr>dev = (\<lambda>h x. if x = UEINTX then bv RXOUTI OR bv TXINI else if x = UEDATX then r ! (length (reads UEDATX h) - n) else 1),
     irq = (\<lambda>h. None), sig_row = (\<lambda>a. 0)\<rparr>"

lemma ready_report_host: "ready (report_host n r)"
  by (simp add: ready_def report_host_def has_def bv_def)

lemma reads_report_host:
  assumes "agrees (report_host n r) h t" and "n \<le> length (reads UEDATX h)" and "length (reads UEDATX (h @ t)) \<le> n + length r"
  shows "reads UEDATX t = take (length (reads UEDATX t)) (drop (length (reads UEDATX h) - n) r)"
  using assms
proof (induction "report_host n r" h t rule: agrees.induct)
  case (2 h x v t)
  show ?case
  proof (cases "x = UEDATX")
    case True
    let ?k = "length (reads UEDATX h) - n"
    have k: "?k < length r" using "2.prems" True by simp
    have v: "v = r ! ?k" using "2.prems"(1) True by (simp add: report_host_def)
    have "reads UEDATX t = take (length (reads UEDATX t)) (drop (Suc ?k) r)"
      using "2.hyps" "2.prems" True by (auto simp: Suc_diff_le)
    then show ?thesis using True v k by (simp add: Cons_nth_drop_Suc [symmetric])
  next
    case False
    then show ?thesis using "2.hyps" "2.prems" by auto
  qed
qed auto

lemma report_ops_take:
  assumes bs: "bs = take m r" and r: "length r = 2 + 2 * n" and len: "length bs = (if report_ops c bs = [] then 2 else 2 + 2 * n)"
  shows "report_ops c bs = report_ops c r" and "report_page bs = report_page r"
proof -
  have "2 \<le> length bs" using len by (cases "report_ops c bs = []") simp_all
  then have "1 < m" using bs by simp
  then have "bs ! 0 = r ! 0" "bs ! 1 = r ! 1" by (simp_all add: bs)
  then show page: "report_page bs = report_page r" by (simp add: report_page_def)
  show "report_ops c bs = report_ops c r"
  proof (cases "report_ops c bs = []")
    case True
    then show ?thesis using page by (auto simp: report_ops_def Let_def split: if_splits)
  next
    case False
    then have "length bs = length r" using len r by simp
    then have "bs = r" using bs by simp
    then show ?thesis by simp
  qed
qed

text \<open>The bytes of the data register a run of the handler used up.\<close>

definition taken :: "bootloader \<Rightarrow> bootloader \<Rightarrow> u8 list" where
  "taken s s' = drop (length (reads UEDATX (io s))) (reads UEDATX (io s'))"

lemma served_taken: "served w bs ops s s' \<Longrightarrow> taken s s' = bs"
  by (auto simp: served_def taken_def)

lemma SetReport_delivers:
  assumes "is_SetReport s" and "length r = 2 + 2 * (SPM_PAGESIZE c div 2)" and "SPM_PAGESIZE c div 2 < 256"
  shows "\<exists>w s'. EVENT_USB_Device_ControlRequest_boot c w s = Some s' \<and> (\<exists>m. taken s s' = take m r)"
proof -
  define w where "w = report_host (length (reads UEDATX (io s))) r"
  obtain s' where s': "EVENT_USB_Device_ControlRequest_boot c w s = Some s'"
    using ControlRequest_ready [OF _ assms(3)] ready_report_host unfolding w_def by blast
  obtain bs where bs: "served w bs (report_ops c bs) (s\<lparr>RunBootloader := RunBootloader s \<and> report_page bs \<noteq> COMMAND_STARTAPPLICATION\<rparr>) s'"
    "length bs = (if report_ops c bs = [] then 2 else 2 + 2 * (SPM_PAGESIZE c div 2))"
    using SetReport_serves [OF s' assms(1,3)] by blast
  then obtain t where t: "io s' = io s @ t" "reads UEDATX t = bs" "agrees w (io s) t" unfolding served_def by auto
  have "length bs \<le> length r" using bs(2) assms(2) by (cases "report_ops c bs = []") simp_all
  then have "bs = take (length bs) r" using reads_report_host [OF t(3) [unfolded w_def]] t(2) by simp
  moreover have "taken s s' = bs" using t by (simp add: taken_def)
  ultimately show ?thesis using s' by auto
qed

subsection \<open>Start of the application\<close>

text \<open>After the main loop has ended the boot loader jumps to the application at the reset by the watchdog, and only at that one:
  the check clears the key. The library function that starts the watchdog does not change the key.\<close>

lemma jump_once:
  assumes keeps: "\<And>s. MagicBootKey (boot_wdt_enable lib s) = MagicBootKey s"
    and leave: "boot_loop task lib w s = Some s1" and reset: "MagicBootKey s2 = MagicBootKey s1" "has (dev w (io s2) MCUSR) (bv 3)"
  shows "fst (Application_Jump_Check lib w s2) \<and> (\<forall>w'. \<not> fst (Application_Jump_Check lib w' (snd (Application_Jump_Check lib w s2))))"
proof -
  have "MagicBootKey s1 = MAGIC_BOOT_KEY" using leave keeps by (auto simp: boot_loop_def Let_def split: bind_splits)
  then show ?thesis using reset by (simp add: Application_Jump_Check_def io_simps Let_def MAGIC_BOOT_KEY_def)
qed

subsection \<open>Property\<close>

fun target_page :: "spm_op \<Rightarrow> nat option" where
  "target_page (Page_Erase a) = Some a"
| "target_page (Page_Write a) = Some a"
| "target_page _ = None"

lemma fill_ops_target: "x \<in> set (fill_ops c a k bs) \<Longrightarrow> target_page x = None"
  by (induction c a k bs rule: fill_ops.induct) auto

lemma report_ops_below: "x \<in> set (report_ops c bs) \<Longrightarrow> target_page x = Some a \<Longrightarrow> a < BOOT_START_ADDR c"
  by (auto simp: report_ops_def Let_def split: if_splits dest: fill_ops_target)

text \<open>C3: Whatever the host sends, a control request makes the boot loader do exactly what the report in it says. Only a Set Report request
  has an effect at all. Its first two bytes are the address of a page or the command to start the application, which ends the boot loader; for
  an address below the boot section the page is erased, filled with the words of the report in order and written; any other address is ignored. No page at or above the
  start of the boot section is ever erased or written.\<close>

theorem boot_request_effect:
  assumes "EVENT_USB_Device_ControlRequest_boot c w s = Some s'" and "SPM_PAGESIZE c div 2 < 256"
  shows "(\<not> is_SetReport s \<longrightarrow> s' = s) \<and>
    (is_SetReport s \<longrightarrow> spm s' = spm s @ report_ops c (taken s s') \<and>
       RunBootloader s' = (RunBootloader s \<and> report_page (taken s s') \<noteq> COMMAND_STARTAPPLICATION) \<and>
       length (taken s s') = (if report_ops c (taken s s') = [] then 2 else 2 + 2 * (SPM_PAGESIZE c div 2))) \<and>
    (\<forall>x a. x \<in> set (drop (length (spm s)) (spm s')) \<longrightarrow> target_page x = Some a \<longrightarrow> a < BOOT_START_ADDR c)"
proof (cases "is_SetReport s")
  case True
  obtain bs where bs: "served w bs (report_ops c bs) (s\<lparr>RunBootloader := RunBootloader s \<and> report_page bs \<noteq> COMMAND_STARTAPPLICATION\<rparr>) s'"
    "length bs = (if report_ops c bs = [] then 2 else 2 + 2 * (SPM_PAGESIZE c div 2))"
    using SetReport_serves [OF assms(1) True assms(2)] by blast
  have t: "taken s s' = bs" using served_taken [OF bs(1)] by (simp add: taken_def)
  have "spm s' = spm s @ report_ops c bs" "RunBootloader s' = (RunBootloader s \<and> report_page bs \<noteq> COMMAND_STARTAPPLICATION)"
    using bs(1) unfolding served_def by auto
  then show ?thesis using True bs(2) t report_ops_below by simp
next
  case False
  then have "s' = s" using assms(1) by (auto simp: EVENT_USB_Device_ControlRequest_boot_def is_SetReport_def split: if_splits)
  then show ?thesis using False by simp
qed

definition boot_request :: bootloader where
  "boot_request = usb.extend (usb_init\<lparr>USB_ControlRequest := \<lparr>bmRequestType = 0x21, bRequest = 0x09, wValue = 0x0200, wIndex = 0, wLength = 130\<rparr>\<rparr>)
     \<lparr>RunBootloader = True, MagicBootKey = 0, spm = []\<rparr>"

lemma boot_request_SetReport: "is_SetReport boot_request"
  by (simp add: boot_request_def usb.defs is_SetReport_def HID_REQ_SetReport_def CONTROL_REQTYPE_TYPE_def request_defs)

theorem boot_request_effect_witness:
  "\<exists>w s'. EVENT_USB_Device_ControlRequest_boot \<lparr>FLASHEND = 0x3FFF, BOOT_START_ADDR = 0x3000, SPM_PAGESIZE = 128\<rparr> w boot_request = Some s' \<and>
     length (spm s') = 69 \<and> spm s' ! 0 = Page_Erase 0x100"
proof -
  let ?c = "\<lparr>FLASHEND = 0x3FFF, BOOT_START_ADDR = 0x3000, SPM_PAGESIZE = 128\<rparr>" and ?r = "[0x00, 0x01] @ replicate 128 (0xAA :: u8)"
  have P: "SPM_PAGESIZE ?c div 2 < 256" by simp
  obtain w s' m where s': "EVENT_USB_Device_ControlRequest_boot ?c w boot_request = Some s'" "taken boot_request s' = take m ?r"
    using SetReport_delivers [OF boot_request_SetReport _ P, of ?r] by auto
  have e: "spm s' = report_ops ?c (take m ?r)" "length (take m ?r) = (if report_ops ?c (take m ?r) = [] then 2 else 2 + 2 * 64)"
    using boot_request_effect [OF s'(1) P] boot_request_SetReport s'(2) by (simp_all add: boot_request_def usb.defs)
  have "report_ops ?c (take m ?r) = report_ops ?c ?r" using e(2) by (intro report_ops_take(1) [where n = 64]) simp_all
  moreover have "length (report_ops ?c ?r) = 69 \<and> report_ops ?c ?r ! 0 = Page_Erase 0x100"
    by (simp add: report_ops_def report_page_def page_address_def COMMAND_STARTAPPLICATION_def join16_def length_fill_ops)
  ultimately show ?thesis using s'(1) e(1) by (intro exI [of _ w] exI [of _ s'] conjI) (simp_all only:)
qed

end
