(* ===== verification/IntelHex.thy ===== *)
theory IntelHex
  imports JoystickSerial Loops
begin

text \<open>
  The host side of the HID boot loader (\<^verbatim>\<open>Bootloaders/HID/HostLoaderApp/hid_bootloader_cli.c\<close>): the reader of Intel HEX files and the
  loop that cuts the memory image into blocks for the boot loader. The C library functions the program uses are modelled as far as
  it uses them: \<^verbatim>\<open>sscanf\<close> with a hexadecimal conversion, \<^verbatim>\<open>strlen\<close>, \<^verbatim>\<open>fgets\<close>. A C variable that a failed conversion leaves unset
  keeps a value that is a parameter. The image and its mask are functions of the index, and an index outside the arrays is an error value.
\<close>

section \<open>The C library\<close>

definition c_str :: "u8 list \<Rightarrow> u8 list" where
  "c_str = takeWhile (\<lambda>c. c \<noteq> 0)"

definition strlen :: "u8 list \<Rightarrow> nat" where
  "strlen s = length (c_str s)"

definition c_space :: "u8 \<Rightarrow> bool" where
  "c_space c \<longleftrightarrow> c = 0x20 \<or> 0x09 \<le> c \<and> c \<le> 0x0D"

definition xdigit :: "u8 \<Rightarrow> nat option" where
  "xdigit c =
     (if 0x30 \<le> c \<and> c \<le> 0x39 then Some (unat (c - 0x30))
      else if 0x61 \<le> c \<and> c \<le> 0x66 then Some (unat (c - 0x61) + 10)
      else if 0x41 \<le> c \<and> c \<le> 0x46 then Some (unat (c - 0x41) + 10)
      else None)"

definition hex_number :: "u8 list \<Rightarrow> nat" where
  "hex_number = foldl (\<lambda>n c. 16 * n + the (xdigit c)) 0"

datatype scan = Scan_EOF | Scan_Fail | Scan_Ok int

text \<open>\<^verbatim>\<open>sscanf\<close> with the conversion \<^verbatim>\<open>%x\<close> of a given width: white space is skipped; a sign and the prefix \<^verbatim>\<open>0x\<close> count for the width.\<close>

definition scan_sign :: "u8 list \<Rightarrow> int \<times> u8 list" where
  "scan_sign s = (case s of c # r \<Rightarrow> if c = 0x2D then (-1, r) else if c = 0x2B then (1, r) else (1, s) | [] \<Rightarrow> (1, s))"

definition scan_prefix :: "u8 list \<Rightarrow> u8 list" where
  "scan_prefix s = (case s of c # d # r \<Rightarrow> if c = 0x30 \<and> (d = 0x78 \<or> d = 0x58) then r else s | _ \<Rightarrow> s)"

definition sscanf_x :: "nat \<Rightarrow> u8 list \<Rightarrow> scan" where
  "sscanf_x width s =
     (let s = dropWhile c_space (c_str s) in
      if s = [] then Scan_EOF
      else let (sgn, item) = scan_sign (take width s);
               digits = takeWhile (\<lambda>c. xdigit c \<noteq> None) (scan_prefix item)
           in if digits = [] then Scan_Fail else Scan_Ok (sgn * int (hex_number digits)))"

text \<open>The test \<^verbatim>\<open>!sscanf(...)\<close>: a failed conversion is \<open>None\<close>; the end of the string is not noticed and leaves the variable as it was.\<close>

definition scan_var :: "nat \<Rightarrow> u8 list \<Rightarrow> int \<Rightarrow> int option" where
  "scan_var width s old = (case sscanf_x width s of Scan_EOF \<Rightarrow> Some old | Scan_Fail \<Rightarrow> None | Scan_Ok v \<Rightarrow> Some v)"

text \<open>\<^verbatim>\<open>fgets\<close> with a buffer of 1024 bytes: the line, the rest of the file, and whether the end of the file was noticed.\<close>

fun read_line :: "nat \<Rightarrow> u8 list \<Rightarrow> u8 list \<times> u8 list \<times> bool" where
  "read_line n [] = ([], [], n > 0)"
| "read_line 0 (c # cs) = ([], c # cs, False)"
| "read_line (Suc n) (c # cs) = (if c = 0x0A then ([c], cs, False) else let (l, rest, eof) = read_line n cs in (c # l, rest, eof))"

section \<open>The reader\<close>

definition MAX_MEMORY_SIZE :: nat where "MAX_MEMORY_SIZE = 0x10000"

record ihex =
  firmware_image :: "nat \<Rightarrow> u8"
  firmware_mask :: "nat \<Rightarrow> bool"
  end_record_seen :: bool
  byte_count :: int
  extended_addr :: u32

text \<open>What the local variables of \<^verbatim>\<open>parse_hex_line\<close> hold before they are set.\<close>

record hex_locals =
  junk_len :: int
  junk_addr :: int
  junk_code :: int
  junk_i :: int
  junk_cksum :: int

text \<open>The loop over the data bytes. It leaves the function with the value 0 (\<open>None\<close>) or ends with the sum and the position behind the data.\<close>

function hex_data_loop :: "u32 \<Rightarrow> int \<Rightarrow> nat \<Rightarrow> int \<Rightarrow> u8 list \<Rightarrow> ihex \<Rightarrow> ub + ihex \<times> (int \<times> u8 list) option" where
  "hex_data_loop base len num csum ptr st =
     (if int num = len then Inr (st, Some (csum, ptr))
      else case sscanf_x 2 ptr of
        Scan_Ok i \<Rightarrow>
          let i = i mod 256; k = unat (base + of_nat num) in
          if k \<ge> MAX_MEMORY_SIZE then Inl (OutOfBounds k)
          else
            let st = st\<lparr>firmware_image := (firmware_image st)(k := word_of_int i), firmware_mask := (firmware_mask st)(k := True)\<rparr> in
            if Suc num \<ge> 256 then Inr (st, None)
            else hex_data_loop base len (Suc num) (csum + i) (drop 2 ptr) st
      | _ \<Rightarrow> Inr (st, None))"
  by pat_completeness auto

termination
  by (relation "measure (\<lambda>(_, _, num, _, _, _). 256 - num)") auto

declare hex_data_loop.simps [simp del]

text \<open>The record of an extended address, \<^verbatim>\<open>shift\<close> being 4 or 16. Every error is ignored.\<close>

definition hex_extended :: "hex_locals \<Rightarrow> nat \<Rightarrow> int \<Rightarrow> u8 list \<Rightarrow> ihex \<Rightarrow> ihex" where
  "hex_extended u shift csum ptr st =
     (case scan_var 4 ptr (junk_i u) of
        None \<Rightarrow> st
      | Some i \<Rightarrow>
          let csum = csum + i div 256 mod 256 + i mod 256 in
          (case scan_var 2 (drop 4 ptr) (junk_cksum u) of
             None \<Rightarrow> st
           | Some cksum \<Rightarrow> if (csum mod 256 + cksum mod 256) mod 256 \<noteq> 0 then st else st\<lparr>extended_addr := push_bit shift (word_of_int i)\<rparr>))"

text \<open>The value the function returns and the state it leaves.\<close>

definition parse_hex_line :: "hex_locals \<Rightarrow> u8 list \<Rightarrow> ihex \<Rightarrow> ub + bool \<times> ihex" where
  "parse_hex_line u line st =
     (if hd line \<noteq> 0x3A then Inr (False, st)
      else if strlen line < 11 then Inr (False, st)
      else case scan_var 2 (drop 1 line) (junk_len u) of None \<Rightarrow> Inr (False, st) | Some len \<Rightarrow>
        if int (strlen line) < 11 + len * 2 then Inr (False, st)
        else case scan_var 4 (drop 3 line) (junk_addr u) of None \<Rightarrow> Inr (False, st) | Some addr \<Rightarrow>
        case scan_var 2 (drop 7 line) (junk_code u) of None \<Rightarrow> Inr (False, st) | Some code \<Rightarrow>
        if unat (word_of_int addr + extended_addr st + word_of_int len) \<ge> MAX_MEMORY_SIZE then Inr (False, st)
        else
          let csum = len mod 256 + addr div 256 mod 256 + addr mod 256 + code mod 256 in
          if code \<noteq> 0 then
            if code = 1 then Inr (True, st\<lparr>end_record_seen := True\<rparr>)
            else if code = 2 \<and> len = 2 then Inr (True, hex_extended u 4 csum (drop 9 line) st)
            else if code = 4 \<and> len = 2 then Inr (True, hex_extended u 16 csum (drop 9 line) st)
            else Inr (True, st)
          else
            case hex_data_loop (word_of_int addr + extended_addr st) len 0 csum (drop 9 line) (st\<lparr>byte_count := byte_count st + len\<rparr>) of
              Inl e \<Rightarrow> Inl e
            | Inr (st, None) \<Rightarrow> Inr (False, st)
            | Inr (st, Some (csum, ptr)) \<Rightarrow>
                (case scan_var 2 ptr (junk_cksum u) of
                   None \<Rightarrow> Inr (False, st)
                 | Some cksum \<Rightarrow> Inr ((csum mod 256 + cksum mod 256) mod 256 = 0, st)))"

lemma read_line_shorter: "read_line n cs = (l, rest, eof) \<Longrightarrow> l \<noteq> [] \<Longrightarrow> length rest < length cs"
proof (induction n cs arbitrary: l rest eof rule: read_line.induct)
  case (3 n c cs)
  show ?case
  proof (cases "c = 0x0A")
    case True
    then show ?thesis using "3.prems" by auto
  next
    case False
    obtain l' r' e' where r: "read_line n cs = (l', r', e')" by (cases "read_line n cs")
    have "length r' \<le> length cs"
    proof (cases "l' = []")
      case True
      then show ?thesis using r by (cases n; cases cs) (auto split: if_splits prod.splits)
    next
      case False
      then show ?thesis using "3.IH" [OF \<open>c \<noteq> 0x0A\<close> r] by simp
    qed
    then show ?thesis using "3.prems" False r by auto
  qed
qed auto

text \<open>The loop of \<^verbatim>\<open>read_intel_hex\<close> with the buffer, whose bytes behind the line are those of the lines before. \<open>stdin_eof\<close> is what
  \<^verbatim>\<open>feof(stdin)\<close> says.\<close>

function hex_lines :: "hex_locals \<Rightarrow> bool \<Rightarrow> u8 list \<Rightarrow> u8 list \<Rightarrow> ihex \<Rightarrow> ub + int \<times> ihex" where
  "hex_lines u stdin_eof file buf st =
     (let (line, file', eof) = read_line 1023 file in
      if line = [] then Inr (byte_count st, st)
      else
        let buf = line @ 0 # drop (Suc (length line)) buf;
            result = (if hd buf \<noteq> 0 then parse_hex_line u buf st else Inr (True, st))
        in case result of
             Inl e \<Rightarrow> Inl e
           | Inr (ok, st) \<Rightarrow>
               if \<not> ok then Inr (-2, st)
               else if end_record_seen st \<or> stdin_eof \<or> eof then Inr (byte_count st, st)
               else hex_lines u stdin_eof file' buf st)"
  by pat_completeness auto

termination
  by (relation "measure (\<lambda>(_, _, file, _, _). length file)") (auto dest: read_line_shorter [OF sym])

declare hex_lines.simps [simp del]

definition ihex_init :: ihex where
  "ihex_init = \<lparr>firmware_image = (\<lambda>_. 0xFF), firmware_mask = (\<lambda>_. False), end_record_seen = False, byte_count = 0, extended_addr = 0\<rparr>"

definition read_intel_hex :: "hex_locals \<Rightarrow> bool \<Rightarrow> u8 list \<Rightarrow> u8 list option \<Rightarrow> ub + int \<times> ihex" where
  "read_intel_hex u stdin_eof buf file =
     (case file of None \<Rightarrow> Inr (-1, ihex_init) | Some cs \<Rightarrow> hex_lines u stdin_eof cs buf ihex_init)"

section \<open>The image\<close>

definition ihex_bytes_within_range :: "int \<Rightarrow> int \<Rightarrow> ihex \<Rightarrow> bool" where
  "ihex_bytes_within_range begin_addr end_addr st =
     (if begin_addr < 0 \<or> begin_addr \<ge> int MAX_MEMORY_SIZE \<or> end_addr < 0 \<or> end_addr \<ge> int MAX_MEMORY_SIZE then False
      else list_ex (firmware_mask st) [nat begin_addr..<Suc (nat end_addr)])"

definition ihex_get_data :: "int \<Rightarrow> nat \<Rightarrow> ihex \<Rightarrow> u8 list" where
  "ihex_get_data addr len st =
     (if addr < 0 \<or> addr + int len \<ge> int MAX_MEMORY_SIZE then replicate len 255
      else map (\<lambda>i. if firmware_mask st i then firmware_image st i else 255) [nat addr..<nat addr + len])"

section \<open>Options and the main program\<close>

record loader_options =
  wait_for_device_to_appear :: bool
  hard_reboot_device :: bool
  reboot_after_programming :: bool
  verbose :: bool
  code_size :: nat
  block_size :: nat
  hex_filename :: "u8 list option"

definition loader_options_init :: loader_options where
  "loader_options_init = \<lparr>wait_for_device_to_appear = False, hard_reboot_device = False, reboot_after_programming = True, verbose = False,
     code_size = 0, block_size = 0, hex_filename = None\<rparr>"

abbreviation starts :: "string \<Rightarrow> u8 list \<Rightarrow> bool" where
  "starts p s \<equiv> take (length p) s = map of_char p"

text \<open>The part of the option \<^verbatim>\<open>-mmcu=\<close> behind the family: size of the flash memory and of its pages.\<close>

definition mcu_sizes :: "u8 list \<Rightarrow> (nat \<times> nat) option" where
  "mcu_sizes arg =
     (if starts ''128'' arg then Some (128 * 1024, 256)
      else if starts ''64'' arg then Some (64 * 1024, 256)
      else if starts ''32'' arg then Some (32 * 1024, 128)
      else if starts ''16'' arg then Some (16 * 1024, 128)
      else if starts ''8'' arg then Some (8 * 1024, 128)
      else None)"

text \<open>One argument; \<open>None\<close> is the end of the program in \<^verbatim>\<open>die\<close>.\<close>

definition parse_option :: "u8 list \<Rightarrow> loader_options \<Rightarrow> loader_options option" where
  "parse_option arg opt =
     (if take 1 arg = [0x2D] then
        if arg = map of_char ''-w'' then Some (opt\<lparr>wait_for_device_to_appear := True\<rparr>)
        else if arg = map of_char ''-r'' then Some (opt\<lparr>hard_reboot_device := True\<rparr>)
        else if arg = map of_char ''-n'' then Some (opt\<lparr>reboot_after_programming := False\<rparr>)
        else if arg = map of_char ''-v'' then Some (opt\<lparr>verbose := True\<rparr>)
        else if starts ''-mmcu='' arg then
          let arg = drop 6 arg in
          do {
            arg \<leftarrow> (if starts ''at90usb'' arg then Some (drop 7 arg) else if starts ''atmega'' arg then Some (drop 6 arg) else None);
            (cs, bs) \<leftarrow> mcu_sizes arg;
            Some (opt\<lparr>code_size := cs, block_size := bs\<rparr>)
          }
        else Some opt
      else Some (opt\<lparr>hex_filename := Some arg\<rparr>))"

fun parse_options :: "u8 list list \<Rightarrow> loader_options \<Rightarrow> loader_options option" where
  "parse_options [] opt = Some opt"
| "parse_options (arg # args) opt = Option.bind (parse_option arg opt) (parse_options args)"

text \<open>The buffer for one block.\<close>

definition block_buf :: "nat \<Rightarrow> nat \<Rightarrow> nat \<Rightarrow> ihex \<Rightarrow> u8 list" where
  "block_buf cs bs addr st =
     (if cs < 0x10000 then [of_nat (addr mod 256), of_nat (addr div 256 mod 256)]
      else [of_nat (addr div 256 mod 256), of_nat (addr div 65536 mod 256)]) @ ihex_get_data (int addr) bs st"

text \<open>The loop over the blocks. \<open>write h buf\<close> says whether \<^verbatim>\<open>teensy_write\<close> succeeds after the buffers \<open>h\<close>; the result has the buffers
  written, and \<open>False\<close> if the program died. A page size of 0 does not occur, and the loop would not end.\<close>

function program_blocks :: "(u8 list list \<Rightarrow> u8 list \<Rightarrow> bool) \<Rightarrow> nat \<Rightarrow> nat \<Rightarrow> ihex \<Rightarrow> nat \<Rightarrow> u8 list list \<Rightarrow> (u8 list list \<times> bool) option" where
  "program_blocks write cs bs st addr h =
     (if addr < cs then
        if bs = 0 then None
        else if addr > 0 \<and> \<not> ihex_bytes_within_range (int addr) (int addr + int bs - 1) st then program_blocks write cs bs st (addr + bs) h
        else let buf = block_buf cs bs addr st in
          if \<not> write h buf then Some (h @ [buf], False)
          else program_blocks write cs bs st (addr + bs) (h @ [buf])
      else Some (h, True))"
  by pat_completeness auto

termination
  by (relation "measure (\<lambda>(_, cs, _, _, addr, _). cs - addr)") auto

declare program_blocks.simps [simp del]

text \<open>The part of \<^verbatim>\<open>main\<close> from the open device on, with the block that starts the application.\<close>

definition reboot_buf :: "nat \<Rightarrow> u8 list" where
  "reboot_buf bs = [0xFF, 0xFF] @ replicate bs 0"

definition loader_main :: "(u8 list list \<Rightarrow> u8 list \<Rightarrow> bool) \<Rightarrow> loader_options \<Rightarrow> ihex \<Rightarrow> (u8 list list \<times> bool) option" where
  "loader_main write opt st =
     do {
       (h, ok) \<leftarrow> program_blocks write (code_size opt) (block_size opt) st 0 [];
       Some (if ok \<and> reboot_after_programming opt then h @ [reboot_buf (block_size opt)] else h, ok)
     }"

text \<open>The whole of \<^verbatim>\<open>main\<close>. What the program gets from outside is the record \<open>loader_env\<close>: whether \<^verbatim>\<open>teensy_open\<close> succeeds at the \<open>k\<close>-th attempt, whether the
  device that resets the board is found, whether a write succeeds, the content of the file at the two times it may be read, whether standard
  input is at its end, and the former content of local variables. An exit carries the buffers that were written.\<close>

record loader_env =
  env_open :: "nat \<Rightarrow> bool"
  env_reboot :: bool
  env_write :: "u8 list list \<Rightarrow> u8 list \<Rightarrow> bool"
  env_file :: "bool \<Rightarrow> u8 list option"
  env_stdin_eof :: bool
  env_locals :: hex_locals
  env_buf :: "u8 list"

datatype loader_exit = Exit_0 "u8 list list" | Exit_1 "u8 list list"

text \<open>The loop that opens the device; \<open>None\<close> is the end of the program in \<^verbatim>\<open>die\<close>, otherwise the result says whether it has waited.\<close>

definition open_turn :: "loader_env \<Rightarrow> nat \<times> loader_options \<times> bool \<Rightarrow> (bool option + nat \<times> loader_options \<times> bool) option" where
  "open_turn e = (\<lambda>(k, opt, waited).
     if env_open e k then Some (Inl (Some waited))
     else if hard_reboot_device opt \<and> \<not> env_reboot e then Some (Inl None)
     else
       let opt = (if hard_reboot_device opt then opt\<lparr>hard_reboot_device := False, wait_for_device_to_appear := True\<rparr> else opt) in
       if \<not> wait_for_device_to_appear opt then Some (Inl None) else Some (Inr (Suc k, opt, True)))"

definition loader_program :: "loader_env \<Rightarrow> u8 list list \<Rightarrow> (ub + loader_exit) option" where
  "loader_program e args =
     (case parse_options args loader_options_init of
        None \<Rightarrow> Some (Inr (Exit_1 []))
      | Some opt \<Rightarrow>
          if hex_filename opt = None \<or> code_size opt = 0 then Some (Inr (Exit_1 []))
          else
            let read = (\<lambda>again. read_intel_hex (env_locals e) (env_stdin_eof e) (env_buf e) (env_file e again)) in
            (case read False of
               Inl err \<Rightarrow> Some (Inl err)
             | Inr (num, st) \<Rightarrow>
                 if num < 0 then Some (Inr (Exit_1 []))
                 else do {
                   opened \<leftarrow> iterate (open_turn e) (0, opt, False);
                   (case opened of
                      None \<Rightarrow> Some (Inr (Exit_1 []))
                    | Some waited \<Rightarrow>
                        (case (if waited then read True else Inr (num, st)) of
                           Inl err \<Rightarrow> Some (Inl err)
                         | Inr (num, st) \<Rightarrow>
                             if num < 0 then Some (Inr (Exit_1 []))
                             else do {
                               (h, ok) \<leftarrow> loader_main (env_write e) opt st;
                               Some (Inr (if ok then Exit_0 h else Exit_1 h))
                             }))
                 }))"

text \<open>With a device that never appears the program gives up unless it was told to wait, and waits forever otherwise.\<close>

lemma open_loop_absent:
  assumes "\<And>k. \<not> env_open e k"
  shows "iterate (open_turn e) (0, opt, False) =
    (if wait_for_device_to_appear opt \<and> \<not> hard_reboot_device opt \<or> hard_reboot_device opt \<and> env_reboot e then None else Some None)"
proof -
  have hang: "iterate (open_turn e) (k, p, w) = None" if "wait_for_device_to_appear p" "\<not> hard_reboot_device p" for k p w
    by (rule iterate_hangs [where I = "\<lambda>(k, p, w). wait_for_device_to_appear p \<and> \<not> hard_reboot_device p"])
      (use that assms in \<open>auto simp: open_turn_def\<close>)
  show ?thesis
  proof (cases "hard_reboot_device opt \<and> env_reboot e \<or> wait_for_device_to_appear opt \<and> \<not> hard_reboot_device opt")
    case True
    then have "\<exists>p. open_turn e (0, opt, False) = Some (Inr (1, p, True)) \<and> wait_for_device_to_appear p \<and> \<not> hard_reboot_device p"
      using assms by (auto simp: open_turn_def)
    then show ?thesis using True hang by (auto simp: iterate_go)
  next
    case False
    then show ?thesis using assms by (auto intro!: iterate_stop simp: open_turn_def)
  qed
qed

section \<open>Records as text\<close>

text \<open>A text spells a list of bytes if it has the two digits of each, in either case.\<close>

fun hex_text :: "u8 list \<Rightarrow> u8 list \<Rightarrow> bool" where
  "hex_text [] [] \<longleftrightarrow> True"
| "hex_text (c # d # t) (b # bs) \<longleftrightarrow> xdigit c = Some (unat b div 16) \<and> xdigit d = Some (unat b mod 16) \<and> hex_text t bs"
| "hex_text _ _ \<longleftrightarrow> False"

datatype hex_record = Data u16 "u8 list" | Segment u16 | Linear u16 | EndOfFile

fun record_bytes :: "hex_record \<Rightarrow> u8 list" where
  "record_bytes (Data a bs) = [of_nat (length bs), hi8 a, lo8 a, 0] @ bs"
| "record_bytes (Segment i) = [2, 0, 0, 2, hi8 i, lo8 i]"
| "record_bytes (Linear i) = [2, 0, 0, 4, hi8 i, lo8 i]"
| "record_bytes EndOfFile = [0, 0, 0, 1]"

text \<open>A line of a HEX file: a colon, the bytes of the record with the checksum that makes their sum zero, and whatever follows, with a terminating NUL.\<close>

definition hex_line :: "hex_record \<Rightarrow> u8 list \<Rightarrow> bool" where
  "hex_line r line \<longleftrightarrow> (\<exists>t rest. line = 0x3A # t @ rest \<and> hex_text t (record_bytes r @ [- sum_list (record_bytes r)]) \<and> 0 \<in> set rest)"

text \<open>What a record means.\<close>

definition put_data :: "nat \<Rightarrow> u8 list \<Rightarrow> ihex \<Rightarrow> ihex" where
  "put_data k bs st = st\<lparr>firmware_image := (\<lambda>i. if k \<le> i \<and> i < k + length bs then bs ! (i - k) else firmware_image st i),
     firmware_mask := (\<lambda>i. k \<le> i \<and> i < k + length bs \<or> firmware_mask st i)\<rparr>"

fun apply_record :: "hex_record \<Rightarrow> ihex \<Rightarrow> ihex" where
  "apply_record (Data a bs) st = put_data (unat (extended_addr st) + unat a) bs (st\<lparr>byte_count := byte_count st + int (length bs)\<rparr>)"
| "apply_record (Segment i) st = st\<lparr>extended_addr := push_bit 4 (ucast i)\<rparr>"
| "apply_record (Linear i) st = st\<lparr>extended_addr := push_bit 16 (ucast i)\<rparr>"
| "apply_record EndOfFile st = st\<lparr>end_record_seen := True\<rparr>"

text \<open>The records the reader accepts: the address behind the record is inside the arrays, also for a record without data.\<close>

fun record_fits :: "hex_record \<Rightarrow> ihex \<Rightarrow> bool" where
  "record_fits (Data a bs) st \<longleftrightarrow> length bs < 256 \<and> unat (extended_addr st) + unat a + length bs < MAX_MEMORY_SIZE"
| "record_fits EndOfFile st \<longleftrightarrow> unat (extended_addr st) < MAX_MEMORY_SIZE"
| "record_fits _ st \<longleftrightarrow> unat (extended_addr st) + 2 < MAX_MEMORY_SIZE"

section \<open>Conversions\<close>

lemma xdigit_char: "xdigit c = Some n \<Longrightarrow> c \<noteq> 0 \<and> c \<noteq> 0x2D \<and> c \<noteq> 0x2B \<and> c \<noteq> 0x78 \<and> c \<noteq> 0x58 \<and> \<not> c_space c"
  by (auto simp: xdigit_def c_space_def word_le_nat_alt split: if_splits)

lemma sscanf_digits:
  assumes "list_all (\<lambda>c. xdigit c \<noteq> None) t" and "t \<noteq> []"
  shows "sscanf_x (length t) (t @ rest) = Scan_Ok (int (hex_number t))"
proof -
  obtain c t' where t: "t = c # t'" using assms(2) by (cases t) auto
  have ok: "xdigit d \<noteq> None" if "d \<in> set t" for d using assms(1) that by (simp add: list_all_iff)
  then have char: "d \<noteq> 0" "d \<noteq> 0x2D" "d \<noteq> 0x2B" "d \<noteq> 0x78" "d \<noteq> 0x58" "\<not> c_space d" if "d \<in> set t" for d
    using xdigit_char [of d] that by auto
  have str: "c_str (t @ rest) = t @ c_str rest" unfolding c_str_def by (rule takeWhile_append2) (rule char(1))
  have drop: "dropWhile c_space (t @ c_str rest) = t @ c_str rest" using char(6) [of c] t by simp
  have sign: "scan_sign t = (1, t)" using char(2,3) [of c] t by (simp add: scan_sign_def)
  have prefix: "scan_prefix t = t" using char(4,5) t by (auto simp: scan_prefix_def split: list.split)
  have digits: "takeWhile (\<lambda>c. xdigit c \<noteq> None) t = t" using ok by (simp add: takeWhile_eq_all_conv)
  show ?thesis unfolding sscanf_x_def str Let_def drop using t sign prefix digits by simp
qed

lemma hex_text_Cons:
  assumes "hex_text t (b # bs)"
  obtains c d t' where "t = c # d # t'" "xdigit c = Some (unat b div 16)" "xdigit d = Some (unat b mod 16)" "hex_text t' bs"
proof (cases t)
  case (Cons c r)
  then show ?thesis using assms that by (cases r) auto
qed (use assms in simp)

lemma hex_text_drop: "hex_text t (b # bs) \<Longrightarrow> hex_text (drop 2 t) bs \<and> drop 2 (t @ rest) = drop 2 t @ rest"
  by (erule hex_text_Cons) simp

lemma hex_text_append: "hex_text t (as @ bs) \<Longrightarrow> hex_text (drop (2 * length as) t) bs \<and> drop (2 * length as) (t @ rest) = drop (2 * length as) t @ rest"
proof (induction as arbitrary: t)
  case (Cons a as)
  obtain c d t' where "t = c # d # t'" "hex_text t' (as @ bs)" using Cons.prems by (auto elim: hex_text_Cons)
  then show ?case using Cons.IH [of t'] by simp
qed simp

lemma length_hex_text: "hex_text t bs \<Longrightarrow> length t = 2 * length bs"
  by (induction t bs rule: hex_text.induct) auto

lemma hex_text_no_NUL: "hex_text t bs \<Longrightarrow> 0 \<notin> set t"
proof (induction t bs rule: hex_text.induct)
  case (2 c d t b bs)
  then show ?case using xdigit_char [of c] xdigit_char [of d] by auto
qed auto

lemma scan_byte:
  assumes "hex_text t (b # bs)"
  shows "sscanf_x 2 (t @ rest) = Scan_Ok (uint b)"
proof -
  obtain c d t' where t: "t = c # d # t'" "xdigit c = Some (unat b div 16)" "xdigit d = Some (unat b mod 16)"
    using assms by (rule hex_text_Cons)
  have "int (hex_number [c, d]) = uint b" unfolding uint_nat using t by (simp add: hex_number_def mult.commute)
  then show ?thesis using sscanf_digits [of "[c, d]" "t' @ rest"] t by (simp add: numeral_2_eq_2)
qed

lemma scan_short:
  assumes "hex_text t (hi8 a # lo8 a # bs)"
  shows "sscanf_x 4 (t @ rest) = Scan_Ok (uint a)"
proof -
  obtain c d t' where t: "t = c # d # t'" "xdigit c = Some (unat (hi8 a) div 16)" "xdigit d = Some (unat (hi8 a) mod 16)" "hex_text t' (lo8 a # bs)"
    using assms by (rule hex_text_Cons)
  obtain e f t'' where t': "t' = e # f # t''" "xdigit e = Some (unat (lo8 a) div 16)" "xdigit f = Some (unat (lo8 a) mod 16)"
    using t(4) by (rule hex_text_Cons)
  have digits: "16 * (x div 16) + x mod 16 = x" for x :: nat by simp
  have "hex_number [c, d, e, f] = 256 * unat (hi8 a) + unat (lo8 a)"
    using t t' digits [of "unat (hi8 a)"] digits [of "unat (lo8 a)"] by (simp add: hex_number_def)
  also have "\<dots> = unat a" by (simp add: unat_hi8 unat_lo8)
  finally have "int (hex_number [c, d, e, f]) = uint a" unfolding uint_nat by (rule arg_cong)
  moreover have "sscanf_x (length [c, d, e, f]) ([c, d, e, f] @ t'' @ rest) = Scan_Ok (int (hex_number [c, d, e, f]))"
    by (rule sscanf_digits) (use t t' in simp_all)
  moreover have "[c, d, e, f] @ t'' @ rest = t @ rest" "length [c, d, e, f] = 4" using t t' by simp_all
  ultimately show ?thesis by (simp only:)
qed

lemma put_data_Nil: "put_data k [] st = st"
  by (rule ihex.equality) (auto simp: put_data_def fun_eq_iff)

lemma put_data_Cons:
  "put_data (Suc k) bs (st\<lparr>firmware_image := (firmware_image st)(k := b), firmware_mask := (firmware_mask st)(k := True)\<rparr>) = put_data k (b # bs) st"
  by (rule ihex.equality) (auto simp: put_data_def fun_eq_iff nth_Cons' Suc_diff_le)

lemma hex_data_loop_text:
  assumes "hex_text t (bs @ [ck])" and "unat base + num + length bs \<le> MAX_MEMORY_SIZE" and "num + length bs < 256"
  shows "hex_data_loop base (int (num + length bs)) num csum (t @ rest) st =
    Inr (put_data (unat base + num) bs st, Some (csum + sum_list (map uint bs), drop (2 * length bs) t @ rest))"
  using assms
proof (induction bs arbitrary: t num csum st)
  case Nil
  then show ?case by (simp add: hex_data_loop.simps [of base _ num] put_data_Nil)
next
  case (Cons b bs)
  have spelled: "hex_text t (b # bs @ [ck])" using Cons.prems(1) by simp
  have k: "unat (base + of_nat num) = unat base + num"
    using Cons.prems(2) by (subst unat_add_lem [THEN iffD1]) (auto simp: unat_of_nat MAX_MEMORY_SIZE_def)
  have b: "uint b mod 256 = uint b" using unsigned_less [of b, where ?'a = int] by simp
  note step = hex_text_drop [OF spelled, of rest]
  let ?st = "st\<lparr>firmware_image := (firmware_image st)(unat base + num := b), firmware_mask := (firmware_mask st)(unat base + num := True)\<rparr>"
  have "hex_data_loop base (int (num + length (b # bs))) num csum (t @ rest) st =
      hex_data_loop base (int (Suc num + length bs)) (Suc num) (csum + uint b) (drop 2 t @ rest) ?st"
    using Cons.prems(2,3) step by (subst hex_data_loop.simps) (simp add: scan_byte [OF spelled] k b Let_def)
  also have "\<dots> = Inr (put_data (unat base + Suc num) bs ?st, Some (csum + uint b + sum_list (map uint bs), drop (2 * length bs) (drop 2 t) @ rest))"
    by (rule Cons.IH) (use Cons.prems step in auto)
  finally show ?case using put_data_Cons [of "unat base + num" bs st b] by (simp add: add.assoc)
qed

lemma checksum_zero:
  assumes "word_of_int x = (w :: u8)"
  shows "(x mod 256 + uint (- w) mod 256) mod 256 = 0"
proof -
  have "word_of_int (x + uint (- w)) = (word_of_int 0 :: u8)" using assms by simp
  then have "(x + uint (- w)) mod 256 = 0" unfolding word_of_int_eq_iff by (simp add: take_bit_eq_mod)
  then show ?thesis by (simp add: mod_add_eq)
qed

lemma word_sum_list: "word_of_int (sum_list (map uint bs)) = sum_list (bs :: u8 list)"
  by (induction bs) auto

lemma word_header:
  "word_of_int (uint (l :: u8) mod 256 + uint (a :: u16) div 256 mod 256 + uint a mod 256 + uint (c :: u8) mod 256) = l + hi8 a + lo8 a + c"
proof -
  have "uint a div 256 = uint (hi8 a)" using arg_cong [OF unat_hi8 [of a], of int] by (simp add: of_nat_div)
  moreover have "uint a mod 256 = uint (lo8 a)" using arg_cong [OF unat_lo8 [of a], of int] by (simp add: of_nat_mod)
  moreover have "uint (hi8 a) mod 256 = uint (hi8 a)" using unsigned_less [of "hi8 a", where ?'a = int] by simp
  moreover have "uint l mod 256 = uint l" "uint c mod 256 = uint c"
    using unsigned_less [of l, where ?'a = int] unsigned_less [of c, where ?'a = int] by simp_all
  ultimately show ?thesis by simp
qed

lemma hex_line_header:
  assumes "line = 0x3A # t @ rest" and "hex_text t ([l, hi8 a, lo8 a, c] @ bs)" and "0 \<in> set rest"
  shows "scan_var 2 (drop 1 line) i = Some (uint l)" and "scan_var 4 (drop 3 line) j = Some (uint a)" and "scan_var 2 (drop 7 line) k = Some (uint c)"
    and "drop 9 line = drop 8 t @ rest" and "hex_text (drop 8 t) bs" and "9 + 2 * length bs \<le> strlen line"
proof -
  have t2: "hex_text (drop 2 t) ([hi8 a, lo8 a, c] @ bs)" "drop 2 (t @ rest) = drop 2 t @ rest"
    using hex_text_append [of t "[l]" "[hi8 a, lo8 a, c] @ bs" rest] assms(2) by auto
  have t6: "hex_text (drop 6 t) (c # bs)" "drop 6 (t @ rest) = drop 6 t @ rest"
    using hex_text_append [of t "[l, hi8 a, lo8 a]" "c # bs" rest] assms(2) by auto
  have t8: "hex_text (drop 8 t) bs" "drop 8 (t @ rest) = drop 8 t @ rest"
    using hex_text_append [of t "[l, hi8 a, lo8 a, c]" bs rest] assms(2) by auto
  show "scan_var 2 (drop 1 line) i = Some (uint l)" using assms(1) scan_byte [of t l "[hi8 a, lo8 a, c] @ bs" rest] assms(2)
    by (simp add: scan_var_def)
  show "scan_var 4 (drop 3 line) j = Some (uint a)" using assms(1) scan_short [of "drop 2 t" a "c # bs" rest] t2 by (simp add: scan_var_def)
  show "scan_var 2 (drop 7 line) k = Some (uint c)" using assms(1) scan_byte [OF t6(1), of rest] t6 by (simp add: scan_var_def)
  show "drop 9 line = drop 8 t @ rest" using assms(1) t8 by simp
  show "hex_text (drop 8 t) bs" by (rule t8)
  show "9 + 2 * length bs \<le> strlen line"
    using assms(1) length_hex_text [OF assms(2)] hex_text_no_NUL [OF assms(2)]
    by (simp add: strlen_def c_str_def) (subst takeWhile_append2, auto)
qed

lemma unat_record_end:
  assumes "unat (e :: u32) + unat (a :: u16) + unat (l :: u8) < MAX_MEMORY_SIZE"
  shows "unat (ucast a + e) = unat e + unat a" and "unat (ucast a + e + ucast l) = unat e + unat a + unat l"
proof -
  have a: "unat (ucast a :: u32) = unat a"
    unfolding unsigned_ucast_eq by (rule take_bit_nat_eq_self, rule order.strict_trans2 [OF unsigned_less]) simp
  have l: "unat (ucast l :: u32) = unat l"
    unfolding unsigned_ucast_eq by (rule take_bit_nat_eq_self, rule order.strict_trans2 [OF unsigned_less]) simp
  show e: "unat (ucast a + e) = unat e + unat a"
    using assms by (subst unat_add_lem [THEN iffD1]) (auto simp: a MAX_MEMORY_SIZE_def)
  then show "unat (ucast a + e + ucast l) = unat e + unat a + unat l"
    using assms by (subst unat_add_lem [THEN iffD1]) (auto simp: l e MAX_MEMORY_SIZE_def)
qed

lemma parse_data:
  assumes line: "line = 0x3A # t @ rest" "hex_text t ([l, hi8 a, lo8 a, 0] @ bs @ [ck])" "0 \<in> set rest"
    and len: "unat l = length bs" and fits: "unat (extended_addr st) + unat a + length bs < MAX_MEMORY_SIZE"
    and ck: "ck = - (l + hi8 a + lo8 a + 0 + sum_list bs)"
  shows "parse_hex_line u line st = Inr (True, apply_record (Data a bs) st)"
proof -
  note h = hex_line_header [OF line]
  note e = unat_record_end [of "extended_addr st" a l, unfolded len, OF fits]
  let ?csum = "uint l mod 256 + uint a div 256 mod 256 + uint a mod 256 + uint (0 :: u8) mod 256"
  have l: "uint l = int (0 + length bs)" using len by (metis add_0 uint_nat)
  have n: "length bs < 256" using unsigned_less [of l, where ?'a = nat] len by simp
  have ptr: "hex_text (drop (2 * length bs) (drop 8 t)) [ck]"
    using hex_text_append [OF h(5)] by simp
  have sum: "((?csum + sum_list (map uint bs)) mod 256 + uint ck mod 256) mod 256 = 0"
    unfolding ck by (rule checksum_zero) (simp only: of_int_add word_sum_list flip: word_header)
  have loop: "hex_data_loop (ucast a + extended_addr st) (uint l) 0 ?csum (drop 9 line) (st\<lparr>byte_count := byte_count st + uint l\<rparr>) =
      Inr (apply_record (Data a bs) st, Some (?csum + sum_list (map uint bs), drop (2 * length bs) (drop 8 t) @ rest))"
    unfolding h(4) l by (subst hex_data_loop_text [OF h(5)]) (use n fits in \<open>simp_all add: e\<close>)
  have strlen: "\<not> int (strlen line) < 11 + uint l * 2" "\<not> strlen line < 11" using h(6) l by simp_all
  have ok: "word_of_int (uint a) = (ucast a :: u32)" "word_of_int (uint l) = (ucast l :: u32)" "uint (0 :: u8) = 0" "hd line = 0x3A"
    using line by simp_all
  have ckv: "scan_var 2 (drop (2 * length bs) (drop 8 t) @ rest) j = Some (uint ck)" for j
    using scan_byte [OF ptr, of rest] by (simp add: scan_var_def)
  have fit: "\<not> unat (ucast a + extended_addr st + ucast l) \<ge> MAX_MEMORY_SIZE" using e(2) fits by simp
  show ?thesis unfolding parse_hex_line_def
    using loop sum fit
    by (simp only: ok strlen h(1-3) ckv Let_def simp_thms if_True if_False option.case sum.case prod.case)
qed

lemma hi8_lo8_zero: "hi8 0 = 0" "lo8 0 = 0"
  by (simp_all add: hi8_def lo8_def)

lemma hex_extended_record:
  assumes "hex_text t [hi8 i, lo8 i, ck]" and "word_of_int csum + hi8 i + lo8 i + ck = 0"
  shows "hex_extended u shift csum (t @ rest) st = st\<lparr>extended_addr := push_bit shift (ucast i)\<rparr>"
proof -
  have t: "hex_text (drop 4 t) [ck]" "drop 4 (t @ rest) = drop 4 t @ rest"
    using hex_text_append [of t "[hi8 i, lo8 i]" "[ck]" rest] assms(1) by simp_all
  have i: "scan_var 4 (t @ rest) j = Some (uint i)" for j using scan_short [OF assms(1), of rest] by (simp add: scan_var_def)
  have c: "scan_var 2 (drop 4 (t @ rest)) j = Some (uint ck)" for j
    unfolding t(2) using scan_byte [OF t(1), of rest] by (simp add: scan_var_def)
  have "word_of_int (uint i div 256 mod 256 + uint i mod 256) = hi8 i + lo8 i" using word_header [of 0 i 0] by simp
  moreover have "ck = - (word_of_int csum + (hi8 i + lo8 i))" using assms(2) by (simp add: algebra_simps eq_neg_iff_add_eq_0)
  ultimately have "((csum + uint i div 256 mod 256 + uint i mod 256) mod 256 + uint ck mod 256) mod 256 = 0"
    using checksum_zero [of "csum + (uint i div 256 mod 256 + uint i mod 256)" "word_of_int csum + (hi8 i + lo8 i)"] by (simp only: of_int_add add.assoc)
  moreover have "word_of_int (uint i) = (ucast i :: u32)" by simp
  ultimately show ?thesis unfolding hex_extended_def by (simp only: i c Let_def option.case simp_thms if_False)
qed

lemma parse_extended:
  assumes line: "line = 0x3A # t @ rest" "hex_text t ([2, hi8 0, lo8 0, c] @ [hi8 i, lo8 i] @ [ck])" "0 \<in> set rest"
    and fits: "unat (extended_addr st) + 2 < MAX_MEMORY_SIZE" and ck: "2 + c + hi8 i + lo8 i + ck = 0"
    and c: "c = 2 \<and> shift = 4 \<or> c = 4 \<and> shift = 16"
  shows "parse_hex_line u line st = Inr (True, st\<lparr>extended_addr := push_bit shift (ucast i)\<rparr>)"
proof -
  note h = hex_line_header [OF line]
  let ?csum = "uint (2 :: u8) mod 256 + uint (0 :: u16) div 256 mod 256 + uint (0 :: u16) mod 256 + uint c mod 256"
  have ext: "hex_extended u shift ?csum (drop 9 line) st = st\<lparr>extended_addr := push_bit shift (ucast i)\<rparr>"
    unfolding h(4) by (rule hex_extended_record, use h(5) in simp, unfold word_header) (use ck in \<open>simp add: hi8_lo8_zero\<close>)
  have fit: "unat (extended_addr st + 2) < MAX_MEMORY_SIZE"
    using unat_record_end(2) [of "extended_addr st" 0 2] fits by simp
  have ok: "hd line = 0x3A" "\<not> strlen line < 11" "\<not> int (strlen line) < 11 + 2 * 2" "\<not> unat (extended_addr st + 2) \<ge> MAX_MEMORY_SIZE"
    using line(1) h(6) fit by simp_all
  have "uint c = (if shift = 4 then 2 else 4)" "shift = 4 \<or> shift = 16" using c by auto
  then show ?thesis using ext ok by (auto simp: parse_hex_line_def h(1-3) Let_def simp del: One_nat_def)
qed

lemma parse_end:
  assumes line: "line = 0x3A # t @ rest" "hex_text t ([0, hi8 0, lo8 0, 1] @ [ck])" "0 \<in> set rest" and fits: "unat (extended_addr st) < MAX_MEMORY_SIZE"
  shows "parse_hex_line u line st = Inr (True, st\<lparr>end_record_seen := True\<rparr>)"
  using hex_line_header [OF line] fits line(1) by (simp add: parse_hex_line_def Let_def)

lemma parse_hex_line_record:
  assumes "hex_line r line" and "record_fits r st"
  shows "parse_hex_line u line st = Inr (True, apply_record r st)"
proof -
  obtain t rest where line: "line = 0x3A # t @ rest" "0 \<in> set rest" and t: "hex_text t (record_bytes r @ [- sum_list (record_bytes r)])"
    using assms(1) by (auto simp: hex_line_def)
  show ?thesis
  proof (cases r)
    case (Data a bs)
    then show ?thesis
      using parse_data [OF line(1) _ line(2), of "of_nat (length bs)" a bs "- sum_list (record_bytes r)" st u] t assms(2)
      by (simp add: unat_of_nat add.assoc)
  next
    case (Segment i)
    then show ?thesis
      using parse_extended [OF line(1) _ line(2), of 2 i "- sum_list (record_bytes r)" st 4 u] t assms(2) by (simp add: hi8_lo8_zero add.assoc)
  next
    case (Linear i)
    then show ?thesis
      using parse_extended [OF line(1) _ line(2), of 4 i "- sum_list (record_bytes r)" st 16 u] t assms(2) by (simp add: hi8_lo8_zero add.assoc)
  next
    case EndOfFile
    then show ?thesis
      using parse_end [OF line(1) _ line(2), of "- 1" st u] t assms(2) by (simp add: hi8_lo8_zero)
  qed
qed

section \<open>Files\<close>

text \<open>A HEX file, its lines ended in the way of Unix or of DOS.\<close>

inductive hex_file :: "hex_record list \<Rightarrow> u8 list \<Rightarrow> bool" where
  "hex_file [] []"
| "hex_text t (record_bytes r @ [- sum_list (record_bytes r)]) \<Longrightarrow> eol = [0x0A] \<or> eol = [0x0D, 0x0A] \<Longrightarrow> hex_file rs cs \<Longrightarrow>
   hex_file (r # rs) (0x3A # t @ eol @ cs)"

text \<open>The memory a file describes, the number of bytes in it, and whether every record up to the end record fits; \<open>e\<close> is the extended address.\<close>

definition block :: "nat \<Rightarrow> u8 list \<Rightarrow> nat \<rightharpoonup> u8" where
  "block k bs i = (if k \<le> i \<and> i < k + length bs then Some (bs ! (i - k)) else None)"

fun contents :: "u32 \<Rightarrow> hex_record list \<Rightarrow> nat \<rightharpoonup> u8" where
  "contents e (Data a bs # rs) = block (unat e + unat a) bs ++ contents e rs"
| "contents e (Segment i # rs) = contents (push_bit 4 (ucast i)) rs"
| "contents e (Linear i # rs) = contents (push_bit 16 (ucast i)) rs"
| "contents e _ = Map.empty"

fun data_bytes :: "hex_record list \<Rightarrow> nat" where
  "data_bytes (Data a bs # rs) = length bs + data_bytes rs"
| "data_bytes (Segment i # rs) = data_bytes rs"
| "data_bytes (Linear i # rs) = data_bytes rs"
| "data_bytes _ = 0"

fun records_fit :: "u32 \<Rightarrow> hex_record list \<Rightarrow> bool" where
  "records_fit e [] \<longleftrightarrow> True"
| "records_fit e (Data a bs # rs) \<longleftrightarrow> length bs < 256 \<and> unat e + unat a + length bs < MAX_MEMORY_SIZE \<and> records_fit e rs"
| "records_fit e (Segment i # rs) \<longleftrightarrow> unat e + 2 < MAX_MEMORY_SIZE \<and> records_fit (push_bit 4 (ucast i)) rs"
| "records_fit e (Linear i # rs) \<longleftrightarrow> unat e + 2 < MAX_MEMORY_SIZE \<and> records_fit (push_bit 16 (ucast i)) rs"
| "records_fit e (EndOfFile # rs) \<longleftrightarrow> unat e < MAX_MEMORY_SIZE"

definition memory :: "ihex \<Rightarrow> nat \<rightharpoonup> u8" where
  "memory st i = (if firmware_mask st i then Some (firmware_image st i) else None)"

lemma memory_put_data: "memory (put_data k bs st) = memory st ++ block k bs"
  by (auto simp: memory_def put_data_def block_def map_add_def fun_eq_iff)

lemma memory_other [simp]: "memory (st\<lparr>byte_count := n\<rparr>) = memory st" "memory (st\<lparr>extended_addr := e\<rparr>) = memory st" "memory (st\<lparr>end_record_seen := b\<rparr>) = memory st"
  by (simp_all add: memory_def fun_eq_iff)

lemma put_data_other [simp]: "byte_count (put_data k bs st) = byte_count st" "extended_addr (put_data k bs st) = extended_addr st"
  "end_record_seen (put_data k bs st) = end_record_seen st"
  by (simp_all add: put_data_def)

lemma read_line_eol: "0x0A \<notin> set l \<Longrightarrow> length l < n \<Longrightarrow> read_line n (l @ 0x0A # cs) = (l @ [0x0A], cs, False)"
proof (induction l arbitrary: n)
  case Nil
  then show ?case by (cases n) simp_all
next
  case (Cons c l)
  then show ?case by (cases n) auto
qed

lemma hex_text_no_eol: "hex_text t bs \<Longrightarrow> 0x0A \<notin> set t"
proof (induction t bs rule: hex_text.induct)
  case (2 c d t b bs)
  then show ?case using xdigit_char [of c] xdigit_char [of d] by (auto simp: c_space_def)
qed auto

lemma length_record_bytes: "record_fits r st \<Longrightarrow> length (record_bytes r) < 260"
  by (cases r) auto

lemma hex_lines_record:
  assumes t: "hex_text t (record_bytes r @ [- sum_list (record_bytes r)])" and eol: "eol = [0x0A] \<or> eol = [0x0D, 0x0A]" and fits: "record_fits r st"
  obtains buf' where "hex_lines u False (0x3A # t @ eol @ cs) buf st =
    (if end_record_seen (apply_record r st) then Inr (byte_count (apply_record r st), apply_record r st) else hex_lines u False cs buf' (apply_record r st))"
proof -
  define l where "l = 0x3A # t @ butlast eol"
  have cs: "0x3A # t @ eol @ cs = l @ 0x0A # cs" using eol by (auto simp: l_def)
  have "length l < 1023" using eol length_hex_text [OF t] length_record_bytes [OF fits] by (auto simp: l_def)
  moreover have "0x0A \<notin> set l" using eol hex_text_no_eol [OF t] by (auto simp: l_def)
  ultimately have line: "read_line 1023 (l @ 0x0A # cs) = (l @ [0x0A], cs, False)" by (intro read_line_eol)
  define buf' where "buf' = l @ 0x0A # 0 # drop (Suc (Suc (length l))) buf"
  have "hex_line r buf'" unfolding hex_line_def
    by (intro exI [of _ t] exI [of _ "butlast eol @ 0x0A # 0 # drop (Suc (Suc (length l))) buf"]) (simp add: t buf'_def l_def)
  then have "parse_hex_line u buf' st = Inr (True, apply_record r st)" using fits by (rule parse_hex_line_record)
  moreover have "hd buf' \<noteq> 0" by (simp add: buf'_def l_def)
  ultimately have "hex_lines u False (l @ 0x0A # cs) buf st =
      (if end_record_seen (apply_record r st) then Inr (byte_count (apply_record r st), apply_record r st) else hex_lines u False cs buf' (apply_record r st))"
    by (subst hex_lines.simps) (simp add: line Let_def flip: buf'_def)
  then show ?thesis using that cs by simp
qed

lemma hex_lines_file:
  assumes "hex_file rs cs" and "records_fit (extended_addr st) rs" and "\<not> end_record_seen st"
  shows "\<exists>st'. hex_lines u False cs buf st = Inr (byte_count st + int (data_bytes rs), st') \<and> memory st' = memory st ++ contents (extended_addr st) rs"
  using assms
proof (induction arbitrary: st buf rule: hex_file.induct)
  case 1
  then show ?case by (subst hex_lines.simps) simp
next
  case (2 t r eol rs cs)
  have fits: "record_fits r st" using "2.prems" by (cases r) auto
  obtain buf' where step: "hex_lines u False (0x3A # t @ eol @ cs) buf st =
    (if end_record_seen (apply_record r st) then Inr (byte_count (apply_record r st), apply_record r st) else hex_lines u False cs buf' (apply_record r st))"
    using "2.hyps"(1,2) fits by (rule hex_lines_record)
  show ?case
  proof (cases r)
    case EndOfFile
    then show ?thesis using step by simp
  next
    case (Data a bs)
    then show ?thesis using step "2.IH" [of "apply_record r st" buf'] "2.prems" by (simp add: memory_put_data add.assoc)
  qed (use step "2.IH" [of "apply_record r st" buf'] "2.prems" in simp_all)
qed

section \<open>Staying inside the arrays\<close>

lemma hex_data_loop_in_bounds:
  assumes "unat base + nat len \<le> MAX_MEMORY_SIZE" and "int num \<le> len" and "num < 256"
  shows "hex_data_loop base len num csum ptr st \<noteq> Inl e"
  using assms
proof (induction base len num csum ptr st rule: hex_data_loop.induct)
  case (1 base len num csum ptr st)
  show ?case
  proof (cases "int num = len")
    case True
    then show ?thesis by (simp add: hex_data_loop.simps)
  next
    case False
    then have less: "unat base + num < MAX_MEMORY_SIZE" using "1.prems" by linarith
    have k: "unat (base + of_nat num) = unat base + num"
      using less by (subst unat_add_lem [THEN iffD1]) (simp_all add: unat_of_nat MAX_MEMORY_SIZE_def)
    have "hex_data_loop base len (Suc num) (csum + i mod 256) (drop 2 ptr) (st\<lparr>firmware_image := (firmware_image st)(unat base + num := word_of_int (i mod 256)),
        firmware_mask := (firmware_mask st)(unat base + num := True)\<rparr>) \<noteq> Inl e" if "sscanf_x 2 ptr = Scan_Ok i" "Suc num < 256" for i
      using "1.IH" [OF False that(1) refl refl _ refl] "1.prems" False that less by (simp add: k)
    then show ?thesis using False less k by (subst hex_data_loop.simps) (auto simp: Let_def split: scan.split)
  qed
qed

lemma parse_in_bounds:
  assumes len: "\<And>l. scan_var 2 (drop 1 line) (junk_len u) = Some l \<Longrightarrow> 0 \<le> l \<and> l < 256"
    and addr: "\<And>a. scan_var 4 (drop 3 line) (junk_addr u) = Some a \<Longrightarrow> 0 \<le> a \<and> a < 0x10000"
    and ext: "unat (extended_addr st) \<le> 0xFFFF0"
  shows "parse_hex_line u line st \<noteq> Inl e"
proof -
  have "hex_data_loop (word_of_int a + extended_addr st) l 0 csum ptr st' \<noteq> Inl e"
    if l: "scan_var 2 (drop 1 line) (junk_len u) = Some l" and a: "scan_var 4 (drop 3 line) (junk_addr u) = Some a"
      and fit: "\<not> MAX_MEMORY_SIZE \<le> unat (word_of_int a + extended_addr st + word_of_int l)" for l a csum ptr st'
  proof (rule hex_data_loop_in_bounds)
    have w: "unat (word_of_int x :: u32) = nat x" if "0 \<le> x" "x < 0x10000" for x
      using that by (simp add: unat_eq_nat_uint uint_word_of_int_eq take_bit_int_eq_self)
    have b: "unat (word_of_int a + extended_addr st) = nat a + unat (extended_addr st)"
      using addr [OF a] ext by (subst unat_add_lem [THEN iffD1]) (auto simp: w)
    then have "unat (word_of_int a + extended_addr st + word_of_int l) = nat a + unat (extended_addr st) + nat l"
      using len [OF l] addr [OF a] ext by (subst unat_add_lem [THEN iffD1]) (auto simp: w)
    then show "unat (word_of_int a + extended_addr st) + nat l \<le> MAX_MEMORY_SIZE" using b fit by simp
    show "int 0 \<le> l" "0 < (256 :: nat)" using len [OF l] by simp_all
  qed
  then show ?thesis unfolding parse_hex_line_def
    by (auto simp: Let_def split: option.split sum.split)
qed

lemmas reader_defs = parse_hex_line_def strlen_def c_str_def scan_var_def sscanf_x_def c_space_def scan_sign_def scan_prefix_def xdigit_def hex_number_def
  ihex_init_def MAX_MEMORY_SIZE_def hex_data_loop.simps

text \<open>C39: The reader of HEX files stays inside its two arrays of 64 KB if the length field and the address field of a line are numbers without a sign
  and the extended address comes from a segment record. A length field with a minus sign passes the check of the bounds and makes the reader write
  behind the arrays, and so does a linear address record with the upper half \<^verbatim>\<open>FFFF\<close>, which makes the sum in the check wrap around.\<close>

theorem hex_reader_bounds:
  "((\<forall>l. scan_var 2 (drop 1 line) (junk_len u) = Some l \<longrightarrow> 0 \<le> l \<and> l < 256) \<and>
    (\<forall>a. scan_var 4 (drop 3 line) (junk_addr u) = Some a \<longrightarrow> 0 \<le> a \<and> a < 0x10000) \<and> unat (extended_addr st) \<le> 0xFFFF0 \<longrightarrow>
    (\<exists>ok st'. parse_hex_line u line st = Inr (ok, st'))) \<and>
   parse_hex_line u (map of_char '':-1FFFF000102'' @ [0]) ihex_init = Inl (OutOfBounds 0x10000) \<and>
   parse_hex_line u (map of_char '':02000004FFFFFC'' @ [0]) ihex_init = Inr (True, ihex_init\<lparr>extended_addr := 0xFFFF0000\<rparr>) \<and>
   parse_hex_line u (map of_char '':01FFFF00AA57'' @ [0]) (ihex_init\<lparr>extended_addr := 0xFFFF0000\<rparr>) = Inl (OutOfBounds 0xFFFFFFFF)"
proof (intro conjI impI)
  assume "(\<forall>l. scan_var 2 (drop 1 line) (junk_len u) = Some l \<longrightarrow> 0 \<le> l \<and> l < 256) \<and>
    (\<forall>a. scan_var 4 (drop 3 line) (junk_addr u) = Some a \<longrightarrow> 0 \<le> a \<and> a < 0x10000) \<and> unat (extended_addr st) \<le> 0xFFFF0"
  then have "parse_hex_line u line st \<noteq> Inl e" for e using parse_in_bounds by blast
  then show "\<exists>ok st'. parse_hex_line u line st = Inr (ok, st')" by (cases "parse_hex_line u line st") auto
next
  show "parse_hex_line u (map of_char '':-1FFFF000102'' @ [0]) ihex_init = Inl (OutOfBounds 0x10000)"
    by (simp add: reader_defs)
next
  show "parse_hex_line u (map of_char '':02000004FFFFFC'' @ [0]) ihex_init = Inr (True, ihex_init\<lparr>extended_addr := 0xFFFF0000\<rparr>)"
    by (simp add: reader_defs hex_extended_def)
next
  show "parse_hex_line u (map of_char '':01FFFF00AA57'' @ [0]) (ihex_init\<lparr>extended_addr := 0xFFFF0000\<rparr>) = Inl (OutOfBounds 0xFFFFFFFF)"
    by (simp add: reader_defs)
qed

theorem hex_reader_bounds_witness:
  "\<exists>ok st'. parse_hex_line \<lparr>junk_len = 0, junk_addr = 0, junk_code = 0, junk_i = 0, junk_cksum = 0\<rparr> (map of_char '':00000001FF'' @ [0]) ihex_init = Inr (ok, st')"
proof -
  let ?line = "map of_char '':00000001FF'' @ [0]"
  have "scan_var 2 (drop 1 ?line) 0 = Some 0" "scan_var 4 (drop 3 ?line) 0 = Some 0" "unat (extended_addr ihex_init) = 0" by (simp_all add: reader_defs)
  then show ?thesis
    using hex_reader_bounds [of ?line "\<lparr>junk_len = 0, junk_addr = 0, junk_code = 0, junk_i = 0, junk_cksum = 0\<rparr>" ihex_init] by simp
qed

end
