(* ===== verification/FlashProgramming.thy ===== *)
theory FlashProgramming
  imports BootloaderHID IntelHex
begin

text \<open>
  From a HEX file to the flash memory: the reader and the block loop of the host program (theory \<open>IntelHex\<close>) together with the
  boot loader on the device (theory \<open>BootloaderHID\<close>). The flash controller is a parameter, \<open>run ops f\<close> being the content of
  the flash memory after the operations \<open>ops\<close>; what the data sheet says of it is the hypothesis \<open>flash_controller\<close>.
\<close>

subsection \<open>The flash controller\<close>

type_synonym flash = "nat \<Rightarrow> u8"

definition page_ops :: "boot_target \<Rightarrow> nat \<Rightarrow> u8 list \<Rightarrow> spm_op list" where
  "page_ops c a bs = [Page_Erase a, Busy_Wait] @ fill_ops c a 0 bs @ [Page_Write a, Busy_Wait, RWW_Enable]"

definition put_page :: "nat \<Rightarrow> u8 list \<Rightarrow> flash \<Rightarrow> flash" where
  "put_page a bs f i = (if a \<le> i \<and> i < a + length bs then bs ! (i - a) else f i)"

text \<open>Erasing a page, filling the buffer with all its words and writing it stores the words in the page.\<close>

definition flash_controller :: "boot_target \<Rightarrow> (spm_op list \<Rightarrow> flash \<Rightarrow> flash) \<Rightarrow> bool" where
  "flash_controller c run \<longleftrightarrow> (\<forall>f. run [] f = f) \<and>
     (\<forall>a bs ops f. a mod SPM_PAGESIZE c = 0 \<longrightarrow> length bs = SPM_PAGESIZE c \<longrightarrow> a + SPM_PAGESIZE c \<le> 0x10000 \<longrightarrow>
        run (page_ops c a bs @ ops) f = run ops (put_page a bs f))"

subsection \<open>The blocks of the host program\<close>

text \<open>The addresses of the blocks the program sends for a memory of \<open>n\<close> pages of \<open>P\<close> bytes.\<close>

definition page_used :: "nat \<Rightarrow> ihex \<Rightarrow> nat \<Rightarrow> bool" where
  "page_used P st a \<longleftrightarrow> (a > 0 \<longrightarrow> ihex_bytes_within_range (int a) (int a + int P - 1) st)"

definition sent_pages :: "nat \<Rightarrow> nat \<Rightarrow> nat \<Rightarrow> ihex \<Rightarrow> nat list" where
  "sent_pages P k n st = filter (page_used P st) (map (\<lambda>j. j * P) [k..<n])"

lemma program_blocks_from:
  assumes "0 < P" and "k \<le> n"
  shows "program_blocks (\<lambda>_ _. True) (n * P) P st (k * P) h =
    Some (h @ map (\<lambda>a. block_buf (n * P) P a st) (sent_pages P k n st), True)"
  using assms(2)
proof (induction "n - k" arbitrary: k h)
  case 0
  then show ?case by (subst program_blocks.simps) (simp add: sent_pages_def)
next
  case (Suc d)
  then have k: "k < n" by simp
  then have "k * P < n * P" using assms(1) by simp
  moreover have "k * P + P = Suc k * P" by simp
  moreover have "[k..<n] = k # [Suc k..<n]" using k by (simp add: upt_conv_Cons)
  ultimately show ?case using Suc.hyps(1) [of "Suc k"] Suc.hyps(2) k assms(1)
    by (subst program_blocks.simps) (auto simp: Let_def sent_pages_def page_used_def simp del: mult_Suc)
qed

lemma loader_main_reports:
  assumes "code_size opt = n * block_size opt" and "0 < block_size opt"
  shows "loader_main (\<lambda>_ _. True) opt st =
    Some (map (\<lambda>a. block_buf (code_size opt) (block_size opt) a st) (sent_pages (block_size opt) 0 n st) @
      (if reboot_after_programming opt then [reboot_buf (block_size opt)] else []), True)"
  using program_blocks_from [of "block_size opt" 0 n st "[]"] assms by (simp add: loader_main_def)

definition byte_at :: "ihex \<Rightarrow> nat \<Rightarrow> u8" where
  "byte_at st i = (case memory st i of None \<Rightarrow> 0xFF | Some b \<Rightarrow> b)"

lemma ihex_get_data_bytes:
  assumes "a + P < 0x10000"
  shows "ihex_get_data (int a) P st = map (byte_at st) [a..<a + P]"
  using assms by (auto simp: ihex_get_data_def MAX_MEMORY_SIZE_def byte_at_def memory_def)

lemma page_used_memory:
  assumes "a + P < 0x10000" and "0 < P"
  shows "page_used P st a \<longleftrightarrow> a = 0 \<or> (\<exists>i. a \<le> i \<and> i < a + P \<and> memory st i \<noteq> None)"
proof -
  have "nat (int a + int P - 1) + 1 = a + P" using assms(2) by linarith
  then show ?thesis using assms
    by (auto simp: page_used_def ihex_bytes_within_range_def MAX_MEMORY_SIZE_def memory_def list_ex_iff)
qed

subsection \<open>The effect of the reports\<close>

lemma report_page_block:
  assumes "a < 0x10000" and "n < 0x10000"
  shows "report_page (block_buf n P a st) = of_nat a"
proof -
  have "(of_nat (a mod 256) :: u8) = lo8 (of_nat a)" "(of_nat (a div 256 mod 256) :: u8) = hi8 (of_nat a)"
    using assms(1) by (auto simp: word_unat_eq_iff unat_lo8 unat_hi8 unat_of_nat)
  then show ?thesis using assms(2) by (simp add: report_page_def block_buf_def)
qed

lemma report_ops_block:
  assumes "FLASHEND c \<le> 0xFFFF" and "a + P \<le> n" and "n < 0x10000" and "0 < P"
  shows "report_ops c (block_buf n P a st) = (if a < BOOT_START_ADDR c then page_ops c a (map (byte_at st) [a..<a + P]) else [])"
proof -
  have a: "a < 0x10000" "a \<noteq> 0xFFFF" using assms by simp_all
  have page: "report_page (block_buf n P a st) = of_nat a" using a assms(3) by (intro report_page_block) simp_all
  have "unat (of_nat a :: u16) = a" using a by (simp add: unat_of_nat_u16)
  moreover from this have "(of_nat a :: u16) \<noteq> COMMAND_STARTAPPLICATION" using a(2) by (auto simp: COMMAND_STARTAPPLICATION_def)
  moreover have "drop 2 (block_buf n P a st) = map (byte_at st) [a..<a + P]"
    using assms by (simp add: block_buf_def ihex_get_data_bytes)
  ultimately show ?thesis using assms(1) by (simp add: report_ops_def page page_ops_def page_address_def Let_def)
qed

lemma run_pages:
  assumes "flash_controller c run" and "\<forall>a \<in> set as. a mod SPM_PAGESIZE c = 0 \<and> a + SPM_PAGESIZE c \<le> 0x10000"
  shows "run (concat (map (\<lambda>a. if a < BOOT_START_ADDR c then page_ops c a (map g [a..<a + SPM_PAGESIZE c]) else []) as)) f =
    (\<lambda>i. if \<exists>a \<in> set as. a < BOOT_START_ADDR c \<and> a \<le> i \<and> i < a + SPM_PAGESIZE c then g i else f i)"
  using assms(2)
proof (induction as arbitrary: f)
  case Nil
  then show ?case using assms(1) by (simp add: flash_controller_def)
next
  case (Cons a as)
  let ?P = "SPM_PAGESIZE c" and ?bs = "map g [a..<a + SPM_PAGESIZE c]"
  have "run (page_ops c a ?bs @ ops) f = run ops (put_page a ?bs f)" for ops
    using assms(1) Cons.prems by (simp add: flash_controller_def)
  moreover have "put_page a ?bs f i = (if a \<le> i \<and> i < a + ?P then g i else f i)" for i
    by (auto simp: put_page_def less_diff_conv2)
  ultimately show ?case using Cons by (auto simp: fun_eq_iff)
qed

subsection \<open>A session with the boot loader\<close>

text \<open>The boot loader receives each report in a run of its handler. Between the runs it may do anything that does not concern
  the flash controller and the variable \<^verbatim>\<open>RunBootloader\<close>.\<close>

inductive session :: "boot_target \<Rightarrow> u8 list list \<Rightarrow> bootloader \<Rightarrow> bootloader \<Rightarrow> bool" for c where
  "session c [] s s"
| "spm s1 = spm s \<Longrightarrow> RunBootloader s1 = RunBootloader s \<Longrightarrow> is_SetReport s1 \<Longrightarrow> EVENT_USB_Device_ControlRequest_boot c w s1 = Some s2 \<Longrightarrow>
   taken s1 s2 = take m r \<Longrightarrow> session c rs s2 s3 \<Longrightarrow> session c (r # rs) s s3"

inductive_cases session_NilE: "session c [] s s'"
inductive_cases session_ConsE: "session c (r # rs) s s'"

lemma session_effect:
  assumes "session c rs s s'" and "SPM_PAGESIZE c div 2 < 256" and "\<forall>r \<in> set rs. length r = 2 + 2 * (SPM_PAGESIZE c div 2)"
  shows "spm s' = spm s @ concat (map (report_ops c) rs) \<and>
    RunBootloader s' = (RunBootloader s \<and> (\<forall>r \<in> set rs. report_page r \<noteq> COMMAND_STARTAPPLICATION))"
  using assms(1,3)
proof (induction rule: session.induct)
  case (2 s1 s w s2 m r rs s3)
  obtain bs where bs: "served w bs (report_ops c bs) (s1\<lparr>RunBootloader := RunBootloader s1 \<and> report_page bs \<noteq> COMMAND_STARTAPPLICATION\<rparr>) s2"
    "length bs = (if report_ops c bs = [] then 2 else 2 + 2 * (SPM_PAGESIZE c div 2))"
    using SetReport_serves [OF "2.hyps"(4,3) assms(2)] by blast
  have "bs = take m r" using served_taken [OF bs(1)] "2.hyps"(5) by (simp add: taken_def)
  then have r: "report_ops c bs = report_ops c r" "report_page bs = report_page r"
    using report_ops_take [of bs m r "SPM_PAGESIZE c div 2" c] bs(2) "2.prems" by auto
  have "spm s2 = spm s1 @ report_ops c r" "RunBootloader s2 = (RunBootloader s1 \<and> report_page r \<noteq> COMMAND_STARTAPPLICATION)"
    using bs(1) unfolding served_def r by auto
  then show ?case using 2 by auto
qed simp

lemma session_possible:
  assumes "SPM_PAGESIZE c div 2 < 256" and "\<forall>r \<in> set rs. length r = 2 + 2 * (SPM_PAGESIZE c div 2)"
  shows "\<exists>s'. session c rs s s'"
  using assms(2)
proof (induction rs arbitrary: s)
  case Nil
  then show ?case by (blast intro: session.intros)
next
  case (Cons r rs)
  define s1 where "s1 = s\<lparr>USB_ControlRequest := \<lparr>bmRequestType = 0x21, bRequest = HID_REQ_SetReport, wValue = 0x0200, wIndex = 0, wLength = of_nat (length r)\<rparr>\<rparr>"
  have "is_SetReport s1" by (simp add: s1_def is_SetReport_def CONTROL_REQTYPE_TYPE_def request_defs)
  moreover from this obtain w s2 m where "EVENT_USB_Device_ControlRequest_boot c w s1 = Some s2" "taken s1 s2 = take m r"
    using SetReport_delivers [of s1 r c] Cons.prems assms(1) by auto
  moreover obtain s3 where "session c rs s2 s3" using Cons by auto
  ultimately have "session c (r # rs) s s3" by (intro session.intros(2)) (simp_all add: s1_def)
  then show ?case by blast
qed

subsection \<open>An example controller\<close>

text \<open>A controller with a page buffer, on which the hypothesis holds.\<close>

fun spm_step :: "nat \<Rightarrow> spm_op \<Rightarrow> flash \<times> (nat \<Rightarrow> u8) \<Rightarrow> flash \<times> (nat \<Rightarrow> u8)" where
  "spm_step P (Page_Erase a) (f, buf) = (\<lambda>i. if i div P = a div P then 0xFF else f i, buf)"
| "spm_step P (Page_Fill a v) (f, buf) = (f, buf(a mod P := lo8 v, a mod P + 1 := hi8 v))"
| "spm_step P (Page_Write a) (f, buf) = (\<lambda>i. if i div P = a div P then buf (i mod P) else f i, buf)"
| "spm_step P Busy_Wait (f, buf) = (f, buf)"
| "spm_step P RWW_Enable (f, buf) = (f, \<lambda>_. 0xFF)"

definition spm_run :: "nat \<Rightarrow> spm_op list \<Rightarrow> flash \<Rightarrow> flash" where
  "spm_run P ops f = fst (fold (spm_step P) ops (f, \<lambda>_. 0xFF))"

lemma fill_ops_buffer:
  assumes "even (length bs)" and "2 * unat k + length bs \<le> P" and "a mod P = 0" and "a + P \<le> 0x10000" and "P \<le> 256"
  shows "fold (spm_step P) (fill_ops c a k bs) (f, buf) =
    (f, \<lambda>i. if 2 * unat k \<le> i \<and> i < 2 * unat k + length bs then bs ! (i - 2 * unat k) else buf i)"
  using assms
proof (induction c a k bs arbitrary: buf rule: fill_ops.induct)
  case (1 c a k b0 b1 bs)
  have k: "unat (k + 1) = unat k + 1" using "1.prems" by (subst unat_word_ariths) simp
  have "fill_address c a k = a + 2 * unat k" using "1.prems" by (auto simp: fill_address_def)
  moreover have "(a + 2 * unat k) mod P = 2 * unat k"
    using "1.prems" by (metis add_0 add_lessD1 le_add1 le_less_trans length_Cons less_add_same_cancel1 mod_add_left_eq mod_less not_le zero_less_Suc)
  ultimately have a: "fill_address c a k mod P = 2 * unat k" by simp
  let ?buf = "buf(2 * unat k := b0, 2 * unat k + 1 := b1)"
  have "fold (spm_step P) (fill_ops c a k (b0 # b1 # bs)) (f, buf) = fold (spm_step P) (fill_ops c a (k + 1) bs) (f, ?buf)"
    by (simp add: a)
  also have "\<dots> = (f, \<lambda>i. if 2 * unat (k + 1) \<le> i \<and> i < 2 * unat (k + 1) + length bs then bs ! (i - 2 * unat (k + 1)) else ?buf i)"
    by (rule "1.IH") (use "1.prems" k in auto)
  also have "(\<lambda>i. if 2 * unat (k + 1) \<le> i \<and> i < 2 * unat (k + 1) + length bs then bs ! (i - 2 * unat (k + 1)) else ?buf i) =
    (\<lambda>i. if 2 * unat k \<le> i \<and> i < 2 * unat k + length (b0 # b1 # bs) then (b0 # b1 # bs) ! (i - 2 * unat k) else buf i)"
    unfolding k by (auto simp: fun_eq_iff nth_Cons' Suc_diff_le)
  finally show ?case .
qed (auto simp: fun_eq_iff)

lemma same_page: "0 < P \<Longrightarrow> a mod P = 0 \<Longrightarrow> i div P = a div P \<longleftrightarrow> a \<le> i \<and> i < a + (P :: nat)"
proof -
  assume P: "0 < P" and "a mod P = 0"
  then obtain q where a: "a = q * P" by (auto elim: dvdE simp: mult.commute)
  show ?thesis
  proof
    assume "i div P = a div P"
    then have q: "i div P = q" using a P by simp
    have "i = q * P + i mod P" using q div_mult_mod_eq [of i P] by simp
    moreover have "i mod P < P" using P by simp
    ultimately show "a \<le> i \<and> i < a + P" unfolding a by linarith
  next
    assume "a \<le> i \<and> i < a + P"
    then have "i div P = q" using a by (intro div_nat_eqI) (simp_all add: mult.commute)
    then show "i div P = a div P" using a P by simp
  qed
qed

lemma spm_run_controller:
  assumes "even (SPM_PAGESIZE c)" and "SPM_PAGESIZE c \<le> 256" and "0 < SPM_PAGESIZE c"
  shows "flash_controller c (spm_run (SPM_PAGESIZE c))"
proof -
  let ?P = "SPM_PAGESIZE c"
  have "fold (spm_step ?P) (page_ops c a bs) (f, \<lambda>_. 0xFF) = (put_page a bs f, \<lambda>_. 0xFF)"
    if "a mod ?P = 0" "length bs = ?P" "a + ?P \<le> 0x10000" for a bs f
  proof -
    have "i mod ?P = i - a" if "i div ?P = a div ?P" for i
      using that \<open>a mod ?P = 0\<close> by (metis add.commute add_cancel_right_right diff_add_inverse2 mod_mult_div_eq mult_div_mod_eq)
    then show ?thesis using fill_ops_buffer [of bs 0 ?P a c] that assms
      by (auto simp: page_ops_def put_page_def same_page fun_eq_iff)
  qed
  then show ?thesis by (simp add: flash_controller_def spm_run_def)
qed

subsection \<open>From the file to the flash memory\<close>

text \<open>The options fit the chip: its flash memory has fewer than 64 KB and consists of pages of the size the host program uses, and the
  boot section starts at a page.\<close>

definition fits_chip :: "boot_target \<Rightarrow> loader_options \<Rightarrow> bool" where
  "fits_chip c opt \<longleftrightarrow> FLASHEND c \<le> 0xFFFF \<and> 0 < SPM_PAGESIZE c \<and> SPM_PAGESIZE c \<le> 256 \<and> even (SPM_PAGESIZE c) \<and>
     block_size opt = SPM_PAGESIZE c \<and> code_size opt < 0x10000 \<and> code_size opt mod SPM_PAGESIZE c = 0 \<and>
     BOOT_START_ADDR c mod SPM_PAGESIZE c = 0 \<and> 0 < BOOT_START_ADDR c \<and> BOOT_START_ADDR c \<le> code_size opt"

text \<open>The memory with the content \<open>m\<close> programmed below the boot section: a page with data, and always the first one, is rewritten
  with its data and \<^verbatim>\<open>0xFF\<close> elsewhere.\<close>

definition programmed :: "boot_target \<Rightarrow> (nat \<rightharpoonup> u8) \<Rightarrow> flash \<Rightarrow> flash" where
  "programmed c m f i =
     (let P = SPM_PAGESIZE c; a = i div P * P in
      if i < BOOT_START_ADDR c \<and> (a = 0 \<or> list_ex (\<lambda>j. m j \<noteq> None) [a..<a + P]) then case m i of None \<Rightarrow> 0xFF | Some b \<Rightarrow> b else f i)"

lemma programmed_pages:
  assumes fits: "fits_chip c opt"
  shows "(\<lambda>i. if \<exists>a \<in> set (sent_pages (SPM_PAGESIZE c) 0 (code_size opt div SPM_PAGESIZE c) st). a < BOOT_START_ADDR c \<and> a \<le> i \<and> i < a + SPM_PAGESIZE c
      then byte_at st i else f i) = programmed c (memory st) f"
proof
  fix i
  let ?P = "SPM_PAGESIZE c" and ?n = "code_size opt div SPM_PAGESIZE c" and ?a = "i div SPM_PAGESIZE c * SPM_PAGESIZE c"
  have P: "0 < ?P" "BOOT_START_ADDR c mod ?P = 0" "BOOT_START_ADDR c \<le> ?n * ?P" "?n * ?P < 0x10000"
    using fits by (auto simp: fits_chip_def)
  have page: "j * ?P \<le> i \<and> i < j * ?P + ?P \<longleftrightarrow> j = i div ?P" for j
    using same_page [OF P(1), of "j * ?P" i] P(1) by auto
  obtain q where q: "BOOT_START_ADDR c = q * ?P" using P(2) by (metis dvd_def mod_0_imp_dvd mult.commute)
  have boot: "?a < BOOT_START_ADDR c \<longleftrightarrow> i < BOOT_START_ADDR c"
    using P(1) by (simp add: q flip: div_less_iff_less_mult)
  have used: "page_used ?P st ?a \<longleftrightarrow> ?a = 0 \<or> list_ex (\<lambda>j. memory st j \<noteq> None) [?a..<?a + ?P]" if "i div ?P < ?n"
  proof -
    have "Suc (i div ?P) * ?P \<le> ?n * ?P" using that by (intro mult_le_mono1) simp
    then have "?a + ?P < 0x10000" using P(4) by simp
    from page_used_memory [OF this P(1)] show ?thesis by (auto simp: list_ex_iff)
  qed
  have less: "i div ?P < ?n" if "i < BOOT_START_ADDR c"
    using that P by (simp add: div_less_iff_less_mult)
  have "(\<exists>a \<in> set (sent_pages ?P 0 ?n st). a < BOOT_START_ADDR c \<and> a \<le> i \<and> i < a + ?P) \<longleftrightarrow>
      i < BOOT_START_ADDR c \<and> page_used ?P st ?a"
    using less page boot by (auto simp: sent_pages_def)
  then show "(if \<exists>a \<in> set (sent_pages ?P 0 ?n st). a < BOOT_START_ADDR c \<and> a \<le> i \<and> i < a + ?P then byte_at st i else f i) = programmed c (memory st) f i"
    using used less by (auto simp: programmed_def byte_at_def Let_def)
qed

lemma length_reports:
  "length (block_buf n P a st) = 2 + P" "length (reboot_buf P) = 2 + P"
  by (simp_all add: block_buf_def reboot_buf_def ihex_get_data_def)

lemma report_page_reboot: "report_page (reboot_buf P) = COMMAND_STARTAPPLICATION"
  by (simp add: report_page_def reboot_buf_def COMMAND_STARTAPPLICATION_def join16_def)

lemma sent_pages_bounds:
  assumes "a \<in> set (sent_pages P 0 n st)"
  shows "a mod P = 0" and "a + P \<le> n * P"
proof -
  have "a \<in> (\<lambda>j. j * P) ` {0..<n}" using assms by (auto simp: sent_pages_def)
  then obtain j where j: "a = j * P" "j < n" by (elim imageE) (rule that, simp_all)
  then have "Suc j * P \<le> n * P" by (intro mult_le_mono1) simp
  then show "a mod P = 0" "a + P \<le> n * P" using j by simp_all
qed

lemma reports_effect:
  assumes fits: "fits_chip c opt" and hw: "flash_controller c run" and reports: "loader_main (\<lambda>_ _. True) opt st = Some (reports, True)"
  shows "\<forall>r \<in> set reports. length r = 2 + 2 * (SPM_PAGESIZE c div 2)"
    and "run (concat (map (report_ops c) reports)) f = programmed c (memory st) f"
    and "(\<exists>r \<in> set reports. report_page r = COMMAND_STARTAPPLICATION) \<longleftrightarrow> reboot_after_programming opt"
proof -
  define P where "P = SPM_PAGESIZE c"
  define n where "n = code_size opt div P"
  have c: "FLASHEND c \<le> 0xFFFF" "0 < P" "even P" "block_size opt = P" "code_size opt = n * P" "n * P < 0x10000"
    using fits by (auto simp: fits_chip_def P_def n_def)
  have r: "reports = map (\<lambda>a. block_buf (n * P) P a st) (sent_pages P 0 n st) @ (if reboot_after_programming opt then [reboot_buf P] else [])"
    using reports loader_main_reports [of opt n st, unfolded c(4)] c(2,5) by simp
  show "\<forall>r \<in> set reports. length r = 2 + 2 * (SPM_PAGESIZE c div 2)" using c(3) by (auto simp: r length_reports simp flip: P_def)
  have bounds: "a mod P = 0 \<and> a + P \<le> 0x10000" "a + P \<le> n * P" if "a \<in> set (sent_pages P 0 n st)" for a
    using sent_pages_bounds [OF that] c(6) by auto
  have block: "report_ops c (block_buf (n * P) P a st) = (if a < BOOT_START_ADDR c then page_ops c a (map (byte_at st) [a..<a + P]) else [])"
    if "a \<in> set (sent_pages P 0 n st)" for a using bounds [OF that] c by (intro report_ops_block) simp_all
  have "map (report_ops c) (map (\<lambda>a. block_buf (n * P) P a st) (sent_pages P 0 n st)) =
      map (\<lambda>a. if a < BOOT_START_ADDR c then page_ops c a (map (byte_at st) [a..<a + P]) else []) (sent_pages P 0 n st)"
    unfolding map_map o_def using block by (intro map_cong) simp_all
  moreover have "report_ops c (reboot_buf P) = []" by (simp add: report_ops_def report_page_reboot)
  ultimately have "concat (map (report_ops c) reports) =
      concat (map (\<lambda>a. if a < BOOT_START_ADDR c then page_ops c a (map (byte_at st) [a..<a + P]) else []) (sent_pages P 0 n st))"
    by (simp add: r del: map_map)
  then show "run (concat (map (report_ops c) reports)) f = programmed c (memory st) f"
    using run_pages [OF hw, of "sent_pages P 0 n st" "byte_at st" f, folded P_def] programmed_pages [OF fits, of st f, folded P_def, folded n_def] bounds(1)
    by simp
  have "report_page (block_buf (n * P) P a st) \<noteq> COMMAND_STARTAPPLICATION" if "a \<in> set (sent_pages P 0 n st)" for a
  proof -
    have a: "a < 0xFFFF" using bounds(2) [OF that] c(2,6) by linarith
    then have "unat (report_page (block_buf (n * P) P a st)) = a" using c(6) by (simp add: report_page_block unat_of_nat_u16)
    then show ?thesis using a by (auto simp: COMMAND_STARTAPPLICATION_def)
  qed
  then show "(\<exists>r \<in> set reports. report_page r = COMMAND_STARTAPPLICATION) \<longleftrightarrow> reboot_after_programming opt"
    by (auto simp: r report_page_reboot)
qed

lemma fits_chip_words: "fits_chip c opt \<Longrightarrow> SPM_PAGESIZE c div 2 < 256"
  by (auto simp: fits_chip_def)

text \<open>C2: A HEX file ends up in the flash memory. Let the host program be started with the name of a HEX file whose records fit and with the type of a chip with less than 64 KB of
  flash memory, let the boot loader be there and every write succeed. Then the program ends without error after it has written some reports; the boot loader can receive every one of them;
  and however it received them, the flash memory below the boot section holds the bytes of the file afterwards, with \<^verbatim>\<open>0xFF\<close> in the rest
  of the pages that were rewritten, while all other pages and the boot section are as before. The boot loader goes on running if and only if the
  host program was told not to start the application.\<close>

theorem hex_file_programmed:
  assumes "hex_file rs cs" and "records_fit 0 rs" and "parse_options args loader_options_init = Some opt" and "hex_filename opt \<noteq> None" and "fits_chip c opt"
    and "env_file e False = Some cs" and "\<not> env_stdin_eof e" and "env_open e 0" and "env_write e = (\<lambda>_ _. True)" and "flash_controller c run"
  shows "\<exists>reports. loader_program e args = Some (Inr (Exit_0 reports)) \<and>
    (\<forall>s. \<exists>s'. session c reports s s') \<and>
    (\<forall>s s' f. session c reports s s' \<longrightarrow>
      run (drop (length (spm s)) (spm s')) f = programmed c (contents 0 rs) f \<and>
      RunBootloader s' = (RunBootloader s \<and> \<not> reboot_after_programming opt))"
proof -
  have "memory ihex_init = Map.empty" by (simp add: memory_def ihex_init_def fun_eq_iff)
  then obtain st where st: "read_intel_hex (env_locals e) False (env_buf e) (Some cs) = Inr (int (data_bytes rs), st)" "memory st = contents 0 rs"
    using hex_lines_file [of rs cs ihex_init "env_locals e" "env_buf e"] assms(1,2) by (auto simp: read_intel_hex_def ihex_init_def)
  have size: "code_size opt = code_size opt div block_size opt * block_size opt" "0 < block_size opt" using assms(5) by (auto simp: fits_chip_def)
  from loader_main_reports [OF this] obtain reports where r: "loader_main (\<lambda>_ _. True) opt st = Some (reports, True)" by blast
  have "iterate (open_turn e) (0, opt, False) = Some (Some False)" using assms(8) by (intro iterate_stop) (simp add: open_turn_def)
  moreover have "code_size opt \<noteq> 0" using assms(5) by (auto simp: fits_chip_def)
  ultimately have prog: "loader_program e args = Some (Inr (Exit_0 reports))"
    using assms st r by (simp add: loader_program_def)
  note e = reports_effect [OF assms(5,10) r] and P = fits_chip_words [OF assms(5)]
  show ?thesis
  proof (intro exI [of _ reports] conjI allI impI)
    show "loader_program e args = Some (Inr (Exit_0 reports))" by (rule prog)
    show "\<exists>s'. session c reports s s'" for s using session_possible [OF P e(1)] .
    show "run (drop (length (spm s)) (spm s')) f = programmed c (contents 0 rs) f" if "session c reports s s'" for s s' f
      using session_effect [OF that P e(1)] e(2) st(2) by simp
    show "RunBootloader s' = (RunBootloader s \<and> \<not> reboot_after_programming opt)" if "session c reports s s'" for s s'
      using session_effect [OF that P e(1)] e(3) by auto
  qed
qed

text \<open>A file with one byte for an ATmega16U2 with a boot section of 4 KB.\<close>

definition example_records :: "hex_record list" where
  "example_records = [Data 0 [0x41], EndOfFile]"

definition example_file :: "u8 list" where
  "example_file = map of_char '':0100000041BE'' @ [0x0D, 0x0A] @ map of_char '':00000001FF'' @ [0x0A]"

definition example_chip :: boot_target where
  "example_chip = \<lparr>FLASHEND = 0x3FFF, BOOT_START_ADDR = 0x3000, SPM_PAGESIZE = 128\<rparr>"

definition example_args :: "u8 list list" where
  "example_args = [map of_char ''-mmcu=atmega16u2'', map of_char ''a.hex'']"

definition example_options :: loader_options where
  "example_options = loader_options_init\<lparr>code_size := 16384, block_size := 128, hex_filename := Some (map of_char ''a.hex'')\<rparr>"

definition example_env :: loader_env where
  "example_env = \<lparr>env_open = (\<lambda>_. True), env_reboot = False, env_write = (\<lambda>_ _. True), env_file = (\<lambda>_. Some example_file), env_stdin_eof = False,
     env_locals = \<lparr>junk_len = 0, junk_addr = 0, junk_code = 0, junk_i = 0, junk_cksum = 0\<rparr>, env_buf = []\<rparr>"

definition boot_init :: bootloader where
  "boot_init = usb.extend usb_init \<lparr>RunBootloader = True, MagicBootKey = 0, spm = []\<rparr>"

lemma boot_init_simps [simp]: "spm boot_init = []" "RunBootloader boot_init"
  by (simp_all add: boot_init_def usb.defs)

lemma example_options_parse: "parse_options example_args loader_options_init = Some example_options"
  by (simp add: parse_option_def mcu_sizes_def example_args_def example_options_def)

lemma example_hex_file: "hex_file example_records example_file"
proof -
  have digits: "xdigit 0x30 = Some 0" "xdigit 0x31 = Some 1" "xdigit 0x34 = Some 4" "xdigit 0x42 = Some 11" "xdigit 0x45 = Some 14" "xdigit 0x46 = Some 15"
    by (simp_all add: xdigit_def)
  have m1: "unat (- 1 :: u8) = 255" by code_simp
  have "hex_file [EndOfFile] (0x3A # map of_char ''00000001FF'' @ [0x0A] @ [])"
    by (intro hex_file.intros) (simp_all add: digits m1)
  then have "hex_file [Data 0 [0x41], EndOfFile] (0x3A # map of_char ''0100000041BE'' @ [0x0D, 0x0A] @ 0x3A # map of_char ''00000001FF'' @ [0x0A] @ [])"
    by (rule hex_file.intros(2) [rotated 2]) (simp_all add: digits hi8_lo8_zero)
  then show ?thesis by (simp add: example_records_def example_file_def)
qed

lemma example_fits: "records_fit 0 example_records" "fits_chip example_chip example_options" "flash_controller example_chip (spm_run 128)"
proof -
  show "records_fit 0 example_records" by (simp add: example_records_def MAX_MEMORY_SIZE_def)
  show "fits_chip example_chip example_options" by (simp add: fits_chip_def example_chip_def example_options_def)
  show "flash_controller example_chip (spm_run 128)" using spm_run_controller [of example_chip] by (simp add: example_chip_def)
qed

theorem hex_file_programmed_witness:
  "\<exists>reports s'. loader_program example_env example_args = Some (Inr (Exit_0 reports)) \<and> session example_chip reports boot_init s' \<and>
    spm_run 128 (spm s') (\<lambda>_. 0x55) 0 = 0x41 \<and> spm_run 128 (spm s') (\<lambda>_. 0x55) 1 = 0xFF \<and>
    spm_run 128 (spm s') (\<lambda>_. 0x55) 0x3000 = 0x55 \<and> \<not> RunBootloader s'"
proof -
  have env: "hex_filename example_options \<noteq> None" "env_file example_env False = Some example_file" "\<not> env_stdin_eof example_env" "env_open example_env 0"
    "env_write example_env = (\<lambda>_ _. True)" by (simp_all add: example_env_def example_options_def)
  obtain reports where r: "loader_program example_env example_args = Some (Inr (Exit_0 reports))" "\<forall>s. \<exists>s'. session example_chip reports s s'"
    and e: "\<forall>s s' f. session example_chip reports s s' \<longrightarrow>
      spm_run 128 (drop (length (spm s)) (spm s')) f = programmed example_chip (contents 0 example_records) f \<and>
      RunBootloader s' = (RunBootloader s \<and> \<not> reboot_after_programming example_options)"
    using hex_file_programmed [OF example_hex_file example_fits(1) example_options_parse env(1) example_fits(2) env(2-5) example_fits(3)] by (elim exE conjE)
  obtain s' where s': "session example_chip reports boot_init s'" using r(2) by blast
  have "spm_run 128 (spm s') f = programmed example_chip (contents 0 example_records) f" for f
    using e [rule_format, OF s', of f] by simp
  moreover have "\<not> RunBootloader s'" using e [rule_format, OF s'] by (simp add: example_options_def loader_options_init_def)
  ultimately show ?thesis using r s'
    by (intro exI [of _ reports] exI [of _ s'])
      (simp add: programmed_def example_chip_def example_records_def block_def Let_def)
qed

lemma report_ops_64K:
  assumes "FLASHEND c = 0xFFFF" and "a < 0x10000" and "256 \<le> BOOT_START_ADDR c"
  shows "\<exists>ops. report_ops c (block_buf 0x10000 256 a st) = Page_Erase (a div 256) # ops \<and> Page_Write (a div 256) \<in> set ops"
proof -
  have a: "a div 256 < 256" using assms(2) by (simp add: div_less_iff_less_mult)
  have "report_page (block_buf 0x10000 256 a st) = of_nat (a div 256)"
  proof -
    have "a div 65536 = 0" using assms(2) by simp
    then have "report_page (block_buf 0x10000 256 a st) = join16 0 (of_nat (a div 256))" using a by (simp add: report_page_def block_buf_def)
    also have "\<dots> = of_nat (a div 256)" using a by (simp add: word_unat_eq_iff unat_join16 unat_of_nat)
    finally show ?thesis .
  qed
  moreover have "unat (of_nat (a div 256) :: u16) = a div 256" using a by (simp add: unat_of_nat)
  moreover from this have "(of_nat (a div 256) :: u16) \<noteq> COMMAND_STARTAPPLICATION" using a by (auto simp: COMMAND_STARTAPPLICATION_def)
  ultimately show ?thesis using a assms by (simp add: report_ops_def page_address_def Let_def)
qed

text \<open>C40: On a chip with exactly 64 KB of flash memory the two sides disagree about the address. The host program drops the low byte of the address for a
  memory of 64 KB and more, the boot loader expects it so only for a memory of more than 64 KB. When the boot loader receives the block for the address \<open>a\<close>, as it can, it
  therefore erases and writes the page at the address \<open>a div 256\<close>, which is below 256, the first page, for every block.\<close>

theorem wrong_page_64K:
  assumes "FLASHEND c = 0xFFFF" and "SPM_PAGESIZE c = 256" and "256 \<le> BOOT_START_ADDR c" and "code_size opt = FLASHEND c + 1" and "block_size opt = SPM_PAGESIZE c" and "a < code_size opt"
  shows "a div 256 < 256 \<and> (\<exists>s'. session c [block_buf (code_size opt) (block_size opt) a st] s s') \<and>
    (\<forall>s'. session c [block_buf (code_size opt) (block_size opt) a st] s s' \<longrightarrow>
      (\<exists>ops. spm s' = spm s @ Page_Erase (a div 256) # ops \<and> Page_Write (a div 256) \<in> set ops))"
proof -
  let ?r = "block_buf 0x10000 256 a st"
  have r: "block_buf (code_size opt) (block_size opt) a st = ?r" using assms by simp
  have l: "SPM_PAGESIZE c div 2 < 256" "\<forall>r \<in> set [?r]. length r = 2 + 2 * (SPM_PAGESIZE c div 2)" using assms(2) by (simp_all add: length_reports)
  have a: "a < 0x10000" using assms(1,4,6) by simp
  obtain ops where ops: "report_ops c ?r = Page_Erase (a div 256) # ops" "Page_Write (a div 256) \<in> set ops" using report_ops_64K [OF assms(1) a assms(3)] by blast
  have "spm s' = spm s @ Page_Erase (a div 256) # ops" if "session c [?r] s s'" for s' using session_effect [OF that l] ops(1) by simp
  moreover have "a div 256 < 256" using a by (simp add: div_less_iff_less_mult)
  ultimately show ?thesis unfolding r using session_possible [OF l] ops(2) by blast
qed

theorem wrong_page_64K_witness:
  "\<exists>s' ops. session \<lparr>FLASHEND = 0xFFFF, BOOT_START_ADDR = 0xE000, SPM_PAGESIZE = 256\<rparr> [block_buf 0x10000 256 0x1200 ihex_init] boot_init s' \<and>
     spm s' = Page_Erase 0x12 # ops \<and> Page_Write 0x12 \<in> set ops"
proof -
  have "spm boot_init = []" by (simp add: boot_init_def bootloader.defs usb.defs)
  then show ?thesis
    using wrong_page_64K [of "\<lparr>FLASHEND = 0xFFFF, BOOT_START_ADDR = 0xE000, SPM_PAGESIZE = 256\<rparr>" "loader_options_init\<lparr>code_size := 0x10000, block_size := 256\<rparr>" "0x1200" ihex_init boot_init]
    by auto
qed

end
