(* ===== verification/HIDClassDevice.thy ===== *)
theory HIDClassDevice
  imports Joystick
begin

text \<open>
  The HID class driver for devices (\<^verbatim>\<open>Class/Device/HIDClassDevice.c\<close> and the inline function of its header): the control
  requests of the class, the configuration of the report endpoint, and the task that decides when a report is sent. The two callbacks of the
  application are a record. They may change the state of the application but not the structure of the driver; an uninitialised array on
  the stack is the parameter \<open>junk\<close>.
\<close>

subsection \<open>State\<close>

record HID_Device_Config =
  InterfaceNumber_hid :: u8
  ReportINEndpoint :: USB_Endpoint_Table_t
  PrevReportINBuffer :: "u8 list option"
  PrevReportINBufferSize :: u8

record HID_Device_State =
  UsingReportProtocol :: bool
  PrevFrameNum :: u16
  IdleCount :: u16
  IdleMSRemaining :: u16

record USB_ClassInfo_HID_Device_t =
  Config_hid :: HID_Device_Config
  State_hid :: HID_Device_State

record 's hid_callbacks =
  CreateHIDReport :: "USB_ClassInfo_HID_Device_t \<Rightarrow> u8 \<Rightarrow> u8 \<Rightarrow> u8 list \<Rightarrow> 's \<Rightarrow> bool \<times> u8 \<times> u8 list \<times> u16 \<times> 's"
  ProcessHIDReport_cb :: "USB_ClassInfo_HID_Device_t \<Rightarrow> u8 \<Rightarrow> u8 \<Rightarrow> u8 list \<Rightarrow> u16 \<Rightarrow> 's \<Rightarrow> 's"

definition HID_REQ_GetIdle :: u8 where "HID_REQ_GetIdle = 0x02"
definition HID_REQ_GetProtocol :: u8 where "HID_REQ_GetProtocol = 0x03"
definition HID_REQ_SetIdle :: u8 where "HID_REQ_SetIdle = 0x0A"
definition HID_REQ_SetProtocol :: u8 where "HID_REQ_SetProtocol = 0x0B"

lemmas hid_req_defs = HID_REQ_GetReport_def HID_REQ_SetReport_def HID_REQ_GetIdle_def HID_REQ_GetProtocol_def HID_REQ_SetIdle_def HID_REQ_SetProtocol_def

abbreviation from_host :: u8 where "from_host \<equiv> REQDIR_HOSTTODEVICE OR REQTYPE_CLASS OR REQREC_INTERFACE"
abbreviation to_host :: u8 where "to_host \<equiv> REQDIR_DEVICETOHOST OR REQTYPE_CLASS OR REQREC_INTERFACE"

subsection \<open>Control requests\<close>

text \<open>\<^verbatim>\<open>memcpy\<close> into the buffer of the previous report, if there is one.\<close>

definition store_report :: "u8 list \<Rightarrow> USB_ClassInfo_HID_Device_t \<Rightarrow> USB_ClassInfo_HID_Device_t" where
  "store_report d info =
     (let c = Config_hid info; n = unat (PrevReportINBufferSize c) in
      case PrevReportINBuffer c of
        None \<Rightarrow> info
      | Some b \<Rightarrow> info\<lparr>Config_hid := c\<lparr>PrevReportINBuffer := Some (take n d @ drop n b)\<rparr>\<rparr>)"

definition HID_GetReport ::
  "'a usb_scheme hid_callbacks \<Rightarrow> world \<Rightarrow> USB_ClassInfo_HID_Device_t \<Rightarrow> 'a usb_scheme \<Rightarrow> (USB_ClassInfo_HID_Device_t \<times> 'a usb_scheme) option" where
  "HID_GetReport cb w info s =
     (let req = USB_ControlRequest s;
          (_, ReportID, ReportData, ReportSize, s) =
            CreateHIDReport cb info (lo8 (wValue req)) (hi8 (wValue req) - 1) (replicate (unat (PrevReportINBufferSize (Config_hid info))) 0) s;
          info = store_report ReportData info;
          s = Endpoint_ClearSETUP w (Endpoint_SelectEndpoint ENDPOINT_CONTROLEP s);
          s = (if ReportID \<noteq> 0 then Endpoint_Write_8 ReportID s else s)
      in do {
        (_, s) \<leftarrow> Endpoint_Write_Control_Stream_LE w (object_mem ReportData) 0 ReportSize s;
        Some (info, Endpoint_ClearOUT w s)
      })"

definition HID_SetReport ::
  "'a usb_scheme hid_callbacks \<Rightarrow> mem \<Rightarrow> world \<Rightarrow> USB_ClassInfo_HID_Device_t \<Rightarrow> 'a usb_scheme \<Rightarrow> (USB_ClassInfo_HID_Device_t \<times> 'a usb_scheme) option" where
  "HID_SetReport cb junk w info s =
     (let req = USB_ControlRequest s; ReportSize = wLength req; ReportID = lo8 (wValue req); ReportType = hi8 (wValue req) - 1;
          skip = (if ReportID \<noteq> 0 then 1 else 0)
      in do {
        (_, ReportData, s) \<leftarrow> Endpoint_Read_Control_Stream_LE w junk 0 ReportSize (Endpoint_ClearSETUP w s);
        let s = Endpoint_ClearIN w s;
        Some (info, ProcessHIDReport_cb cb info ReportID ReportType (drop skip (map (\<lambda>i. ReportData (of_nat i)) [0..<unat ReportSize]))
                      (ReportSize - of_nat skip) s)
      })"

text \<open>The reply with one byte.\<close>

definition HID_reply :: "world \<Rightarrow> u8 \<Rightarrow> 'a usb_scheme \<Rightarrow> 'a usb_scheme option" where
  "HID_reply w b s =
     do {
       s \<leftarrow> spin_INReady w (Endpoint_ClearSETUP w s);
       Endpoint_ClearStatusStage w (Endpoint_ClearIN w (Endpoint_Write_8 b s))
     }"

definition HID_Device_ProcessControlRequest ::
  "'a usb_scheme hid_callbacks \<Rightarrow> mem \<Rightarrow> world \<Rightarrow> USB_ClassInfo_HID_Device_t \<Rightarrow> 'a usb_scheme \<Rightarrow> (USB_ClassInfo_HID_Device_t \<times> 'a usb_scheme) option" where
  "HID_Device_ProcessControlRequest cb junk w info s =
     (let (setup, s) = Endpoint_IsSETUPReceived w s; req = USB_ControlRequest s; st = State_hid info in
      if \<not> setup then Some (info, s)
      else if wIndex req \<noteq> ucast (InterfaceNumber_hid (Config_hid info)) then Some (info, s)
      else if bRequest req = HID_REQ_GetReport then if bmRequestType req = to_host then HID_GetReport cb w info s else Some (info, s)
      else if bRequest req = HID_REQ_SetReport then if bmRequestType req = from_host then HID_SetReport cb junk w info s else Some (info, s)
      else if bRequest req = HID_REQ_GetProtocol then
        if bmRequestType req = to_host then map_option (Pair info) (HID_reply w (if UsingReportProtocol st then 1 else 0) s) else Some (info, s)
      else if bRequest req = HID_REQ_SetProtocol then
        if bmRequestType req = from_host
        then do { s \<leftarrow> Endpoint_ClearStatusStage w (Endpoint_ClearSETUP w s);
                  Some (info\<lparr>State_hid := st\<lparr>UsingReportProtocol := lo8 (wValue (USB_ControlRequest s)) \<noteq> 0\<rparr>\<rparr>, s) }
        else Some (info, s)
      else if bRequest req = HID_REQ_SetIdle then
        if bmRequestType req = from_host
        then do { s \<leftarrow> Endpoint_ClearStatusStage w (Endpoint_ClearSETUP w s);
                  Some (info\<lparr>State_hid := st\<lparr>IdleCount := drop_bit 6 (wValue (USB_ControlRequest s) AND 0xFF00)\<rparr>\<rparr>, s) }
        else Some (info, s)
      else if bRequest req = HID_REQ_GetIdle then
        if bmRequestType req = to_host then map_option (Pair info) (HID_reply w (ucast (drop_bit 2 (IdleCount st))) s) else Some (info, s)
      else Some (info, s))"

subsection \<open>Configuration and the task\<close>

text \<open>\<open>ordered\<close> says whether the library is compiled with \<^verbatim>\<open>ORDERED_EP_CONFIG\<close>.\<close>

definition HID_Device_ConfigureEndpoints ::
  "bool \<Rightarrow> world \<Rightarrow> USB_ClassInfo_HID_Device_t \<Rightarrow> 'a usb_scheme \<Rightarrow> (bool \<times> USB_ClassInfo_HID_Device_t \<times> 'a usb_scheme) option" where
  "HID_Device_ConfigureEndpoints ordered w info s =
     (let info = info\<lparr>State_hid := \<lparr>UsingReportProtocol = True, PrevFrameNum = 0, IdleCount = 500, IdleMSRemaining = 0\<rparr>\<rparr>;
          ep = (ReportINEndpoint (Config_hid info))\<lparr>Tab_Type := EP_TYPE_INTERRUPT\<rparr>;
          info = info\<lparr>Config_hid := (Config_hid info)\<lparr>ReportINEndpoint := ep\<rparr>\<rparr>
      in do { (ok, s) \<leftarrow> (if ordered then Endpoint_ConfigureEndpointTable_ordered else Endpoint_ConfigureEndpointTable) w [ep] s; Some (ok, info, s) })"

definition HID_Device_MillisecondElapsed :: "USB_ClassInfo_HID_Device_t \<Rightarrow> USB_ClassInfo_HID_Device_t" where
  "HID_Device_MillisecondElapsed info =
     (let st = State_hid info in
      if IdleMSRemaining st \<noteq> 0 then info\<lparr>State_hid := st\<lparr>IdleMSRemaining := IdleMSRemaining st - 1\<rparr>\<rparr> else info)"

text \<open>The task. \<open>task\<close> is \<^verbatim>\<open>USB_USBTask\<close>, which the stream function calls.\<close>

definition HID_Device_USBTask ::
  "'a usb_scheme hid_callbacks \<Rightarrow> ('a usb_scheme \<Rightarrow> 'a usb_scheme option) \<Rightarrow> world \<Rightarrow> USB_ClassInfo_HID_Device_t \<Rightarrow> 'a usb_scheme \<Rightarrow>
   (USB_ClassInfo_HID_Device_t \<times> 'a usb_scheme) option" where
  "HID_Device_USBTask cb task w info s =
     (let (st, s) = get_DeviceState w s in
      if st \<noteq> DEVICE_STATE_Configured then Some (info, s)
      else let (f, s) = USB_Device_GetFrameNumber w s in
      if PrevFrameNum (State_hid info) = f then Some (info, s)
      else
        let ep = Tab_Address (ReportINEndpoint (Config_hid info));
            (allowed, s) = Endpoint_IsReadWriteAllowed w (Endpoint_SelectEndpoint ep s)
        in if \<not> allowed then Some (info, s)
        else
          let (ForceSend, ReportID, ReportINData, ReportINSize, s) =
                CreateHIDReport cb info 0 0 (replicate (unat (PrevReportINBufferSize (Config_hid info))) 0) s;
              IdlePeriodElapsed = (IdleCount (State_hid info) \<noteq> 0 \<and> IdleMSRemaining (State_hid info) = 0);
              StatesChanged = (case PrevReportINBuffer (Config_hid info) of None \<Rightarrow> False
                               | Some b \<Rightarrow> take (unat ReportINSize) ReportINData \<noteq> take (unat ReportINSize) b);
              info = store_report ReportINData info
          in do {
            (info, s) \<leftarrow>
              (if ReportINSize \<noteq> 0 \<and> (ForceSend \<or> StatesChanged \<or> IdlePeriodElapsed) then
                 let info = info\<lparr>State_hid := (State_hid info)\<lparr>IdleMSRemaining := IdleCount (State_hid info)\<rparr>\<rparr>;
                     s = Endpoint_SelectEndpoint ep s;
                     s = (if ReportID \<noteq> 0 then Endpoint_Write_8 ReportID s else s)
                 in do {
                   (_, _, _, s) \<leftarrow> Endpoint_Write_Stream_LE w task (object_mem ReportINData) 0 ReportINSize None s;
                   Some (info, Endpoint_ClearIN w s)
                 }
               else Some (info, s));
            let (f, s) = USB_Device_GetFrameNumber w s;
            Some (info\<lparr>State_hid := (State_hid info)\<lparr>PrevFrameNum := f\<rparr>\<rparr>, s)
          })"

subsection \<open>Idle rate and protocol\<close>

lemma touches_no_UEDATX:
  assumes "touches {UEINTX} s s'"
  shows "\<exists>t. io s' = io s @ t \<and> writes UEDATX t = [] \<and> USB_ControlRequest s' = USB_ControlRequest s"
proof -
  obtain t st where t: "s' = s\<lparr>io := io s @ t, USB_DeviceState := st\<rparr>" "\<forall>r v. Wr r v \<in> set t \<longrightarrow> r \<in> {UEINTX}"
    using assms unfolding touches_def by blast
  have "writes UEDATX t = []" using t(2) by (induction UEDATX t rule: writes.induct) auto
  then show ?thesis using t(1) by simp
qed

lemma HID_reply_writes:
  assumes "HID_reply w b s = Some s'"
  shows "\<exists>t. io s' = io s @ t \<and> writes UEDATX t = [b]"
proof -
  obtain s1 where s1: "spin_INReady w (Endpoint_ClearSETUP w s) = Some s1"
    and s': "Endpoint_ClearStatusStage w (Endpoint_ClearIN w (Endpoint_Write_8 b s1)) = Some s'"
    using assms by (auto simp: HID_reply_def split: bind_splits)
  have "touches {UEINTX} s s1" using touches_flags(1) touches_spin_INReady [OF s1] by (blast intro: touches_trans)
  moreover have "touches {UEINTX} (Endpoint_Write_8 b s1) s'"
    using touches_flags(2) touches_ClearStatusStage [OF s'] by (blast intro: touches_trans)
  ultimately obtain t t' where "io s1 = io s @ t" "writes UEDATX t = []" "io s' = io (Endpoint_Write_8 b s1) @ t'" "writes UEDATX t' = []"
    using touches_no_UEDATX by blast
  then show ?thesis by (intro exI [of _ "t @ Wr UEDATX b # t'"]) (simp add: ep_io)
qed

text \<open>A class request for the interface has arrived.\<close>

definition hid_request :: "world \<Rightarrow> USB_ClassInfo_HID_Device_t \<Rightarrow> u8 \<Rightarrow> u8 \<Rightarrow> 'a usb_scheme \<Rightarrow> bool" where
  "hid_request w info r ty s \<longleftrightarrow> has (dev w (io s) UEINTX) (bv RXSTPI) \<and> wIndex (USB_ControlRequest s) = ucast (InterfaceNumber_hid (Config_hid info)) \<and>
     bRequest (USB_ControlRequest s) = r \<and> bmRequestType (USB_ControlRequest s) = ty"

lemma ProcessControlRequest_set:
  assumes "HID_Device_ProcessControlRequest cb junk w info s = Some (info', s')"
  shows "hid_request w info HID_REQ_SetIdle from_host s \<Longrightarrow>
      info' = info\<lparr>State_hid := (State_hid info)\<lparr>IdleCount := drop_bit 6 (wValue (USB_ControlRequest s) AND 0xFF00)\<rparr>\<rparr>"
    and "hid_request w info HID_REQ_SetProtocol from_host s \<Longrightarrow>
      info' = info\<lparr>State_hid := (State_hid info)\<lparr>UsingReportProtocol := lo8 (wValue (USB_ControlRequest s)) \<noteq> 0\<rparr>\<rparr>"
proof -
  have keep: "USB_ControlRequest s2 = USB_ControlRequest s1" if "Endpoint_ClearStatusStage w (Endpoint_ClearSETUP w s1) = Some s2" for s1 s2
    using touches_ClearStatusStage [OF that, of "{UEINTX}"] touches_vars(1) by (auto simp: ep_io dest!: touches_vars(1))
  show "hid_request w info HID_REQ_SetIdle from_host s \<Longrightarrow>
      info' = info\<lparr>State_hid := (State_hid info)\<lparr>IdleCount := drop_bit 6 (wValue (USB_ControlRequest s) AND 0xFF00)\<rparr>\<rparr>"
    using assms by (auto simp: HID_Device_ProcessControlRequest_def hid_request_def Endpoint_IsSETUPReceived_def test_mask_eq hid_req_defs Let_def
        split: bind_splits dest!: keep)
  show "hid_request w info HID_REQ_SetProtocol from_host s \<Longrightarrow>
      info' = info\<lparr>State_hid := (State_hid info)\<lparr>UsingReportProtocol := lo8 (wValue (USB_ControlRequest s)) \<noteq> 0\<rparr>\<rparr>"
    using assms by (auto simp: HID_Device_ProcessControlRequest_def hid_request_def Endpoint_IsSETUPReceived_def test_mask_eq hid_req_defs Let_def
        split: bind_splits dest!: keep)
qed

lemma ProcessControlRequest_get:
  assumes "HID_Device_ProcessControlRequest cb junk w info s = Some (info', s')"
  shows "hid_request w info HID_REQ_GetIdle to_host s \<Longrightarrow>
      info' = info \<and> (\<exists>t. io s' = io s @ t \<and> writes UEDATX t = [ucast (drop_bit 2 (IdleCount (State_hid info)))])"
    and "hid_request w info HID_REQ_GetProtocol to_host s \<Longrightarrow>
      info' = info \<and> (\<exists>t. io s' = io s @ t \<and> writes UEDATX t = [if UsingReportProtocol (State_hid info) then 1 else 0])"
  using assms
  by (auto simp: HID_Device_ProcessControlRequest_def hid_request_def Endpoint_IsSETUPReceived_def test_mask_eq hid_req_defs Let_def
      dest!: HID_reply_writes)

lemma idle_word: "v AND 0xFF00 = join16 (hi8 v) 0"
proof -
  have m: "(0xFF00 :: u16) = push_bit 8 (mask 8)" by (simp add: mask_eq_exp_minus_1)
  have bits: "bit (0xFF00 :: u16) n \<longleftrightarrow> 8 \<le> n \<and> n < 16" for n
    unfolding m bit_push_bit_iff bit_mask_iff by auto
  show ?thesis by (rule bit_word_eqI, unfold bit_and_iff bits) (auto simp: hi8_def join16_def byte_bits)
qed

lemma idle_count: "unat (drop_bit 6 (v AND 0xFF00 :: u16)) = 4 * unat (hi8 v)"
  unfolding idle_word by (simp add: drop_bit_eq_div unat_div unat_join16)

lemma idle_byte: "ucast (drop_bit 2 (drop_bit 6 (v AND 0xFF00 :: u16))) = hi8 v"
proof -
  have "unat (drop_bit 2 (drop_bit 6 (v AND 0xFF00 :: u16))) = unat (hi8 v)"
    using idle_count [of v] by (simp add: drop_bit_eq_div unat_div)
  then show ?thesis using unsigned_less [of "hi8 v", where ?'a = nat]
    by (simp add: word_unat_eq_iff unsigned_ucast_eq take_bit_nat_eq_self)
qed

text \<open>What the host sets it can read back: after a Set Idle request the idle period is four milliseconds times the upper byte of the request value, and a Get Idle request
  is answered with that byte; after a Set Protocol request a Get Protocol request is answered with 1 for the report protocol and 0 for the boot
  protocol. Neither reading changes the driver, and the reply is the only byte that is written to an endpoint.\<close>

theorem idle_and_protocol_roundtrip:
  assumes "HID_Device_ProcessControlRequest cb junk w info s = Some (info1, s1)" and "HID_Device_ProcessControlRequest cb junk w' info1 s2 = Some (info2, s3)"
  shows "(hid_request w info HID_REQ_SetIdle from_host s \<and> hid_request w' info1 HID_REQ_GetIdle to_host s2 \<longrightarrow>
      info2 = info1 \<and> unat (IdleCount (State_hid info1)) = 4 * unat (hi8 (wValue (USB_ControlRequest s))) \<and>
      (\<exists>t. io s3 = io s2 @ t \<and> writes UEDATX t = [hi8 (wValue (USB_ControlRequest s))])) \<and>
    (hid_request w info HID_REQ_SetProtocol from_host s \<and> hid_request w' info1 HID_REQ_GetProtocol to_host s2 \<longrightarrow>
      info2 = info1 \<and> (\<exists>t. io s3 = io s2 @ t \<and> writes UEDATX t = [if lo8 (wValue (USB_ControlRequest s)) \<noteq> 0 then 1 else 0]))"
proof (intro conjI impI; elim conjE)
  assume r: "hid_request w info HID_REQ_SetIdle from_host s" "hid_request w' info1 HID_REQ_GetIdle to_host s2"
  from ProcessControlRequest_set(1) [OF assms(1) r(1)] have "IdleCount (State_hid info1) = drop_bit 6 (wValue (USB_ControlRequest s) AND 0xFF00)" by simp
  then show "info2 = info1" "unat (IdleCount (State_hid info1)) = 4 * unat (hi8 (wValue (USB_ControlRequest s)))"
    "\<exists>t. io s3 = io s2 @ t \<and> writes UEDATX t = [hi8 (wValue (USB_ControlRequest s))]"
    using ProcessControlRequest_get(1) [OF assms(2) r(2)] by (simp_all only: idle_count idle_byte)
next
  assume r: "hid_request w info HID_REQ_SetProtocol from_host s" "hid_request w' info1 HID_REQ_GetProtocol to_host s2"
  from ProcessControlRequest_set(2) [OF assms(1) r(1)] have "UsingReportProtocol (State_hid info1) = (lo8 (wValue (USB_ControlRequest s)) \<noteq> 0)" by simp
  then show "info2 = info1" "\<exists>t. io s3 = io s2 @ t \<and> writes UEDATX t = [if lo8 (wValue (USB_ControlRequest s)) \<noteq> 0 then 1 else 0]"
    using ProcessControlRequest_get(2) [OF assms(2) r(2)] by (simp_all only:)
qed

subsection \<open>When a report is sent\<close>

lemma ready_in_later:
  assumes "ready_in w h (n + m)" and "writes UENUM t = []" "writes UEINTX t = []" "length (writes UEDATX t) \<le> m"
  shows "ready_in w (h @ t) n"
  unfolding ready_in_def
proof (intro allI impI)
  fix t'
  assume "writes UENUM t' = [] \<and> writes UEINTX t' = [] \<and> length (writes UEDATX t') < n"
  then show "has (dev w ((h @ t) @ t') UECFG0X) (bv EPDIR) \<and> has (dev w ((h @ t) @ t') UEINTX) (bv TXINI) \<and> has (dev w ((h @ t) @ t') UEINTX) (bv RWAL)"
    using assms ready_inD [OF assms(1), of "t @ t'"] by auto
qed

text \<open>What is sent: the number of the report, if it has one, and its data.\<close>

definition hid_packet :: "u8 \<Rightarrow> u8 list \<Rightarrow> u16 \<Rightarrow> u8 list" where
  "hid_packet ReportID d n = (if ReportID \<noteq> 0 then [ReportID] else []) @ take (unat n) d"

definition report_due :: "USB_ClassInfo_HID_Device_t \<Rightarrow> bool \<Rightarrow> u8 list \<Rightarrow> u16 \<Rightarrow> bool" where
  "report_due info ForceSend d n \<longleftrightarrow> n \<noteq> 0 \<and>
     (ForceSend \<or> (\<exists>b. PrevReportINBuffer (Config_hid info) = Some b \<and> take (unat n) d \<noteq> take (unat n) b) \<or>
      IdleCount (State_hid info) \<noteq> 0 \<and> IdleMSRemaining (State_hid info) = 0)"

text \<open>After the history \<open>h\<close> the host lets the endpoint \<open>e\<close> send \<open>n\<close> bytes.\<close>

definition in_ready :: "world \<Rightarrow> u8 \<Rightarrow> history \<Rightarrow> nat \<Rightarrow> bool" where
  "in_ready w e h n \<longleftrightarrow> has (dev w (h @ [Wr UENUM e]) UEINTX) (bv RWAL) \<and> ready_in w (rd_history w UEINTX (h @ [Wr UENUM e]) @ [Wr UENUM e]) n"

lemma object_take:
  assumes "unat (n :: u16) \<le> length d"
  shows "map (\<lambda>i. object_mem d (of_nat i)) [0..<unat n] = take (unat n) d"
proof (intro nth_equalityI)
  fix i
  assume "i < length (map (\<lambda>i. object_mem d (of_nat i)) [0..<unat n])"
  then have "i < unat n" by simp
  moreover from this have "unat (of_nat i :: u16) = i" using unat_u16_lt [of n] by (intro unat_of_nat_u16) linarith
  ultimately show "map (\<lambda>i. object_mem d (of_nat i)) [0..<unat n] ! i = take (unat n) d ! i" by (simp add: object_mem_def)
qed (use assms in simp)

lemma send_report:
  assumes "ready_in w (io s) (unat n + (if ID \<noteq> 0 then 1 else 0))" and "unat n \<le> length d" and "n \<noteq> 0"
  shows "\<exists>t. Endpoint_Write_Stream_LE w task (object_mem d) 0 n None (if ID \<noteq> 0 then Endpoint_Write_8 ID s else s) =
      Some (ENDPOINT_RWSTREAM_NoError, None, object_mem d, s\<lparr>io := io s @ t\<rparr>) \<and>
    writes UENUM t = [] \<and> writes UEINTX t = [] \<and> writes UEDATX t = hid_packet ID d n"
proof -
  define t0 where "t0 = (if ID \<noteq> 0 then [Wr UEDATX ID] else [])"
  have s1: "(if ID \<noteq> 0 then Endpoint_Write_8 ID s else s) = s\<lparr>io := io s @ t0\<rparr>" by (simp add: t0_def ep_io)
  have "ready_in w (io s @ t0) (unat n)" by (rule ready_in_later [OF assms(1)]) (auto simp: t0_def)
  from write_stream_ready [OF this, of "s\<lparr>io := io s @ t0\<rparr>" "[]" task "object_mem d" 0] assms(3)
  obtain t' where "Endpoint_Write_Stream_LE w task (object_mem d) 0 n None (s\<lparr>io := io s @ t0\<rparr>) =
      Some (ENDPOINT_RWSTREAM_NoError, None, object_mem d, s\<lparr>io := (io s @ t0) @ t'\<rparr>)"
    "writes UENUM t' = []" "writes UEINTX t' = []" "writes UEDATX t' = map (\<lambda>i. object_mem d (0 + of_nat i)) [0..<unat n]" by auto
  then show ?thesis unfolding s1 using object_take [OF assms(2)]
    by (intro exI [of _ "t0 @ t'"]) (auto simp: t0_def hid_packet_def)
qed

lemma report_packet:
  assumes "ready_in w (io s @ [Wr UENUM (ep AND ENDPOINT_EPNUM_MASK)]) (unat n + (if ID \<noteq> 0 then 1 else 0))" and "unat n \<le> length d" and "n \<noteq> 0"
  shows "\<exists>t. do { (_, _, _, s) \<leftarrow> Endpoint_Write_Stream_LE w task (object_mem d) 0 n None
                (let s = Endpoint_SelectEndpoint ep s in if ID \<noteq> 0 then Endpoint_Write_8 ID s else s);
              Some (x, Endpoint_ClearIN w s) } = Some (x, s\<lparr>io := io s @ t\<rparr>) \<and> packets [] t = [hid_packet ID d n]"
proof -
  let ?E = "ep AND ENDPOINT_EPNUM_MASK"
  let ?s = "s\<lparr>io := io s @ [Wr UENUM ?E]\<rparr>"
  obtain t where t: "Endpoint_Write_Stream_LE w task (object_mem d) 0 n None (if ID \<noteq> 0 then Endpoint_Write_8 ID ?s else ?s) =
      Some (ENDPOINT_RWSTREAM_NoError, None, object_mem d, ?s\<lparr>io := io ?s @ t\<rparr>)" "writes UEINTX t = []" "writes UEDATX t = hid_packet ID d n"
    using send_report [of w ?s n ID d task] assms by auto
  have sel: "Endpoint_SelectEndpoint ep s = ?s" by (simp add: ep_io)
  define u where "u = dev w (io s @ Wr UENUM ?E # t) UEINTX"
  show ?thesis using t(1) bank_writes [OF t(2)] t(3)
    by (intro exI [of _ "[Wr UENUM ?E] @ t @ [Rd UEINTX u, Wr UEINTX (u AND NOT (bv TXINI OR bv FIFOCON))]"])
      (simp add: sel Let_def Endpoint_ClearIN_def clear_mask_eq u_def)
qed

text \<open>The state of the driver after a turn of the task in which it could send.\<close>

definition after_turn :: "USB_ClassInfo_HID_Device_t \<Rightarrow> bool \<Rightarrow> u8 list \<Rightarrow> u16 \<Rightarrow> USB_ClassInfo_HID_Device_t" where
  "after_turn info due d f =
     (store_report d info)\<lparr>State_hid := (State_hid info)\<lparr>IdleMSRemaining := if due then IdleCount (State_hid info) else IdleMSRemaining (State_hid info), PrevFrameNum := f\<rparr>\<rparr>"

lemma store_report_State: "State_hid (store_report d info) = State_hid info"
  by (simp add: store_report_def Let_def split: option.split)

lemma frame_number: "USB_Device_GetFrameNumber w s = (f, s') \<Longrightarrow> \<exists>t. s' = s\<lparr>io := io s @ t\<rparr> \<and> list_all is_read t"
  by (auto simp: USB_Device_GetFrameNumber_def io_simps Let_def)

lemma packets_reads: "list_all is_read t \<Longrightarrow> packets acc t = [] \<and> bank_fill acc t = acc"
  by (induction t) (auto elim!: is_read.elims)

lemma hid_task_turn:
  assumes st: "USB_DeviceState s = DEVICE_STATE_Configured" "irq w (io s) = None"
    and frame: "USB_Device_GetFrameNumber w s = (f, s1)" "f \<noteq> PrevFrameNum (State_hid info)"
    and cb: "\<And>h. CreateHIDReport cb info 0 0 (replicate (unat (PrevReportINBufferSize (Config_hid info))) 0) (s\<lparr>io := h\<rparr>) = (force, ID, d, n, U (s\<lparr>io := h\<rparr>))"
    and U: "\<And>s h. U (s\<lparr>io := h\<rparr>) = (U s)\<lparr>io := h\<rparr>"
    and host: "in_ready w (Tab_Address (ReportINEndpoint (Config_hid info)) AND ENDPOINT_EPNUM_MASK) (io s1) (length (hid_packet ID d n))"
    and size: "unat n \<le> length d"
  shows "\<exists>t f'. HID_Device_USBTask cb task w info s = Some (after_turn info (report_due info force d n) d f', (U s)\<lparr>io := io s @ t\<rparr>) \<and>
    packets [] t = (if report_due info force d n then [hid_packet ID d n] else [])"
proof -
  let ?e = "Tab_Address (ReportINEndpoint (Config_hid info))" and ?E = "Tab_Address (ReportINEndpoint (Config_hid info)) AND ENDPOINT_EPNUM_MASK"
  obtain t1 where t1: "s1 = s\<lparr>io := io s @ t1\<rparr>" "list_all is_read t1" using frame_number [OF frame(1)] by blast
  define v where "v = dev w (io s1 @ [Wr UENUM ?E]) UEINTX"
  define t2 where "t2 = [Wr UENUM ?E, Rd UEINTX v]"
  define s2 where "s2 = s1\<lparr>io := io s1 @ t2\<rparr>"
  have allowed: "Endpoint_IsReadWriteAllowed w (Endpoint_SelectEndpoint ?e s1) = (True, s2)"
    using host by (simp add: in_ready_def ep_io s2_def t2_def v_def)
  have s2': "s2 = s\<lparr>io := io s1 @ t2\<rparr>" by (simp add: s2_def t1(1))
  then have cb2: "CreateHIDReport cb info 0 0 (replicate (unat (PrevReportINBufferSize (Config_hid info))) 0) s2 = (force, ID, d, n, U s2)"
    using cb by simp
  have U2: "U s2 = (U s)\<lparr>io := io s2\<rparr>" using U by (simp add: s2')
  then have ioU: "io (U s2) = io s2" by simp
  have get: "get_DeviceState w s = (DEVICE_STATE_Configured, s)" using st by (simp add: get_DeviceState_def)
  define mid where "mid = (if report_due info force d n then
      do { (_, _, _, s) \<leftarrow> Endpoint_Write_Stream_LE w task (object_mem d) 0 n None (let s = Endpoint_SelectEndpoint ?e (U s2) in if ID \<noteq> 0 then Endpoint_Write_8 ID s else s);
           Some ((store_report d info)\<lparr>State_hid := (State_hid info)\<lparr>IdleMSRemaining := IdleCount (State_hid info)\<rparr>\<rparr>, Endpoint_ClearIN w s) }
      else Some (store_report d info, U s2))"
  have task: "HID_Device_USBTask cb task w info s = do { (info, s) \<leftarrow> mid;
      let (f, s) = USB_Device_GetFrameNumber w s; Some (info\<lparr>State_hid := (State_hid info)\<lparr>PrevFrameNum := f\<rparr>\<rparr>, s) }"
  proof -
    have due: "(n \<noteq> 0 \<and> (force \<or> (case PrevReportINBuffer (Config_hid info) of None \<Rightarrow> False | Some b \<Rightarrow> take (unat n) d \<noteq> take (unat n) b) \<or>
        IdleCount (State_hid info) \<noteq> 0 \<and> IdleMSRemaining (State_hid info) = 0)) = report_due info force d n"
      by (simp add: report_due_def split: option.split)
    show ?thesis using frame
      by (cases "report_due info force d n") (simp_all add: HID_Device_USBTask_def get allowed cb2 due mid_def store_report_State Let_def)
  qed
  have "\<exists>t3. mid = Some ((store_report d info)\<lparr>State_hid := (State_hid info)\<lparr>IdleMSRemaining :=
      if report_due info force d n then IdleCount (State_hid info) else IdleMSRemaining (State_hid info)\<rparr>\<rparr>, (U s2)\<lparr>io := io s2 @ t3\<rparr>) \<and>
    packets [] t3 = (if report_due info force d n then [hid_packet ID d n] else [])"
  proof (cases "report_due info force d n")
    case True
    have r: "ready_in w (io (U s2) @ [Wr UENUM ?E]) (unat n + (if ID \<noteq> 0 then 1 else 0))"
      unfolding ioU using host size by (auto simp: in_ready_def rd_history_def s2_def t2_def v_def hid_packet_def add.commute)
    have "n \<noteq> 0" using True by (simp add: report_due_def)
    from report_packet [OF r size this] show ?thesis unfolding mid_def if_P [OF True] ioU .
  next
    case False
    then show ?thesis by (intro exI [of _ "[]"]) (simp add: mid_def ioU [symmetric] flip: store_report_State [of d info])
  qed
  then obtain t3 where t3: "mid = Some ((store_report d info)\<lparr>State_hid := (State_hid info)\<lparr>IdleMSRemaining :=
      if report_due info force d n then IdleCount (State_hid info) else IdleMSRemaining (State_hid info)\<rparr>\<rparr>, (U s2)\<lparr>io := io s2 @ t3\<rparr>)"
    "packets [] t3 = (if report_due info force d n then [hid_packet ID d n] else [])" by blast
  obtain f' s4 where f': "USB_Device_GetFrameNumber w ((U s2)\<lparr>io := io s2 @ t3\<rparr>) = (f', s4)" by fastforce
  then obtain t4 where t4: "s4 = (U s2)\<lparr>io := (io s2 @ t3) @ t4\<rparr>" "list_all is_read t4" using frame_number [OF f'] by auto
  have "packets [] (t1 @ t2 @ t3 @ t4) = packets [] t3"
    using packets_reads [OF t1(2)] packets_reads [OF t4(2)] by (simp add: t2_def)
  moreover have "s4 = (U s)\<lparr>io := io s @ (t1 @ t2 @ t3 @ t4)\<rparr>" unfolding t4(1) U2 by (simp add: s2' t1(1))
  ultimately show ?thesis using t3 f'
    by (intro exI [of _ "t1 @ t2 @ t3 @ t4"] exI [of _ f']) (simp add: task after_turn_def)
qed

text \<open>C5: The task of the HID class driver sends a report exactly when one is due. In a configured device, in a new frame and with an endpoint that can send, the callback makes a
  report and may change the state of the application; if its size is not zero and the callback forces it, or it differs from the previous one, or the idle period is over, then exactly one packet goes to the host, with
  the number of the report, if it has one, and its data, and the idle period starts anew; otherwise nothing is sent. In both cases the report becomes the previous one.\<close>

theorem hid_task_sends_due_report:
  assumes "USB_DeviceState s = DEVICE_STATE_Configured" and "irq w (io s) = None"
    and "USB_Device_GetFrameNumber w s = (f, s1)" and "f \<noteq> PrevFrameNum (State_hid info)"
    and "\<And>h. CreateHIDReport cb info 0 0 (replicate (unat (PrevReportINBufferSize (Config_hid info))) 0) (s\<lparr>io := h\<rparr>) = (force, ID, d, n, U (s\<lparr>io := h\<rparr>))"
    and "\<And>s h. U (s\<lparr>io := h\<rparr>) = (U s)\<lparr>io := h\<rparr>"
    and "in_ready w (Tab_Address (ReportINEndpoint (Config_hid info)) AND ENDPOINT_EPNUM_MASK) (io s1) (length (hid_packet ID d n))"
    and "unat n \<le> length d"
  shows "\<exists>t f'. HID_Device_USBTask cb task w info s = Some (after_turn info (report_due info force d n) d f', (U s)\<lparr>io := io s @ t\<rparr>) \<and>
    packets [] t = (if report_due info force d n then [hid_packet ID d n] else [])"
  using assms by (rule hid_task_turn)

text \<open>A report with a number but without data: the callback gets the size \<open>-1\<close>, which is 65535, for an empty report.\<close>

lemma empty_numbered_report:
  assumes "wLength (USB_ControlRequest s) = 0" and "lo8 (wValue (USB_ControlRequest s)) \<noteq> 0"
    and "Endpoint_Read_Control_Stream_LE w junk 0 0 (Endpoint_ClearSETUP w s) = Some (r, d, s1)"
  shows "HID_SetReport cb junk w info s =
    Some (info, ProcessHIDReport_cb cb info (lo8 (wValue (USB_ControlRequest s))) (hi8 (wValue (USB_ControlRequest s)) - 1) [] (- 1) (Endpoint_ClearIN w s1))"
  using assms by (simp add: HID_SetReport_def Let_def)

subsection \<open>Examples\<close>

lemma HID_reply_ready: "ready w \<Longrightarrow> \<exists>s'. HID_reply w b s = Some s'"
proof -
  assume w: "ready w"
  then have "\<exists>s1. spin_INReady w (Endpoint_ClearSETUP w s) = Some s1"
    unfolding spin_INReady_def by (intro exI, intro iterate_stop) (simp add: ready_def ep_io)
  then show ?thesis using ClearStatusStage_ready [OF w] by (auto simp: HID_reply_def)
qed

definition hid_host :: world where
  "hid_host = const_world (\<lambda>r. if r = UEINTX then bv RXSTPI OR bv RXOUTI OR bv TXINI OR bv RWAL else if r = UECFG0X then bv EPDIR else 7)"

lemma hid_host_flags: "ready hid_host" "has (dev hid_host h UEINTX) (bv RXSTPI)" "in_ready hid_host e h n"
  by (simp_all add: hid_host_def ready_def in_ready_def ready_in_def has_def bv_def)

definition hid_info :: USB_ClassInfo_HID_Device_t where
  "hid_info = \<lparr>Config_hid = \<lparr>InterfaceNumber_hid = 0, ReportINEndpoint = \<lparr>Tab_Address = 0x81, Tab_Size = 8, Tab_Type = EP_TYPE_INTERRUPT, Tab_Banks = 1\<rparr>,
       PrevReportINBuffer = None, PrevReportINBufferSize = 2\<rparr>,
     State_hid = \<lparr>UsingReportProtocol = True, PrevFrameNum = 0, IdleCount = 500, IdleMSRemaining = 0\<rparr>\<rparr>"

definition hid_cb :: "usb hid_callbacks" where
  "hid_cb = \<lparr>CreateHIDReport = (\<lambda>info ID ty d s. (False, 0, [0x11, 0x22], 2, s)), ProcessHIDReport_cb = (\<lambda>info ID ty d n s. s)\<rparr>"

definition hid_setup :: "u8 \<Rightarrow> u8 \<Rightarrow> usb" where
  "hid_setup r ty = usb_init\<lparr>USB_ControlRequest := \<lparr>bmRequestType = ty, bRequest = r, wValue = 0x7D00, wIndex = 0, wLength = 0\<rparr>\<rparr>"

theorem idle_and_protocol_roundtrip_witness:
  "\<exists>info1 s1 info2 s3. HID_Device_ProcessControlRequest hid_cb (\<lambda>_. 0) hid_host hid_info (hid_setup HID_REQ_SetIdle from_host) = Some (info1, s1) \<and>
     HID_Device_ProcessControlRequest hid_cb (\<lambda>_. 0) hid_host info1 (hid_setup HID_REQ_GetIdle to_host) = Some (info2, s3) \<and>
     unat (IdleCount (State_hid info1)) = 500 \<and> writes UEDATX (io s3) = [0x7D]"
proof -
  let ?set = "hid_setup HID_REQ_SetIdle from_host" and ?get = "hid_setup HID_REQ_GetIdle to_host"
  have r: "hid_request hid_host hid_info HID_REQ_SetIdle from_host ?set"
    by (simp add: hid_request_def hid_host_flags hid_setup_def hid_info_def)
  obtain s1 where s1: "Endpoint_ClearStatusStage hid_host (Endpoint_ClearSETUP hid_host (snd (Endpoint_IsSETUPReceived hid_host ?set))) = Some s1"
    using ClearStatusStage_ready [OF hid_host_flags(1)] by blast
  obtain info1 where p1: "HID_Device_ProcessControlRequest hid_cb (\<lambda>_. 0) hid_host hid_info ?set = Some (info1, s1)"
    using s1 r by (auto simp: HID_Device_ProcessControlRequest_def hid_request_def Endpoint_IsSETUPReceived_def test_mask_eq hid_req_defs Let_def)
  then have info1: "info1 = hid_info\<lparr>State_hid := (State_hid hid_info)\<lparr>IdleCount := drop_bit 6 (wValue (USB_ControlRequest ?set) AND 0xFF00)\<rparr>\<rparr>"
    using ProcessControlRequest_set(1) [OF p1 r] by simp
  then have r2: "hid_request hid_host info1 HID_REQ_GetIdle to_host ?get"
    by (simp add: hid_request_def hid_host_flags hid_setup_def hid_info_def)
  obtain info2 s3 where p2: "HID_Device_ProcessControlRequest hid_cb (\<lambda>_. 0) hid_host info1 ?get = Some (info2, s3)"
    using r2 HID_reply_ready [OF hid_host_flags(1)]
    by (fastforce simp: HID_Device_ProcessControlRequest_def hid_request_def Endpoint_IsSETUPReceived_def test_mask_eq hid_req_defs Let_def)
  have "unat (hi8 0x7D00) = 125" "hi8 0x7D00 = 0x7D" by (simp_all add: hi8_def)
  then show ?thesis using idle_and_protocol_roundtrip [OF p1 p2] r r2 p1 p2 by (auto simp: hid_setup_def)
qed

theorem hid_task_sends_due_report_witness:
  "\<exists>t info. HID_Device_USBTask hid_cb Some hid_host hid_info (usb_init\<lparr>USB_DeviceState := DEVICE_STATE_Configured\<rparr>) =
     Some (info, usb_init\<lparr>USB_DeviceState := DEVICE_STATE_Configured, io := t\<rparr>) \<and> packets [] t = [[0x11, 0x22]] \<and> IdleMSRemaining (State_hid info) = 500"
proof -
  let ?s = "usb_init\<lparr>USB_DeviceState := DEVICE_STATE_Configured\<rparr>"
  obtain f s1 where f: "USB_Device_GetFrameNumber hid_host ?s = (f, s1)" by fastforce
  have fn: "f \<noteq> PrevFrameNum (State_hid hid_info)"
    using f by (auto simp: USB_Device_GetFrameNumber_def io_simps hid_host_def hid_info_def join16_def)
  have cb: "CreateHIDReport hid_cb hid_info 0 0 (replicate (unat (PrevReportINBufferSize (Config_hid hid_info))) 0) (?s\<lparr>io := h\<rparr>) = (False, 0, [0x11, 0x22], 2, id (?s\<lparr>io := h\<rparr>))" for h
    by (simp add: hid_cb_def)
  have due: "report_due hid_info False [0x11, 0x22] 2" by (simp add: report_due_def hid_info_def)
  obtain t f' where "HID_Device_USBTask hid_cb Some hid_host hid_info ?s = Some (after_turn hid_info True [0x11, 0x22] f', ?s\<lparr>io := t\<rparr>)" "packets [] t = [hid_packet 0 [0x11, 0x22] 2]"
    using hid_task_sends_due_report [OF _ _ f fn cb _ hid_host_flags(3), of Some] due by (auto simp: hid_host_def)
  then show ?thesis by (intro exI [of _ t] exI) (auto simp: hid_packet_def after_turn_def hid_info_def)
qed

end
