(* ===== verification/BitBuffer.thy ===== *)
theory BitBuffer
  imports ByteQueue
begin

text \<open>
  The circular bit buffer of the magnetic card reader (\<^verbatim>\<open>Projects/Magstripe/Lib/CircularBitBuffer.c\<close>). A pointer into the array is an
  index and the mask of a bit. The buffer provides the contract of a bounded FIFO, with bits as elements, as long as it is not
  filled beyond its size, which it does not check itself.
\<close>

subsection \<open>The buffer\<close>

record BitBufferPointer_t =
  CurrentByte :: nat
  ByteMask :: u8

record BitBuffer_t =
  BB_Data :: "u8 list"
  Elements :: u16
  BB_In :: BitBufferPointer_t
  BB_Out :: BitBufferPointer_t

definition BitBuffer_Init :: "BitBuffer_t \<Rightarrow> BitBuffer_t" where
  "BitBuffer_Init b = b\<lparr>Elements := 0, BB_In := \<lparr>CurrentByte = 0, ByteMask = bv 0\<rparr>, BB_Out := \<lparr>CurrentByte = 0, ByteMask = bv 0\<rparr>\<rparr>"

text \<open>The step to the next bit, which the source has once for each pointer.\<close>

definition next_bit :: "nat \<Rightarrow> BitBufferPointer_t \<Rightarrow> BitBufferPointer_t" where
  "next_bit n p =
     (if ByteMask p = bv 7
      then \<lparr>CurrentByte = if CurrentByte p \<noteq> n - 1 then CurrentByte p + 1 else 0, ByteMask = bv 0\<rparr>
      else p\<lparr>ByteMask := push_bit 1 (ByteMask p)\<rparr>)"

definition BitBuffer_StoreNextBit :: "bool \<Rightarrow> BitBuffer_t \<Rightarrow> BitBuffer_t" where
  "BitBuffer_StoreNextBit Bit b =
     (let i = CurrentByte (BB_In b);
          b = (if Bit then b\<lparr>BB_Data := (BB_Data b)[i := BB_Data b ! i OR ByteMask (BB_In b)]\<rparr> else b)
      in b\<lparr>Elements := Elements b + 1, BB_In := next_bit (length (BB_Data b)) (BB_In b)\<rparr>)"

definition BitBuffer_GetNextBit :: "BitBuffer_t \<Rightarrow> bool \<times> BitBuffer_t" where
  "BitBuffer_GetNextBit b =
     (let i = CurrentByte (BB_Out b); Bit = (BB_Data b ! i AND ByteMask (BB_Out b) \<noteq> 0);
          b = b\<lparr>BB_Data := (BB_Data b)[i := BB_Data b ! i AND NOT (ByteMask (BB_Out b))]\<rparr>
      in (Bit, b\<lparr>Elements := Elements b - 1, BB_Out := next_bit (length (BB_Data b)) (BB_Out b)\<rparr>))"

subsection \<open>Bits and positions\<close>

text \<open>The array as a sequence of bits. A pointer stands for a position in it.\<close>

definition bit_at :: "BitBuffer_t \<Rightarrow> nat \<Rightarrow> bool" where
  "bit_at b p = bit (BB_Data b ! (p div 8)) (p mod 8)"

definition pointer :: "nat \<Rightarrow> BitBufferPointer_t" where
  "pointer p = \<lparr>CurrentByte = p div 8, ByteMask = bv (p mod 8)\<rparr>"

definition bb_size :: "BitBuffer_t \<Rightarrow> nat" where
  "bb_size b = 8 * length (BB_Data b)"

lemma bv_inject: "m < 8 \<Longrightarrow> n < 8 \<Longrightarrow> bv m = bv n \<longleftrightarrow> m = n"
proof
  assume "m < 8" "n < 8" "bv m = bv n"
  then have "bit (bv n) m" using bit_bv [of m m] by simp
  then show "m = n" by (simp add: bit_bv)
qed simp

lemma push_bv: "push_bit 1 (bv n) = bv (Suc n)"
  by (simp only: bv_def push_bit_push_bit plus_1_eq_Suc)

lemma pointer_eq: "r < 8 \<Longrightarrow> pointer (8 * q + r) = \<lparr>CurrentByte = q, ByteMask = bv r\<rparr>"
  by (simp add: pointer_def)

lemma next_bit_pointer:
  assumes "p < 8 * n"
  shows "next_bit n (pointer p) = pointer ((p + 1) mod (8 * n))"
proof -
  define q r where "q = p div 8" and "r = p mod 8"
  have p: "p = 8 * q + r" and r: "r < 8" by (simp_all add: q_def r_def)
  have q: "q < n" using assms p by linarith
  consider "r = 7" "q = n - 1" | "r = 7" "q \<noteq> n - 1" | "r < 7" using r by linarith
  then show ?thesis
  proof cases
    case 1
    then have "p + 1 = 8 * n" using p q by (cases n) auto
    then show ?thesis using 1 pointer_eq [of 0 0] by (simp add: p pointer_eq next_bit_def)
  next
    case 2
    then have "p + 1 = 8 * (q + 1) + 0" "p + 1 < 8 * n" using p q by auto
    then have "pointer ((p + 1) mod (8 * n)) = \<lparr>CurrentByte = q + 1, ByteMask = bv 0\<rparr>" using pointer_eq [of 0 "q + 1"] by simp
    then show ?thesis using 2 by (simp add: p pointer_eq next_bit_def)
  next
    case 3
    then have "p + 1 = 8 * q + (r + 1)" "p + 1 < 8 * n" using p q by auto
    then have "pointer ((p + 1) mod (8 * n)) = \<lparr>CurrentByte = q, ByteMask = bv (Suc r)\<rparr>" using pointer_eq [of "r + 1" q] 3 by simp
    moreover have "next_bit n (pointer p) = \<lparr>CurrentByte = q, ByteMask = push_bit 1 (bv r)\<rparr>"
      using 3 r by (simp add: p pointer_eq next_bit_def bv_inject)
    ultimately show ?thesis by (simp only: push_bv)
  qed
qed

text \<open>Well-formed with the \<open>k\<close> bits from position \<open>p\<close> on: all other bits are clear.\<close>

definition bb_at :: "BitBuffer_t \<Rightarrow> nat \<Rightarrow> nat \<Rightarrow> bool" where
  "bb_at b p k \<longleftrightarrow> p < bb_size b \<and> k \<le> bb_size b \<and> bb_size b < 65536 \<and> unat (Elements b) = k \<and>
     BB_Out b = pointer p \<and> BB_In b = pointer ((p + k) mod bb_size b) \<and>
     (\<forall>i. k \<le> i \<and> i < bb_size b \<longrightarrow> \<not> bit_at b ((p + i) mod bb_size b))"

definition bb_ok :: "BitBuffer_t \<Rightarrow> bool" where
  "bb_ok b \<longleftrightarrow> (\<exists>p k. bb_at b p k)"

definition bb_pos :: "BitBufferPointer_t \<Rightarrow> nat" where
  "bb_pos q = 8 * CurrentByte q + length (takeWhile (\<lambda>n. bv n \<noteq> ByteMask q) [0..<8])"

definition bb_content :: "BitBuffer_t \<Rightarrow> bool list" where
  "bb_content b = map (\<lambda>i. bit_at b ((bb_pos (BB_Out b) + i) mod bb_size b)) [0..<unat (Elements b)]"

lemma bb_pos_pointer: "bb_pos (pointer p) = p"
proof -
  have r: "p mod 8 < 8" by simp
  then have "[0..<8] = [0..<p mod 8] @ p mod 8 # [Suc (p mod 8)..<8]" by (metis le_add1 less_imp_le_nat plus_nat.add_0 upt_add_eq_append upt_conv_Cons le_add_diff_inverse)
  moreover have "takeWhile (\<lambda>n. bv n \<noteq> bv (p mod 8)) ([0..<p mod 8] @ p mod 8 # [Suc (p mod 8)..<8]) = [0..<p mod 8]"
    using r by (subst takeWhile_append2) (auto simp: bv_inject)
  ultimately have "takeWhile (\<lambda>n. bv n \<noteq> bv (p mod 8)) [0..<8] = [0..<p mod 8]" by simp
  then show ?thesis by (simp add: bb_pos_def pointer_def)
qed

lemma bb_at_content:
  assumes "bb_at b p k"
  shows "bb_content b = map (\<lambda>i. bit_at b ((p + i) mod bb_size b)) [0..<k]"
  using assms by (simp add: bb_content_def bb_at_def bb_pos_pointer)

lemma bit_at_set:
  assumes "p < bb_size b" and "q < bb_size b"
  shows "bit_at (b\<lparr>BB_Data := (BB_Data b)[p div 8 := BB_Data b ! (p div 8) OR bv (p mod 8)]\<rparr>) q \<longleftrightarrow> q = p \<or> bit_at b q"
    and "bit_at (b\<lparr>BB_Data := (BB_Data b)[p div 8 := BB_Data b ! (p div 8) AND NOT (bv (p mod 8))]\<rparr>) q \<longleftrightarrow> q \<noteq> p \<and> bit_at b q"
proof -
  have d: "p div 8 < length (BB_Data b)" using assms(1) by (simp add: bb_size_def div_less_iff_less_mult mult.commute)
  have pq: "p div 8 = q div 8 \<and> p mod 8 = q mod 8 \<longleftrightarrow> q = p" by (metis div_mult_mod_eq)
  show "bit_at (b\<lparr>BB_Data := (BB_Data b)[p div 8 := BB_Data b ! (p div 8) OR bv (p mod 8)]\<rparr>) q \<longleftrightarrow> q = p \<or> bit_at b q"
    using d pq by (cases "q div 8 = p div 8") (auto simp: bit_at_def bit_or_iff bit_bv)
  show "bit_at (b\<lparr>BB_Data := (BB_Data b)[p div 8 := BB_Data b ! (p div 8) AND NOT (bv (p mod 8))]\<rparr>) q \<longleftrightarrow> q \<noteq> p \<and> bit_at b q"
    using d pq by (cases "q div 8 = p div 8") (auto simp: bit_at_def bit_simps bit_bv)
qed

text \<open>Positions on the circle.\<close>

lemma circle_inject: "i < n \<Longrightarrow> j < n \<Longrightarrow> (p + i) mod n = (p + j) mod n \<longleftrightarrow> i = (j :: nat)"
proof (induction i j rule: linorder_wlog)
  case (le i j)
  have "j - i = 0" if "(p + i) mod n = (p + j) mod n"
  proof -
    have "n dvd (p + j) - (p + i)" using that le.hyps by (metis add_left_mono mod_eq_dvd_iff_nat)
    then have "n dvd j - i" by simp
    moreover have "j - i < n" using le.prems(2) by simp
    ultimately show ?thesis using dvd_imp_le [of n "j - i"] by linarith
  qed
  then show ?case using le.hyps by auto
qed auto

lemma bit_Elements [simp]: "bit_at (b\<lparr>Elements := e\<rparr>) = bit_at b" "bit_at (b\<lparr>BB_In := q\<rparr>) = bit_at b" "bit_at (b\<lparr>BB_Out := q\<rparr>) = bit_at b"
  by (simp_all add: bit_at_def fun_eq_iff)

lemma StoreNextBit_at:
  assumes b: "bb_at b p k" and room: "k < bb_size b"
  shows "bb_at (BitBuffer_StoreNextBit x b) p (Suc k)" and "bb_content (BitBuffer_StoreNextBit x b) = bb_content b @ [x]"
    and "bb_size (BitBuffer_StoreNextBit x b) = bb_size b"
proof -
  let ?n = "bb_size b" and ?b = "BitBuffer_StoreNextBit x b"
  define q where "q = (p + k) mod ?n"
  have q: "q < ?n" using b by (simp add: q_def bb_at_def)
  have In: "BB_In b = pointer q" using b by (simp add: bb_at_def q_def)
  define b1 where "b1 = (if x then b\<lparr>BB_Data := (BB_Data b)[q div 8 := BB_Data b ! (q div 8) OR bv (q mod 8)]\<rparr> else b)"
  have b': "?b = b1\<lparr>Elements := Elements b + 1, BB_In := next_bit (length (BB_Data b)) (pointer q)\<rparr>"
    by (simp add: BitBuffer_StoreNextBit_def In b1_def pointer_def Let_def)
  have next': "next_bit (length (BB_Data b)) (pointer q) = pointer ((p + Suc k) mod ?n)"
    using next_bit_pointer [of q "length (BB_Data b)"] q by (simp add: bb_size_def q_def mod_Suc_eq)
  show size: "bb_size ?b = ?n" by (simp add: b' b1_def bb_size_def)
  have clear: "\<not> bit_at b q" using b room by (auto simp: bb_at_def q_def)
  have bits: "bit_at ?b j \<longleftrightarrow> (if j = q then x else bit_at b j)" if "j < ?n" for j
    using bit_at_set(1) [OF q that] clear by (auto simp: b' b1_def)
  have pos: "(p + i) mod ?n = q \<longleftrightarrow> i = k" if "i < ?n" for i using circle_inject [OF that room] by (simp add: q_def)
  have e: "unat (Elements b + 1) = Suc k" using b room by (subst unat_word_ariths) (simp add: bb_at_def)
  have less: "j mod ?n < ?n" for j using q by simp
  have fields: "Elements ?b = Elements b + 1" "BB_In ?b = pointer ((p + Suc k) mod ?n)" "BB_Out ?b = BB_Out b" by (simp_all add: b' next' b1_def)
  show at: "bb_at ?b p (Suc k)" unfolding bb_at_def size fields
  proof (intro conjI allI impI)
    show "\<not> bit_at ?b ((p + i) mod ?n)" if "Suc k \<le> i \<and> i < ?n" for i
      using that bits [OF less] pos [of i] b by (simp add: bb_at_def)
  qed (use b room e in \<open>simp_all add: bb_at_def\<close>)
  show "bb_content ?b = bb_content b @ [x]"
    using bb_at_content [OF at] bb_at_content [OF b] bits pos less room size by (simp add: q_def)
qed

lemma GetNextBit_at:
  assumes b: "bb_at b p (Suc k)"
  shows "bb_at (snd (BitBuffer_GetNextBit b)) ((p + 1) mod bb_size b) k"
    and "bb_content b = fst (BitBuffer_GetNextBit b) # bb_content (snd (BitBuffer_GetNextBit b))"
    and "bb_size (snd (BitBuffer_GetNextBit b)) = bb_size b"
proof -
  let ?n = "bb_size b" and ?b = "snd (BitBuffer_GetNextBit b)" and ?p = "(p + 1) mod bb_size b"
  have p: "p < ?n" and Out: "BB_Out b = pointer p" using b by (simp_all add: bb_at_def)
  define b1 where "b1 = b\<lparr>BB_Data := (BB_Data b)[p div 8 := BB_Data b ! (p div 8) AND NOT (bv (p mod 8))]\<rparr>"
  have b': "?b = b1\<lparr>Elements := Elements b - 1, BB_Out := next_bit (length (BB_Data b)) (pointer p)\<rparr>"
    by (simp add: BitBuffer_GetNextBit_def Out b1_def pointer_def Let_def)
  have next': "next_bit (length (BB_Data b)) (pointer p) = pointer ?p"
    using next_bit_pointer [of p "length (BB_Data b)"] p by (simp add: bb_size_def)
  show size: "bb_size ?b = ?n" by (simp add: b' b1_def bb_size_def)
  have bits: "bit_at ?b j \<longleftrightarrow> j \<noteq> p \<and> bit_at b j" if "j < ?n" for j
    using bit_at_set(2) [OF p that] by (simp add: b' b1_def)
  have less: "j mod ?n < ?n" for j using p by simp
  have shift: "(?p + i) mod ?n = (p + Suc i) mod ?n" for i by (simp add: mod_Suc_eq mod_add_left_eq)
  have pos: "(p + i) mod ?n = p \<longleftrightarrow> i = 0" if "i < ?n" for i using circle_inject [OF that, of 0 p] p by simp
  have "Elements b \<noteq> 0" using b by (auto simp: bb_at_def)
  then have e: "unat (Elements b - 1) = k" using b by (simp add: bb_at_def unat_minus_one)
  have fields: "Elements ?b = Elements b - 1" "BB_Out ?b = pointer ?p" "BB_In ?b = BB_In b" by (simp_all add: b' next' b1_def)
  show at: "bb_at ?b ?p k" unfolding bb_at_def size fields
  proof (intro conjI allI impI)
    show "\<not> bit_at ?b ((?p + i) mod ?n)" if "k \<le> i \<and> i < ?n" for i
    proof (cases "Suc i = ?n")
      case True
      then have "(?p + i) mod ?n = p" unfolding shift using p by simp
      then show ?thesis using bits [OF p] by simp
    next
      case False
      then have "Suc k \<le> Suc i \<and> Suc i < ?n" using that by simp
      then have "\<not> bit_at b ((p + Suc i) mod ?n)" using b unfolding bb_at_def by blast
      then show ?thesis unfolding shift using bits [OF less] by simp
    qed
    show "BB_In b = pointer ((?p + k) mod ?n)" unfolding shift using b by (simp add: bb_at_def)
  qed (use b e less in \<open>simp_all add: bb_at_def\<close>)
  have k: "Suc k \<le> ?n" using b by (simp add: bb_at_def)
  have "fst (BitBuffer_GetNextBit b) = bit_at b p"
    using has_bv [of "BB_Data b ! (p div 8)" "p mod 8"] by (simp add: BitBuffer_GetNextBit_def Out pointer_def bit_at_def has_def Let_def)
  moreover have "bb_content ?b = map (\<lambda>i. bit_at b ((p + Suc i) mod ?n)) [0..<k]"
  proof -
    have "bit_at ?b ((?p + i) mod ?n) = bit_at b ((p + Suc i) mod ?n)" if "i < k" for i
      unfolding shift using bits [OF less] pos [of "Suc i"] that k by simp
    then show ?thesis using bb_at_content [OF at] unfolding size by simp
  qed
  moreover have "bb_content b = bit_at b p # map (\<lambda>i. bit_at b ((p + Suc i) mod ?n)) [0..<k]"
    unfolding bb_at_content [OF b] using p by (simp add: upt_conv_Cons map_Suc_upt [symmetric] o_def del: upt_Suc)
  ultimately show "bb_content b = fst (BitBuffer_GetNextBit b) # bb_content ?b" by simp
qed

text \<open>The contract of a FIFO of bits.\<close>

interpretation bits: bounded_queue bb_ok bb_content bb_size BitBuffer_StoreNextBit "\<lambda>b. fst (BitBuffer_GetNextBit b)" "\<lambda>b. snd (BitBuffer_GetNextBit b)"
proof
  fix q x
  assume q: "bb_ok q" "length (bb_content q) < bb_size q"
  then obtain p k where at: "bb_at q p k" by (auto simp: bb_ok_def)
  then have "k < bb_size q" using q(2) bb_at_content by auto
  from StoreNextBit_at [OF at this] show "bb_content (BitBuffer_StoreNextBit x q) = bb_content q @ [x]" "bb_ok (BitBuffer_StoreNextBit x q)"
    by (auto simp: bb_ok_def)
next
  fix q
  assume q: "bb_ok q" "bb_content q \<noteq> []"
  then obtain p k where at: "bb_at q p k" by (auto simp: bb_ok_def)
  then obtain k' where "k = Suc k'" using q(2) bb_at_content by (cases k) auto
  with at have "bb_at q p (Suc k')" by simp
  from GetNextBit_at [OF this] show "bb_content q = fst (BitBuffer_GetNextBit q) # bb_content (snd (BitBuffer_GetNextBit q))"
    "bb_ok (snd (BitBuffer_GetNextBit q))" by (auto simp: bb_ok_def)
qed (simp_all add: bb_size_def BitBuffer_StoreNextBit_def BitBuffer_GetNextBit_def Let_def)

text \<open>The initialisation gives an empty buffer only if the array is clear: it does not clear the bits itself, and storing a zero does not either.\<close>

lemma BitBuffer_Init_ok:
  assumes "list_all (\<lambda>d. d = 0) (BB_Data b)" and "0 < bb_size b" and "bb_size b < 65536"
  shows "bb_ok (BitBuffer_Init b)" and "bb_content (BitBuffer_Init b) = []" and "bb_size (BitBuffer_Init b) = bb_size b"
proof -
  have "\<not> bit_at b j" if "j < bb_size b" for j
    using that assms(1) by (simp add: bit_at_def bb_size_def list_all_length div_less_iff_less_mult mult.commute)
  then have "bb_at (BitBuffer_Init b) 0 0"
    using assms(2,3) by (auto simp: bb_at_def BitBuffer_Init_def bb_size_def pointer_def bit_at_def)
  then show "bb_ok (BitBuffer_Init b)" "bb_content (BitBuffer_Init b) = []" using bb_at_content by (auto simp: bb_ok_def)
  show "bb_size (BitBuffer_Init b) = bb_size b" by (simp add: BitBuffer_Init_def bb_size_def)
qed

lemma Init_keeps_old_bits:
  "let b = BitBuffer_Init \<lparr>BB_Data = replicate 128 0, Elements = 0, BB_In = pointer 0, BB_Out = pointer 0\<rparr>;
       b = BitBuffer_StoreNextBit False (BitBuffer_Init (BitBuffer_StoreNextBit True b))
   in fst (BitBuffer_GetNextBit b) = True"
  by (simp add: BitBuffer_Init_def BitBuffer_StoreNextBit_def BitBuffer_GetNextBit_def next_bit_def pointer_def bv_def Let_def)

end
