(* ===== verification/Magstripe.thy ===== *)
theory Magstripe
  imports HIDClassDevice BitBuffer USBController
begin

text \<open>
  The magnetic card reader (\<^verbatim>\<open>Projects/Magstripe/Magstripe.c\<close>, \<^verbatim>\<open>Lib/MagstripeHW.h\<close>): the bits of a card go into three bit buffers (theory
  \<open>BitBuffer\<close>), and the HID class driver (theory \<open>HIDClassDevice\<close>) sends them to the host as key presses. What the pins of the reader show
  is a list, one entry for each time the program reads them.
\<close>

subsection \<open>Constants and state\<close>

definition TOTAL_TRACKS :: nat where "TOTAL_TRACKS = 3"
definition KEY_NONE :: u8 where "KEY_NONE = 0"
definition KEY_1 :: u8 where "KEY_1 = 30"
definition KEY_0 :: u8 where "KEY_0 = 39"
definition KEY_ENTER :: u8 where "KEY_ENTER = 40"

definition MAG_T1_CLOCK :: u8 where "MAG_T1_CLOCK = bv 0"
definition MAG_T1_DATA :: u8 where "MAG_T1_DATA = bv 1"
definition MAG_T2_CLOCK :: u8 where "MAG_T2_CLOCK = bv 2"
definition MAG_T2_DATA :: u8 where "MAG_T2_DATA = bv 3"
definition MAG_T3_CLOCK :: u8 where "MAG_T3_CLOCK = bv 4"
definition MAG_T3_DATA :: u8 where "MAG_T3_DATA = bv 5"
definition MAG_CARDPRESENT :: u8 where "MAG_CARDPRESENT = bv 6"

definition MAG_MASK :: u8 where
  "MAG_MASK = MAG_T1_DATA OR MAG_T1_CLOCK OR MAG_T2_DATA OR MAG_T2_CLOCK OR MAG_T3_DATA OR MAG_T3_CLOCK OR MAG_CARDPRESENT"

definition sizeof_KeyboardReport :: nat where "sizeof_KeyboardReport = 8"

record magstripe = usb +
  TrackDataBuffers :: "BitBuffer_t list"
  CurrentTrackBuffer :: nat
  IsKeyReleaseReport :: bool

definition Keyboard_HID_Interface :: USB_ClassInfo_HID_Device_t where
  "Keyboard_HID_Interface =
     \<lparr>Config_hid = \<lparr>InterfaceNumber_hid = 0, ReportINEndpoint = \<lparr>Tab_Address = ENDPOINT_DIR_IN OR 1, Tab_Size = 8, Tab_Type = 0, Tab_Banks = 1\<rparr>,
        PrevReportINBuffer = Some (replicate sizeof_KeyboardReport 0), PrevReportINBufferSize = of_nat sizeof_KeyboardReport\<rparr>,
      State_hid = \<lparr>UsingReportProtocol = False, PrevFrameNum = 0, IdleCount = 0, IdleMSRemaining = 0\<rparr>\<rparr>"

subsection \<open>Reading a card\<close>

definition Magstripe_GetStatus :: "u8 \<Rightarrow> u8" where
  "Magstripe_GetStatus MAG_PIN = NOT MAG_PIN AND MAG_MASK"

definition TrackInfo :: "(u8 \<times> u8) list" where
  "TrackInfo = [(MAG_T1_CLOCK, MAG_T1_DATA), (MAG_T2_CLOCK, MAG_T2_DATA), (MAG_T3_CLOCK, MAG_T3_DATA)]"

text \<open>The body of the loop over the tracks.\<close>

definition sample_track :: "u8 \<Rightarrow> u8 \<Rightarrow> u8 \<times> u8 \<Rightarrow> BitBuffer_t \<Rightarrow> BitBuffer_t" where
  "sample_track Prev LCL = (\<lambda>(ClockMask, DataMask) b.
     let DataPinLevel = (LCL AND DataMask \<noteq> 0);
         ClockPinLevel = (LCL AND ClockMask \<noteq> 0);
         ClockLevelChanged = ((LCL XOR Prev) AND ClockMask \<noteq> 0)
     in if ClockPinLevel \<and> ClockLevelChanged then BitBuffer_StoreNextBit DataPinLevel b else b)"

text \<open>The loop over the samples; \<open>None\<close> if the card is never taken away.\<close>

fun Magstripe_loop :: "u8 \<Rightarrow> u8 \<Rightarrow> u8 list \<Rightarrow> BitBuffer_t list \<Rightarrow> BitBuffer_t list option" where
  "Magstripe_loop Prev LCL pins bs =
     (if LCL AND MAG_CARDPRESENT \<noteq> 0 then
        (case pins of
           [] \<Rightarrow> None
         | p # ps \<Rightarrow> Magstripe_loop LCL (Magstripe_GetStatus p) ps (map2 (sample_track Prev LCL) TrackInfo bs))
      else Some bs)"

declare Magstripe_loop.simps [simp del]

definition ReadMagstripeData :: "u8 list \<Rightarrow> magstripe \<Rightarrow> magstripe option" where
  "ReadMagstripeData pins s =
     (case pins of
        [] \<Rightarrow> None
      | p # ps \<Rightarrow> map_option (\<lambda>bs. s\<lparr>TrackDataBuffers := bs, CurrentTrackBuffer := 0\<rparr>)
          (Magstripe_loop 0 (Magstripe_GetStatus p) ps (TrackDataBuffers s)))"

subsection \<open>The callbacks\<close>

definition CreateHIDReport_mag :: "USB_ClassInfo_HID_Device_t \<Rightarrow> u8 \<Rightarrow> u8 \<Rightarrow> u8 list \<Rightarrow> magstripe \<Rightarrow> bool \<times> u8 \<times> u8 list \<times> u16 \<times> magstripe" where
  "CreateHIDReport_mag info ReportID ReportType ReportData s =
     (let s = s\<lparr>IsKeyReleaseReport := \<not> IsKeyReleaseReport s\<rparr>;
          c = CurrentTrackBuffer s; b = TrackDataBuffers s ! c;
          (KeyCode, s) =
            (if IsKeyReleaseReport s \<or> c = TOTAL_TRACKS then (KEY_NONE, s)
             else if Elements b = 0 then (KEY_ENTER, s\<lparr>CurrentTrackBuffer := c + 1\<rparr>)
             else let (Bit, b) = BitBuffer_GetNextBit b
                  in (if Bit then KEY_1 else KEY_0, s\<lparr>TrackDataBuffers := (TrackDataBuffers s)[c := b]\<rparr>))
      in (False, ReportID, ReportData[2 := KeyCode], of_nat sizeof_KeyboardReport, s))"

definition ProcessHIDReport_mag :: "USB_ClassInfo_HID_Device_t \<Rightarrow> u8 \<Rightarrow> u8 \<Rightarrow> u8 list \<Rightarrow> u16 \<Rightarrow> magstripe \<Rightarrow> magstripe" where
  "ProcessHIDReport_mag info ReportID ReportType ReportData ReportSize s = s"

definition magstripe_callbacks :: "magstripe hid_callbacks" where
  "magstripe_callbacks = \<lparr>CreateHIDReport = CreateHIDReport_mag, ProcessHIDReport_cb = ProcessHIDReport_mag\<rparr>"

text \<open>Event handlers of the program, with the interface as the variable they change. It is compiled with \<^verbatim>\<open>ORDERED_EP_CONFIG\<close>.\<close>

definition EVENT_USB_Device_ConfigurationChanged_mag ::
  "world \<Rightarrow> USB_ClassInfo_HID_Device_t \<Rightarrow> magstripe \<Rightarrow> (USB_ClassInfo_HID_Device_t \<times> magstripe) option" where
  "EVENT_USB_Device_ConfigurationChanged_mag w info s =
     do { (_, info, s) \<leftarrow> HID_Device_ConfigureEndpoints True w info s; Some (info, USB_Device_EnableSOFEvents w s) }"

definition EVENT_USB_Device_StartOfFrame_mag :: "USB_ClassInfo_HID_Device_t \<Rightarrow> USB_ClassInfo_HID_Device_t" where
  "EVENT_USB_Device_StartOfFrame_mag = HID_Device_MillisecondElapsed"

subsection \<open>The bits of a card\<close>

text \<open>The data line of a track at the rising edges of its clock.\<close>

fun track_bits :: "u8 \<times> u8 \<Rightarrow> u8 \<Rightarrow> u8 list \<Rightarrow> bool list" where
  "track_bits (clock, data) Prev [] = []"
| "track_bits (clock, data) Prev (LCL # ls) =
     (if has LCL clock \<and> \<not> has Prev clock then [has LCL data] else []) @ track_bits (clock, data) LCL ls"

text \<open>The samples while the card is in the reader.\<close>

definition card_samples :: "u8 list \<Rightarrow> u8 list" where
  "card_samples pins = takeWhile (\<lambda>l. has l MAG_CARDPRESENT) (map Magstripe_GetStatus pins)"

lemma TrackInfo_bv: "t \<in> set TrackInfo \<Longrightarrow> \<exists>n. fst t = bv n"
  by (auto simp: TrackInfo_def MAG_T1_CLOCK_def MAG_T2_CLOCK_def MAG_T3_CLOCK_def)

lemma has_xor: "has (x XOR y) (bv n) \<longleftrightarrow> has x (bv n) \<noteq> has y (bv n)"
  by (simp add: has_bv bit_xor_iff)

lemma sample_track_eq:
  assumes "t \<in> set TrackInfo"
  shows "sample_track Prev LCL t b = fold BitBuffer_StoreNextBit (track_bits t Prev [LCL]) b"
proof -
  obtain n d where t: "t = (bv n, d)" using TrackInfo_bv [OF assms] by (cases t) auto
  have "has (LCL XOR Prev) (bv n) \<longleftrightarrow> has LCL (bv n) \<noteq> has Prev (bv n)" by (rule has_xor)
  then show ?thesis unfolding t sample_track_def by (auto simp: has_def Let_def)
qed

lemma track_bits_append: "track_bits t Prev (l # ls) = track_bits t Prev [l] @ track_bits t l ls"
  by (cases t) auto

lemma length_track_bits: "length (track_bits t Prev ls) \<le> length ls"
  by (induction t Prev ls rule: track_bits.induct) auto

lemma Magstripe_loop_bits:
  assumes "Magstripe_loop Prev (Magstripe_GetStatus p) ps bs = Some bs'" and "length bs = length TrackInfo"
  shows "length bs' = length TrackInfo \<and>
    (\<forall>k < length TrackInfo. bs' ! k = fold BitBuffer_StoreNextBit (track_bits (TrackInfo ! k) Prev (card_samples (p # ps))) (bs ! k))"
  using assms
proof (induction ps arbitrary: Prev p bs)
  case Nil
  then have "\<not> has (Magstripe_GetStatus p) MAG_CARDPRESENT" "bs' = bs"
    by (auto simp: Magstripe_loop.simps has_def split: if_splits)
  moreover from this(1) have "track_bits t Prev (card_samples [p]) = []" for t by (cases t) (simp add: card_samples_def)
  ultimately show ?case using Nil(2) by simp
next
  case (Cons q ps)
  let ?l = "Magstripe_GetStatus p"
  show ?case
  proof (cases "has ?l MAG_CARDPRESENT")
    case True
    let ?bs = "map2 (sample_track Prev ?l) TrackInfo bs"
    have "Magstripe_loop ?l (Magstripe_GetStatus q) ps ?bs = Some bs'"
      using Cons.prems(1) True by (subst (asm) Magstripe_loop.simps) (simp add: has_def)
    from Cons.IH [OF this] Cons.prems(2) have ih: "length bs' = length TrackInfo"
      "k < length TrackInfo \<Longrightarrow> bs' ! k = fold BitBuffer_StoreNextBit (track_bits (TrackInfo ! k) ?l (card_samples (q # ps))) (?bs ! k)" for k by auto
    have "bs' ! k = fold BitBuffer_StoreNextBit (track_bits (TrackInfo ! k) Prev (card_samples (p # q # ps))) (bs ! k)" if "k < length TrackInfo" for k
    proof -
      have "?bs ! k = fold BitBuffer_StoreNextBit (track_bits (TrackInfo ! k) Prev [?l]) (bs ! k)"
        using that Cons.prems(2) sample_track_eq [of "TrackInfo ! k"] by simp
      moreover have "card_samples (p # q # ps) = ?l # card_samples (q # ps)" using True by (simp add: card_samples_def)
      ultimately show ?thesis using ih(2) [OF that] track_bits_append [of "TrackInfo ! k" Prev ?l "card_samples (q # ps)"] by simp
    qed
    then show ?thesis using ih(1) by blast
  next
    case False
    then have "bs' = bs" using Cons.prems(1) by (subst (asm) Magstripe_loop.simps) (simp add: has_def)
    moreover have "track_bits t Prev (card_samples (p # q # ps)) = []" for t using False by (cases t) (simp add: card_samples_def)
    ultimately show ?thesis using Cons.prems(2) by simp
  qed
qed

text \<open>The invariant of the program's variables.\<close>

definition wf_mag :: "magstripe \<Rightarrow> bool" where
  "wf_mag s \<longleftrightarrow> length (TrackDataBuffers s) = TOTAL_TRACKS \<and> CurrentTrackBuffer s \<le> TOTAL_TRACKS \<and> list_all bb_ok (TrackDataBuffers s)"

lemma ReadMagstripeData_bits:
  assumes "ReadMagstripeData pins s = Some s'" and "wf_mag s"
    and "\<And>k. k < TOTAL_TRACKS \<Longrightarrow> length (bb_content (TrackDataBuffers s ! k)) + length (track_bits (TrackInfo ! k) 0 (card_samples pins)) \<le> bb_size (TrackDataBuffers s ! k)"
  shows "wf_mag s' \<and> CurrentTrackBuffer s' = 0 \<and> IsKeyReleaseReport s' = IsKeyReleaseReport s \<and>
    map bb_content (TrackDataBuffers s') = map (\<lambda>k. bb_content (TrackDataBuffers s ! k) @ track_bits (TrackInfo ! k) 0 (card_samples pins)) [0..<TOTAL_TRACKS]"
proof -
  have n: "length TrackInfo = TOTAL_TRACKS" by (simp add: TrackInfo_def TOTAL_TRACKS_def)
  obtain p ps bs where pins: "pins = p # ps" and bs: "Magstripe_loop 0 (Magstripe_GetStatus p) ps (TrackDataBuffers s) = Some bs"
    and s': "s' = s\<lparr>TrackDataBuffers := bs, CurrentTrackBuffer := 0\<rparr>"
    using assms(1) by (auto simp: ReadMagstripeData_def split: list.splits)
  have l: "length bs = TOTAL_TRACKS" and b: "\<And>k. k < TOTAL_TRACKS \<Longrightarrow> bs ! k = fold BitBuffer_StoreNextBit (track_bits (TrackInfo ! k) 0 (card_samples pins)) (TrackDataBuffers s ! k)"
    using Magstripe_loop_bits [OF bs] assms(2) n by (auto simp: wf_mag_def pins)
  have c: "bb_ok (bs ! k) \<and> bb_content (bs ! k) = bb_content (TrackDataBuffers s ! k) @ track_bits (TrackInfo ! k) 0 (card_samples pins)" if "k < TOTAL_TRACKS" for k
    unfolding b [OF that] using assms(2,3) that by (intro bits.put_all_invar_content) (auto simp: wf_mag_def list_all_length)
  have "map bb_content bs = map (\<lambda>k. bb_content (bs ! k)) [0..<TOTAL_TRACKS]" using l by (intro nth_equalityI) simp_all
  then show ?thesis using l c s' by (auto simp: wf_mag_def list_all_length)
qed

subsection \<open>The keys\<close>

definition key :: "bool \<Rightarrow> u8" where
  "key b = (if b then KEY_1 else KEY_0)"

definition track_keys :: "bool list \<Rightarrow> u8 list" where
  "track_keys bs = map key bs @ [KEY_ENTER]"

text \<open>The keys that are still to be sent.\<close>

definition keys_left :: "magstripe \<Rightarrow> u8 list" where
  "keys_left s = concat (map (track_keys \<circ> bb_content) (drop (CurrentTrackBuffer s) (TrackDataBuffers s)))"

lemma keys_defs: "KEY_NONE = 0" "KEY_ENTER \<noteq> 0" "key b \<noteq> 0"
  by (simp_all add: KEY_NONE_def KEY_ENTER_def key_def KEY_1_def KEY_0_def)

lemma content_Nil: "bb_content b = [] \<longleftrightarrow> Elements b = 0"
  by (simp add: bb_content_def unat_eq_0)

text \<open>What the callback reports in a state, and the state it leaves.\<close>

definition report_of :: "u8 \<Rightarrow> u8 list" where
  "report_of k = (replicate sizeof_KeyboardReport 0)[2 := k]"

definition report_key :: "magstripe \<Rightarrow> u8" where
  "report_key s =
     (if \<not> IsKeyReleaseReport s \<or> CurrentTrackBuffer s = TOTAL_TRACKS then KEY_NONE
      else if Elements (TrackDataBuffers s ! CurrentTrackBuffer s) = 0 then KEY_ENTER
      else key (fst (BitBuffer_GetNextBit (TrackDataBuffers s ! CurrentTrackBuffer s))))"

definition after_report :: "magstripe \<Rightarrow> magstripe" where
  "after_report s =
     (let b = TrackDataBuffers s ! CurrentTrackBuffer s in
      if \<not> IsKeyReleaseReport s \<or> CurrentTrackBuffer s = TOTAL_TRACKS then s\<lparr>IsKeyReleaseReport := \<not> IsKeyReleaseReport s\<rparr>
      else if Elements b = 0 then s\<lparr>IsKeyReleaseReport := False, CurrentTrackBuffer := CurrentTrackBuffer s + 1\<rparr>
      else s\<lparr>IsKeyReleaseReport := False, TrackDataBuffers := (TrackDataBuffers s)[CurrentTrackBuffer s := snd (BitBuffer_GetNextBit b)]\<rparr>)"

lemma CreateHIDReport_mag_eq:
  "CreateHIDReport_mag info ID ty d s = (False, ID, d[2 := report_key s], of_nat sizeof_KeyboardReport, after_report s)"
  by (simp add: CreateHIDReport_mag_def report_key_def after_report_def key_def Let_def split: prod.split)

lemma after_report_io: "after_report (s\<lparr>io := h\<rparr>) = (after_report s)\<lparr>io := h\<rparr>" "report_key (s\<lparr>io := h\<rparr>) = report_key s"
  by (simp_all add: after_report_def report_key_def Let_def)

lemma report_release:
  assumes "\<not> IsKeyReleaseReport s"
  shows "report_key s = 0 \<and> keys_left (after_report s) = keys_left s \<and> wf_mag (after_report s) = wf_mag s \<and> IsKeyReleaseReport (after_report s)"
  using assms by (simp add: report_key_def after_report_def keys_left_def wf_mag_def keys_defs)

lemma report_press:
  assumes "IsKeyReleaseReport s" and "wf_mag s"
  shows "wf_mag (after_report s) \<and> \<not> IsKeyReleaseReport (after_report s) \<and> keys_left (after_report s) = drop 1 (keys_left s) \<and>
    report_key s = (case keys_left s of [] \<Rightarrow> 0 | k # _ \<Rightarrow> k)"
proof (cases "CurrentTrackBuffer s = TOTAL_TRACKS")
  case True
  then show ?thesis using assms by (simp add: report_key_def after_report_def keys_left_def wf_mag_def keys_defs)
next
  case False
  let ?c = "CurrentTrackBuffer s" and ?bs = "TrackDataBuffers s"
  let ?b = "?bs ! ?c"
  have c: "?c < length ?bs" and ok: "bb_ok ?b" "list_all bb_ok ?bs" using assms(2) False by (auto simp: wf_mag_def list_all_length)
  have keys: "keys_left s = track_keys (bb_content ?b) @ concat (map (track_keys \<circ> bb_content) (drop (Suc ?c) ?bs))"
    using c by (simp add: keys_left_def Cons_nth_drop_Suc [symmetric])
  show ?thesis
  proof (cases "Elements ?b = 0")
    case True
    then have "track_keys (bb_content ?b) = [KEY_ENTER]" by (simp add: track_keys_def content_Nil [THEN iffD2])
    then show ?thesis using True False assms keys by (simp add: report_key_def after_report_def keys_left_def wf_mag_def Let_def)
  next
    case e: False
    let ?b' = "snd (BitBuffer_GetNextBit ?b)"
    have b': "bb_content ?b = fst (BitBuffer_GetNextBit ?b) # bb_content ?b'" "bb_ok ?b'"
      using bits.advance_content [OF ok(1)] bits.advance_invar [OF ok(1)] e by (simp_all add: content_Nil)
    have "drop ?c (?bs[?c := ?b']) = ?b' # drop (Suc ?c) ?bs" using c by (simp add: drop_update_swap Cons_nth_drop_Suc [symmetric])
    moreover have "list_all bb_ok (?bs[?c := ?b'])" using ok(2) b'(2) c by (auto simp: list_all_length nth_list_update)
    ultimately show ?thesis using e False assms keys b'(1)
      by (simp add: report_key_def after_report_def keys_left_def wf_mag_def track_keys_def Let_def)
  qed
qed

lemma keys_left_nonzero: "k \<in> set (keys_left s) \<Longrightarrow> k \<noteq> 0"
  using keys_defs by (auto simp: keys_left_def track_keys_def split: if_splits)

subsection \<open>Turns of the main loop\<close>

text \<open>The previous report of the driver. While a key is down, the next report is a release.\<close>

definition mag_config :: "u8 \<Rightarrow> HID_Device_Config \<Rightarrow> bool" where
  "mag_config k c \<longleftrightarrow> Tab_Address (ReportINEndpoint c) = ENDPOINT_DIR_IN OR 1 \<and> PrevReportINBuffer c = Some (report_of k) \<and>
     PrevReportINBufferSize c = of_nat sizeof_KeyboardReport"

definition mag_info :: "USB_ClassInfo_HID_Device_t \<Rightarrow> magstripe \<Rightarrow> bool" where
  "mag_info info s \<longleftrightarrow> (\<exists>k. mag_config k (Config_hid info) \<and> (IsKeyReleaseReport s \<longrightarrow> k = 0))"

text \<open>A turn of the main loop in which the driver can send: the device is configured, a new frame has begun, and the endpoint has room.\<close>

definition can_send :: "world \<Rightarrow> USB_ClassInfo_HID_Device_t \<Rightarrow> magstripe \<Rightarrow> bool" where
  "can_send w info s \<longleftrightarrow> USB_DeviceState s = DEVICE_STATE_Configured \<and> irq w (io s) = None \<and>
     fst (USB_Device_GetFrameNumber w s) \<noteq> PrevFrameNum (State_hid info) \<and> in_ready w 1 (io (snd (USB_Device_GetFrameNumber w s))) sizeof_KeyboardReport"

definition same_tracks :: "magstripe \<Rightarrow> magstripe \<Rightarrow> bool" where
  "same_tracks s s' \<longleftrightarrow> TrackDataBuffers s' = TrackDataBuffers s \<and> CurrentTrackBuffer s' = CurrentTrackBuffer s \<and> IsKeyReleaseReport s' = IsKeyReleaseReport s"

lemma same_tracks_simps: "same_tracks s s' \<Longrightarrow> wf_mag s' = wf_mag s \<and> keys_left s' = keys_left s \<and> IsKeyReleaseReport s' = IsKeyReleaseReport s"
  by (simp add: same_tracks_def wf_mag_def keys_left_def)

definition pressed :: "u8 list list \<Rightarrow> u8 list" where
  "pressed ps = filter (\<lambda>k. k \<noteq> 0) (map (\<lambda>p. p ! 2) ps)"

lemma report_of_simps: "report_of k ! 2 = k" "length (report_of k) = 8" "report_of k = report_of k' \<longleftrightarrow> k = k'"
  by (auto simp: report_of_def sizeof_KeyboardReport_def numeral_eq_Suc)

lemma mag_turn:
  assumes "mag_info info s" and "can_send w info s" and "\<not> IsKeyReleaseReport s \<Longrightarrow> report_key s = 0"
  shows "\<exists>t info'. HID_Device_USBTask magstripe_callbacks task w info s = Some (info', (after_report s)\<lparr>io := io s @ t\<rparr>) \<and>
    mag_config (report_key s) (Config_hid info') \<and> pressed (packets [] t) = (if report_key s \<noteq> 0 then [report_key s] else [])"
proof -
  let ?k = "report_key s" and ?n = "of_nat sizeof_KeyboardReport :: u16"
  obtain k where k: "mag_config k (Config_hid info)" "IsKeyReleaseReport s \<Longrightarrow> k = 0" using assms(1) by (auto simp: mag_info_def)
  obtain f s1 where f: "USB_Device_GetFrameNumber w s = (f, s1)" by fastforce
  have st: "USB_DeviceState s = DEVICE_STATE_Configured" "irq w (io s) = None" and fn: "f \<noteq> PrevFrameNum (State_hid info)" and r: "in_ready w 1 (io s1) 8"
    using assms(2) f by (auto simp: can_send_def sizeof_KeyboardReport_def)
  have n: "unat ?n = 8" by (simp add: sizeof_KeyboardReport_def)
  have cb: "CreateHIDReport magstripe_callbacks info 0 0 (replicate (unat (PrevReportINBufferSize (Config_hid info))) 0) (s\<lparr>io := h\<rparr>) =
      (False, 0, report_of ?k, ?n, after_report (s\<lparr>io := h\<rparr>))" for h
    using k(1) by (simp add: magstripe_callbacks_def CreateHIDReport_mag_eq after_report_io mag_config_def report_of_def sizeof_KeyboardReport_def)
  have len: "length (hid_packet 0 (report_of ?k) ?n) = 8" "hid_packet 0 (report_of ?k) ?n = report_of ?k"
    using n report_of_simps(2) [of ?k] by (simp_all add: hid_packet_def)
  have e: "Tab_Address (ReportINEndpoint (Config_hid info)) AND ENDPOINT_EPNUM_MASK = 1"
    using k(1) by (simp add: mag_config_def ENDPOINT_DIR_IN_def ENDPOINT_EPNUM_MASK_def)
  obtain t f' where t: "HID_Device_USBTask magstripe_callbacks task w info s =
      Some (after_turn info (report_due info False (report_of ?k) ?n) (report_of ?k) f', (after_report s)\<lparr>io := io s @ t\<rparr>)"
    "packets [] t = (if report_due info False (report_of ?k) ?n then [report_of ?k] else [])"
    using hid_task_turn [OF st f fn cb after_report_io(1), of task] r n report_of_simps(2) [of ?k] unfolding e len by auto
  have "report_due info False (report_of ?k) ?n" if "?k \<noteq> 0"
    using that assms(3) k n report_of_simps [of k] report_of_simps [of ?k] by (auto simp: report_due_def mag_config_def)
  then have "pressed (packets [] t) = (if ?k \<noteq> 0 then [?k] else [])"
    unfolding t(2) by (auto simp: pressed_def report_of_simps)
  moreover have "mag_config ?k (Config_hid (after_turn info due (report_of ?k) f'))" for due
    using k(1) report_of_simps(2) by (simp add: after_turn_def store_report_def mag_config_def sizeof_KeyboardReport_def Let_def)
  ultimately show ?thesis using t(1) by blast
qed

text \<open>
  A run of \<open>n\<close> such turns with the packets the host gets. Between two turns interrupts and \<^verbatim>\<open>USB_USBTask\<close> may change everything but
  the variables of the program and the configuration of the driver.
\<close>

inductive mag_turns :: "nat \<Rightarrow> USB_ClassInfo_HID_Device_t \<Rightarrow> magstripe \<Rightarrow> u8 list list \<Rightarrow> USB_ClassInfo_HID_Device_t \<Rightarrow> magstripe \<Rightarrow> bool" where
  no_turn: "mag_turns 0 info s [] info s"
| one_turn: "mag_turns n info s ps info1 s1 \<Longrightarrow> same_tracks s1 s2 \<Longrightarrow> Config_hid info2 = Config_hid info1 \<Longrightarrow> can_send w info2 s2 \<Longrightarrow>
    HID_Device_USBTask magstripe_callbacks task w info2 s2 = Some (info3, s3) \<Longrightarrow> io s3 = io s2 @ t \<Longrightarrow>
    mag_turns (Suc n) info s (ps @ packets [] t) info3 s3"

definition presses :: "nat \<Rightarrow> magstripe \<Rightarrow> nat" where
  "presses n s = (n + (if IsKeyReleaseReport s then 1 else 0)) div 2"

lemma mag_info_next:
  "mag_info info s \<Longrightarrow> same_tracks s s' \<Longrightarrow> Config_hid info' = Config_hid info \<Longrightarrow> mag_info info' s'"
  by (simp add: mag_info_def same_tracks_def)

lemma mag_turn_step:
  assumes "mag_info info s" and "wf_mag s" and "can_send w info s"
  shows "\<exists>t info' s'. HID_Device_USBTask magstripe_callbacks task w info s = Some (info', s') \<and> io s' = io s @ t \<and> mag_info info' s' \<and> wf_mag s' \<and>
    IsKeyReleaseReport s' = (\<not> IsKeyReleaseReport s) \<and> pressed (packets [] t) = take (presses 1 s) (keys_left s) \<and> keys_left s' = drop (presses 1 s) (keys_left s)"
proof -
  have io': "wf_mag (s\<lparr>io := h\<rparr>) = wf_mag s" "keys_left (s\<lparr>io := h\<rparr>) = keys_left s" for s h by (simp_all add: wf_mag_def keys_left_def)
  show ?thesis
  proof (cases "IsKeyReleaseReport s")
    case True
    note p = report_press [OF True assms(2)]
    have k: "(if report_key s \<noteq> 0 then [report_key s] else []) = take 1 (keys_left s)"
      using p keys_left_nonzero [of _ s] by (cases "keys_left s") auto
    obtain t info' where "HID_Device_USBTask magstripe_callbacks task w info s = Some (info', (after_report s)\<lparr>io := io s @ t\<rparr>)"
      "mag_config (report_key s) (Config_hid info')" "pressed (packets [] t) = take 1 (keys_left s)"
      using mag_turn [OF assms(1,3), of task] True k by auto
    then show ?thesis using p True by (intro exI conjI) (auto simp: presses_def mag_info_def io')
  next
    case False
    note p = report_release [OF False]
    obtain t info' where "HID_Device_USBTask magstripe_callbacks task w info s = Some (info', (after_report s)\<lparr>io := io s @ t\<rparr>)"
      "mag_config 0 (Config_hid info')" "pressed (packets [] t) = []"
      using mag_turn [OF assms(1,3), of task] p by auto
    then show ?thesis using p False assms(2)
      by (intro exI [of _ t] exI [of _ info'] exI [of _ "(after_report s)\<lparr>io := io s @ t\<rparr>"]) (auto simp: presses_def mag_info_def io')
  qed
qed

lemma mag_turns_keys:
  assumes "mag_turns n info s ps info' s'" and "mag_info info s" and "wf_mag s"
  shows "mag_info info' s' \<and> wf_mag s' \<and> IsKeyReleaseReport s' = (IsKeyReleaseReport s = even n) \<and>
    pressed ps = take (presses n s) (keys_left s) \<and> keys_left s' = drop (presses n s) (keys_left s)"
  using assms
proof (induction rule: mag_turns.induct)
  case (no_turn info s)
  then show ?case by (simp add: presses_def pressed_def)
next
  case (one_turn n info s ps info1 s1 s2 info2 w task info3 s3 t)
  note ih = one_turn.IH [OF one_turn.prems] and eq = same_tracks_simps [OF one_turn.hyps(2)]
  have i2: "mag_info info2 s2" using ih mag_info_next one_turn.hyps(2,3) by blast
  have w2: "wf_mag s2" using ih eq by simp
  have step: "mag_info info3 s3" "wf_mag s3" "IsKeyReleaseReport s3 = (\<not> IsKeyReleaseReport s2)"
    "pressed (packets [] t) = take (presses 1 s2) (keys_left s2)" "keys_left s3 = drop (presses 1 s2) (keys_left s2)"
    using mag_turn_step [OF i2 w2 one_turn.hyps(4), of task] one_turn.hyps(5,6) by auto
  have "presses (Suc n) s = presses n s + presses 1 s2"
    using ih eq by (auto simp: presses_def elim!: oddE evenE)
  moreover have "pressed (ps @ packets [] t) = pressed ps @ pressed (packets [] t)" by (simp add: pressed_def)
  ultimately show ?case using step ih eq by (simp add: take_add drop_drop add.commute) 
qed

text \<open>The program reads a card until it is taken away.\<close>

lemma Magstripe_loop_returns:
  "\<exists>q \<in> set (p # ps). \<not> has (Magstripe_GetStatus q) MAG_CARDPRESENT \<Longrightarrow> \<exists>bs'. Magstripe_loop Prev (Magstripe_GetStatus p) ps bs = Some bs'"
proof (induction ps arbitrary: Prev p bs)
  case Nil
  then show ?case by (subst Magstripe_loop.simps) (simp add: has_def)
next
  case (Cons q ps)
  show ?case
  proof (cases "has (Magstripe_GetStatus p) MAG_CARDPRESENT")
    case True
    then have "\<exists>r \<in> set (q # ps). \<not> has (Magstripe_GetStatus r) MAG_CARDPRESENT" using Cons.prems by auto
    from Cons.IH [OF this] True show ?thesis by (subst Magstripe_loop.simps) (simp add: has_def)
  next
    case False
    then show ?thesis by (subst Magstripe_loop.simps) (simp add: has_def)
  qed
qed

lemma keys_left_tracks:
  assumes "CurrentTrackBuffer s = 0" and "map bb_content (TrackDataBuffers s) = map f TrackInfo"
  shows "keys_left s = concat (map (track_keys \<circ> f) TrackInfo)"
proof -
  have "map (track_keys \<circ> bb_content) (TrackDataBuffers s) = map track_keys (map bb_content (TrackDataBuffers s))" by simp
  then show ?thesis using assms by (simp add: keys_left_def)
qed

lemma read_card:
  assumes "wf_mag s" and "\<exists>q \<in> set pins. \<not> has (Magstripe_GetStatus q) MAG_CARDPRESENT"
    and "\<And>b. b \<in> set (TrackDataBuffers s) \<Longrightarrow> Elements b = 0 \<and> length (card_samples pins) \<le> bb_size b"
  shows "\<exists>s1. ReadMagstripeData pins s = Some s1 \<and> wf_mag s1 \<and> IsKeyReleaseReport s1 = IsKeyReleaseReport s \<and>
    keys_left s1 = concat (map (\<lambda>t. track_keys (track_bits t 0 (card_samples pins))) TrackInfo)"
proof -
  let ?f = "\<lambda>t. track_bits t 0 (card_samples pins)"
  have n: "length TrackInfo = TOTAL_TRACKS" "length (TrackDataBuffers s) = TOTAL_TRACKS" using assms(1) by (simp_all add: wf_mag_def TrackInfo_def TOTAL_TRACKS_def)
  obtain s1 where s1: "ReadMagstripeData pins s = Some s1"
    using assms(2) Magstripe_loop_returns by (cases pins) (fastforce simp: ReadMagstripeData_def)+
  have empty: "bb_content (TrackDataBuffers s ! k) = []" and "length (card_samples pins) \<le> bb_size (TrackDataBuffers s ! k)" if "k < TOTAL_TRACKS" for k
    using assms(3) [of "TrackDataBuffers s ! k"] that n by (simp_all add: content_Nil)
  then have "length (bb_content (TrackDataBuffers s ! k)) + length (?f (TrackInfo ! k)) \<le> bb_size (TrackDataBuffers s ! k)" if "k < TOTAL_TRACKS" for k
    using that length_track_bits [of "TrackInfo ! k" 0 "card_samples pins"] by (simp add: le_trans)
  from ReadMagstripeData_bits [OF s1 assms(1) this] have r: "wf_mag s1" "CurrentTrackBuffer s1 = 0" "IsKeyReleaseReport s1 = IsKeyReleaseReport s"
    and c: "map bb_content (TrackDataBuffers s1) = map (\<lambda>k. bb_content (TrackDataBuffers s ! k) @ ?f (TrackInfo ! k)) [0..<TOTAL_TRACKS]" by auto
  have "map bb_content (TrackDataBuffers s1) = map ?f TrackInfo"
    unfolding c using n empty by (intro nth_equalityI) simp_all
  then have keys: "keys_left s1 = concat (map (\<lambda>t. track_keys (?f t)) TrackInfo)" using keys_left_tracks [OF r(2)] by (simp add: comp_def)
  then show ?thesis using s1 r by blast
qed


subsection \<open>Examples\<close>

text \<open>A host whose frame number is given.\<close>

definition mag_host :: "u8 \<Rightarrow> world" where
  "mag_host x = const_world (\<lambda>r. if r = UEINTX then bv TXINI OR bv RWAL else if r = UECFG0X then bv EPDIR else x)"

lemma mag_host_ready: "in_ready (mag_host x) e h n"
  by (simp add: mag_host_def in_ready_def ready_in_def has_def bv_def)

lemma some_frame: "\<exists>x. can_send (mag_host x) info (s\<lparr>USB_DeviceState := DEVICE_STATE_Configured\<rparr>)"
proof -
  have "fst (USB_Device_GetFrameNumber (mag_host 1) s) \<noteq> fst (USB_Device_GetFrameNumber (mag_host 2) s)" for s :: magstripe
    by (simp add: USB_Device_GetFrameNumber_def io_simps mag_host_def join16_def)
  from this [of "s\<lparr>USB_DeviceState := DEVICE_STATE_Configured\<rparr>"]
  obtain x where "fst (USB_Device_GetFrameNumber (mag_host x) (s\<lparr>USB_DeviceState := DEVICE_STATE_Configured\<rparr>)) \<noteq> PrevFrameNum (State_hid info)" by metis
  moreover have "irq (mag_host x) h = None" for h by (simp add: mag_host_def)
  ultimately show ?thesis by (intro exI [of _ x]) (simp add: can_send_def mag_host_ready)
qed

lemma mag_turns_exist:
  assumes "wf_mag s" and "mag_info info s"
  shows "\<exists>ps info' s'. mag_turns n info s ps info' s'"
proof (induction n)
  case 0
  show ?case using no_turn by blast
next
  case (Suc n)
  then obtain ps info' s' where t: "mag_turns n info s ps info' s'" by blast
  let ?s = "s'\<lparr>USB_DeviceState := DEVICE_STATE_Configured\<rparr>"
  have same: "same_tracks s' ?s" by (simp add: same_tracks_def)
  have "mag_info info' ?s" "wf_mag ?s" using mag_turns_keys [OF t assms(2,1)] same_tracks_simps [OF same] mag_info_next [OF _ same, of info' info'] by simp_all
  moreover obtain x where x: "can_send (mag_host x) info' ?s" using some_frame by blast
  ultimately obtain t' info2 s2 where "HID_Device_USBTask magstripe_callbacks Some (mag_host x) info' ?s = Some (info2, s2)" "io s2 = io ?s @ t'"
    using mag_turn_step by blast
  then show ?case using one_turn [OF t same refl x] by blast
qed

definition mag_example :: magstripe where
  "mag_example = usb.extend usb_init (magstripe.fields
     (replicate 3 (BitBuffer_Init \<lparr>BB_Data = replicate 32 0, Elements = 0, BB_In = pointer 0, BB_Out = pointer 0\<rparr>)) TOTAL_TRACKS False)"

lemma mag_bits: "MAG_T1_CLOCK = 1" "MAG_T1_DATA = 2" "MAG_T2_CLOCK = 4" "MAG_T2_DATA = 8" "MAG_T3_CLOCK = 16" "MAG_T3_DATA = 32" "MAG_CARDPRESENT = 64"
  by (simp_all add: bv_def MAG_T1_CLOCK_def MAG_T1_DATA_def MAG_T2_CLOCK_def MAG_T2_DATA_def MAG_T3_CLOCK_def MAG_T3_DATA_def MAG_CARDPRESENT_def)

lemma example_samples: "card_samples [0xBC, 0xBF, 0xBE, 0xFF] = [0x43, 0x40, 0x41]"
  by (simp add: card_samples_def Magstripe_GetStatus_def MAG_MASK_def mag_bits has_def)

lemma example_bits:
  "map (\<lambda>t. track_bits t 0 [0x43, 0x40, 0x41]) TrackInfo = [[True, False], [], []]"
  by (simp add: TrackInfo_def mag_bits has_def)

lemma mag_example_ok: "wf_mag mag_example" "mag_info Keyboard_HID_Interface mag_example" "IsKeyReleaseReport mag_example = False"
  "b \<in> set (TrackDataBuffers mag_example) \<Longrightarrow> Elements b = 0 \<and> bb_size b = 256"
proof -
  let ?b = "\<lparr>BB_Data = replicate 32 0, Elements = 0, BB_In = pointer 0, BB_Out = pointer 0\<rparr>"
  have b: "bb_ok (BitBuffer_Init ?b)" by (rule BitBuffer_Init_ok) (simp_all add: bb_size_def list_all_iff)
  have t: "TrackDataBuffers mag_example = replicate 3 (BitBuffer_Init ?b)" "CurrentTrackBuffer mag_example = TOTAL_TRACKS" "IsKeyReleaseReport mag_example = False"
    by (simp_all add: mag_example_def magstripe.defs usb.defs)
  then show "IsKeyReleaseReport mag_example = False" by simp
  show "wf_mag mag_example" using b by (simp add: wf_mag_def t list_all_iff TOTAL_TRACKS_def)
  show "mag_info Keyboard_HID_Interface mag_example"
    by (simp add: mag_info_def mag_config_def Keyboard_HID_Interface_def t report_of_def sizeof_KeyboardReport_def exI [of _ 0] numeral_eq_Suc)
  show "b \<in> set (TrackDataBuffers mag_example) \<Longrightarrow> Elements b = 0 \<and> bb_size b = 256"
    by (auto simp: t BitBuffer_Init_def bb_size_def)
qed


end
