(* ===== verification/Spec2Isabelle.thy ===== *)
theory Spec2Isabelle
  imports Firmware Bridge Relays ConfigDescriptors RingBuffer Common FlashProgramming Magstripe
begin

text \<open>
  \<^bold>\<open>The program.\<close> The repository holds the firmware of a USB game pad for an ATmega16U2 (\<^verbatim>\<open>Joystick.c\<close>, \<^verbatim>\<open>Joystick.h\<close>,
  \<^verbatim>\<open>Descriptors.c\<close>), the USB library LUFA on which it is built (\<^verbatim>\<open>lufa/LUFA\<close>), and Python scripts for the PC. The script
  \<^verbatim>\<open>bridge.py\<close> reads a game controller and writes its state as a line of fourteen hexadecimal digits to a serial port. On the
  pad, the interrupt \<^verbatim>\<open>USART1_RX_vect\<close> stores the bytes in a circular buffer; the main loop of \<^verbatim>\<open>main\<close> calls \<^verbatim>\<open>HID_Task\<close>, which sends
  the present state to the USB host and the byte \<^verbatim>\<open>U\<close> to the bridge, \<^verbatim>\<open>USB_USBTask\<close>, which answers control requests, and
  \<^verbatim>\<open>Serial_Task\<close>, which decodes the buffer. The interrupt \<^verbatim>\<open>USB_GEN_vect\<close> follows the bus. The directory
  \<^verbatim>\<open>controller\<close> has older scripts with a text protocol of their own. LUFA comes with programs of its own, of which two are part of the
  development: the HID boot loader (\<^verbatim>\<open>Bootloaders/HID\<close>), where a program on the PC reads a HEX file and sends it in reports to a device that
  writes it to its flash memory, and the magnetic card reader (\<^verbatim>\<open>Projects/Magstripe\<close>), which types the bits of a card as a keyboard on the HID class driver.

  \<^bold>\<open>Theories and sources.\<close>
  \<^item> \<open>Prelude\<close>: words, byte order, bit masks. \<open>ByteQueue\<close>: the contract of a bounded queue (locale \<open>bounded_queue\<close>).
    \<open>Loops\<close>: \<open>iterate\<close>, a loop that may run for ever, as a \<open>partial_function\<close> with value \<open>None\<close> when it does.
  \<^item> \<open>JoystickSerial\<close>: globals, receive buffer and line decoder of \<^verbatim>\<open>Joystick.c\<close> (record \<open>joystick\<close>, \<open>rx_store\<close>, \<open>Serial_char\<close>,
    \<open>Serial_step\<close>, \<open>Serial_Task\<close>).
  \<^item> \<open>Bridge\<close>: \<^verbatim>\<open>bridge.py\<close>, that is \<^verbatim>\<open>controller_states\<close>, \<^verbatim>\<open>example_macro\<close>, \<^verbatim>\<open>replay_states\<close>, the class \<^verbatim>\<open>InputStack\<close> and the main loop.
    \<open>Relays\<close>: the scripts of the directory \<^verbatim>\<open>controller\<close>, that is the class \<^verbatim>\<open>SwitchController\<close>, \<^verbatim>\<open>pc-control.py\<close>,
    \<^verbatim>\<open>gamepad-control-relay.py\<close> and the handlers of controller states of \<^verbatim>\<open>twitch-control.py\<close> and \<^verbatim>\<open>twitch-control-TAS-reader.py\<close>.
  \<^item> \<open>StdDescriptors\<close>, \<open>Descriptors\<close>: descriptor structs as records with their bytes, the report item macros, the descriptors of the pad and
    \<^verbatim>\<open>CALLBACK_USB_GetDescriptor\<close>. \<open>ConfigDescriptors\<close>: the searches of \<^verbatim>\<open>ConfigDescriptors.c\<close>. \<open>HIDParser\<close>: \<^verbatim>\<open>HIDParser.c\<close>.
    \<open>PadReport\<close>: the report structs of \<^verbatim>\<open>Joystick.h\<close>. \<open>RingBuffer\<close>: \<^verbatim>\<open>RingBuffer.h\<close>. \<open>Common\<close>: \<^verbatim>\<open>Endianness.h\<close> and \<^verbatim>\<open>Common.h\<close>.
  \<^item> \<open>Machine\<close>: registers and globals of the USB stack (record \<open>usb\<close>). \<open>Endpoint\<close>: \<^verbatim>\<open>Endpoint_AVR8.h\<close> and \<^verbatim>\<open>Endpoint_AVR8.c\<close>.
    \<open>EndpointStream\<close>: \<^verbatim>\<open>EndpointStream_AVR8.c\<close> with its templates. \<open>ControlTransfer\<close>, \<open>ControlRead\<close>: what the control streams do on the bus.
    \<open>DeviceStandardReq\<close>: \<^verbatim>\<open>DeviceStandardReq.c\<close> and \<^verbatim>\<open>USBTask.c\<close>. \<open>Serial\<close>: \<^verbatim>\<open>Serial_AVR8.h\<close> and \<^verbatim>\<open>Serial_AVR8.c\<close>.
  \<^item> \<open>Joystick\<close>: the rest of \<^verbatim>\<open>Joystick.c\<close> on the stack (record \<open>firmware\<close>, an extension of \<open>usb\<close>). \<open>USBController\<close>:
    \<^verbatim>\<open>USBController_AVR8.c\<close> and \<^verbatim>\<open>Device_AVR8.c\<close>. \<open>USBInterrupt\<close>: \<^verbatim>\<open>USBInterrupt_AVR8.c\<close>. \<open>Firmware\<close>: the start of \<^verbatim>\<open>main\<close> and whole lives of
    the firmware.
  \<^item> \<open>IntelHex\<close>: \<^verbatim>\<open>hid_bootloader_cli.c\<close>, that is the reader of HEX files with the parts of the C library it uses (\<^verbatim>\<open>sscanf\<close>, \<^verbatim>\<open>fgets\<close>), the options and
    \<^verbatim>\<open>main\<close>. \<open>BootloaderHID\<close>: \<^verbatim>\<open>BootloaderHID.c\<close> and its descriptors (record \<open>bootloader\<close>, an extension of \<open>usb\<close>). \<open>FlashProgramming\<close>: both sides together, with
    the contents of a HEX file and of the flash memory as the specification.
  \<^item> \<open>HIDClassDevice\<close>: \<^verbatim>\<open>HIDClassDevice.c\<close>, for every application, whose callbacks are a parameter. \<open>BitBuffer\<close>: \<^verbatim>\<open>CircularBitBuffer.c\<close>.
    \<open>Magstripe\<close>: \<^verbatim>\<open>Magstripe.c\<close> and \<^verbatim>\<open>MagstripeHW.h\<close> (record \<open>magstripe\<close>, an extension of \<open>usb\<close>), with the samples of the pins as a list.

  \<^bold>\<open>How state and hardware are modelled.\<close> Functions pass the state explicitly. The hardware is a parameter: in a \<open>world\<close> \<open>w\<close>, \<open>dev w h r\<close> is what
  register \<open>r\<close> reads after the history \<open>h\<close> of register accesses, and \<open>irq w h\<close> what interrupts have made of the device state;
  the history is the field \<open>io\<close> of the state, so a theorem can speak about the order of accesses. What a theorem needs of the hardware or
  of the host is a named hypothesis about \<open>w\<close>, with a witness for a concrete world. SDL, the AVR C library and uninitialised memory
  are parameters too. Undefined behaviour is a value (\<open>Inl (OutOfBounds i)\<close>, \<open>UB\<close>), and so are Python's exceptions.
  The options are those of \<^verbatim>\<open>Config/LUFAConfig.h\<close> and the makefile: a device, on AVR8 series 2, with a control endpoint of 64 bytes and descriptors
  in flash. Boot loader and card reader are compiled with \<^verbatim>\<open>ORDERED_EP_CONFIG\<close>, which has definitions of its own (\<open>Endpoint_ConfigureEndpoint_ordered\<close>). The chip of the boot loader is a
  parameter (\<open>boot_target\<close>). The boot loader records its commands to the flash controller in its state; what the controller makes of them is the hypothesis
  \<open>flash_controller\<close>, which states erasing, filling and writing of one page. Of the PC, the content of the file, the answers of the USB device and the old content of
  local variables are the record \<open>loader_env\<close>.

  \<^bold>\<open>Bounds and loops.\<close> Counters keep the widths of the C types (\<open>u8\<close>, \<open>u16\<close>, \<open>u32\<close>), so that they wrap as in the code. No fuel is used: loops over data are
  recursive functions with termination proofs, and loops that wait for the hardware are \<open>iterate\<close>, where a claim that a call returns is proved
  as \<open>\<exists>s'. f s = Some s'\<close>.

  \<^bold>\<open>Interfaces.\<close> \<open>bounded_queue\<close> is interpreted by the receive buffer, by the ring buffer and by the bit buffer, on which the card reader rests; \<open>usb_task\<close> (what a stream may assume of the task it
  calls while it waits) and \<open>usb_application\<close> (what the stack may assume of the events) by the events of the pad; \<open>device_events\<close> and
  \<open>silent_events\<close> (the events of the interrupt) by those the firmware has; \<open>line_source\<close> by the sources of the bridge.

  \<^bold>\<open>What is shown.\<close>
  \<^item> End to end: the state of a game controller travels unchanged through bridge and pad to the values a host decodes (\<open>bridge_to_host\<close>, below).
  \<^item> Serial link: round trip of a message, refinement of a line protocol, soundness under every interleaving with the interrupt, and the two ways it
    fails (an overlong line, an unreported overrun).
  \<^item> PC side: which controller states have a message, lock step of bridge and device, recording and replay, the stack of sources; access rights
    and round trip of the older text protocol, and that it drives this firmware out of bounds.
  \<^item> Descriptors and reports: the callback returns the right bytes, a host that parses the report descriptor reads every field, the parser stays in bounds
    without PUSH and overruns with it, report items round trip, the searches find the first match.
  \<^item> Endpoints and control transfers: waits return with a justified result, replies consist of the right packets, reads stay in their buffer, every
    standard request on its branches, unsupported requests are stalled, descriptors are delivered through the whole stack.
  \<^item> Application and controller: \<^verbatim>\<open>HID_Task\<close> sends only the report, the globals stay well formed, the interrupt sources stay consistent, the clock is released
    only after the PLL has locked, what a bus reset does.
  \<^item> Boot loader: a HEX file given to the program on the PC is in the flash memory afterwards and nothing else has changed; whatever the host sends, the
    boot loader never erases or writes its own section; the reader stays in its arrays for numbers without a sign, and where it does not; chips with 64 KB are
    programmed wrongly.
  \<^item> HID class driver and card reader: a report is sent exactly when it is due, the idle period and the protocol round trip, and the bits of a card arrive at the
    host as key presses, none lost and none twice.
  \<^item> Library: the ring buffer is a queue, also with an insertion inside the window of a removal; byte swaps; the baud rate divisor is the nearest.

  \<^bold>\<open>Not modelled.\<close> Host mode, OTG and the other architectures of LUFA are not compiled into these programs; its other class drivers, its board and peripheral
  drivers, demos, projects and bootloaders are not used by them. Of the boot loader, \<^verbatim>\<open>SetupHardware\<close> and the task of the library in its configuration are left out (the task is a
  parameter of \<open>boot_loop\<close>); of the program on the PC, the access to the device through the libraries of three operating systems; of the card reader, its descriptors, its set-up and its control
  requests, which go through a smaller endpoint than that of the pad. The stream objects of the C library, the opening of files and ports, the command line and the keyboard of
  \<^verbatim>\<open>bridge.py\<close>, sockets, chat commands and image search of \<^verbatim>\<open>twitch-control.py\<close> and the wrappers of Windows drivers are input and output of systems whose code is
  not here. Of the timing only orders of events are modelled, not durations or baud rates on the wire.
\<close>

section \<open>From the bridge to the host\<close>

lemma message_received:
  assumes "buffer_ok (joy s)" and "pending (joy s) = []" and "line_rel (q, []) (joy s)" and "serial_host w (io s) (bridge_message p)"
  shows "\<exists>t j. rx_interrupts w 15 s = Some (s\<lparr>io := io s @ t, joy := fold rx_store (bridge_message p) (joy s)\<rparr>) \<and>
    Serial_Task (fold rx_store (bridge_message p) (joy s)) = Inr j \<and> pad_of j = p"
proof -
  have len: "length (bridge_message p) = 15"
    by (simp add: bridge_message_def hexlify_def length_nibbles pad_bytes_def)
  obtain t where "rx_interrupts w 15 s = Some (s\<lparr>io := io s @ t, joy := fold rx_store (bridge_message p) (joy s)\<rparr>)"
    using rx_interrupts_store [OF assms(4), of s "[]" 15] no_overrun [OF assms(2)] len by auto
  then show ?thesis using message_decoded [OF assms(1-3), of p] by blast
qed

text \<open>The pad sends one packet, on the IN endpoint, and a host that has parsed the report descriptor of the firmware reads the
  values \<open>vs\<close> from it.\<close>

definition host_receives :: "locals \<Rightarrow> world \<Rightarrow> firmware \<Rightarrow> u32 option list \<Rightarrow> bool" where
  "host_receives u w s vs \<longleftrightarrow>
     (\<exists>s2 t packet info. HID_Task u w s = Some s2 \<and> io s2 = io s @ t \<and> packets [] t = [packet] \<and> writes UENUM t = [2, 1] \<and>
        USB_ProcessHIDReport (\<lambda>_. True) JoystickReport (of_nat (length JoystickReport)) = Inr (HID_PARSE_Successful, info) \<and>
        host_values info packet = vs)"

lemma pad_received:
  assumes "pad_host w (io s)" and "USB_DeviceState s = DEVICE_STATE_Configured" and "pad_of (joy s) = p"
  shows "host_receives u w s (map (\<lambda>i. Some (of_bool (bit (pad_Button p) i))) [0..<14] @
    map Some [ucast (pad_HAT p AND 0xF), ucast (pad_LX p), ucast (pad_LY p), ucast (pad_RX p), ucast (pad_RY p)])"
proof -
  obtain t where t: "HID_Task u w s = Some (s\<lparr>io := io s @ t\<rparr>)" "packets [] t = [report_bytes u (joy s)]" "writes UENUM t = [2, 1]"
    using HID_Task_sends [of w s u] assms(1,2) by auto
  have "host_values pad_info (report_bytes u (joy s)) = map (\<lambda>i. Some (of_bool (bit (pad_Button p) i))) [0..<14] @
         map Some [ucast (pad_HAT p AND 0xF), ucast (pad_LX p), ucast (pad_LY p), ucast (pad_RX p), ucast (pad_RY p)]"
    unfolding report_bytes_def pad_info_values using assms(3) by (auto simp: GetNextReport_def pad_of_def)
  then show ?thesis unfolding host_receives_def using t parse_JoystickReport
    by (intro exI [of _ "s\<lparr>io := io s @ t\<rparr>"] exI [of _ t] exI [of _ "report_bytes u (joy s)"] exI [of _ pad_info] conjI) simp_all
qed

text \<open>The values a host should see for a controller.\<close>

definition controller_values :: "sdl_controller \<Rightarrow> u32 option list" where
  "controller_values c = map (\<lambda>i. Some (of_bool (bit (bridge_buttons c) i))) [0..<14] @
     map (\<lambda>x. Some (word_of_int x)) (hatcodes ! nat (button_sum c hatmapping) # map (\<lambda>a. bridge_axis (GetAxis c a)) axismapping)"

lemma ucast_byte: "0 \<le> x \<Longrightarrow> x < 256 \<Longrightarrow> (ucast (word_of_int x :: u8) :: u32) = word_of_int x"
  by (simp add: ucast_eq uint_of_byte)

lemma hat_nibble: "0 \<le> h \<Longrightarrow> h \<le> 8 \<Longrightarrow> (ucast ((word_of_int h :: u8) AND 0xF) :: u32) = word_of_int h"
proof -
  assume "0 \<le> h" "h \<le> 8"
  then have "h \<in> {0, 1, 2, 3, 4, 5, 6, 7, 8}" by auto
  then show ?thesis by auto
qed

lemma values_of_sdl:
  assumes "sdl_answers c" and "nat (button_sum c hatmapping) < 15"
  shows "map (\<lambda>i. Some (of_bool (bit (pad_Button (pad_of_sdl c)) i))) [0..<14] @
    map Some [ucast (pad_HAT (pad_of_sdl c) AND 0xF), ucast (pad_LX (pad_of_sdl c)), ucast (pad_LY (pad_of_sdl c)),
      ucast (pad_RX (pad_of_sdl c)), ucast (pad_RY (pad_of_sdl c))] = controller_values c"
proof -
  have axis: "0 \<le> bridge_axis (GetAxis c a)" "bridge_axis (GetAxis c a) < 256" for a
    using bridge_axis_bound [of "GetAxis c a"] assms by (simp_all add: sdl_answers_def)
  have bits: "map (\<lambda>i. Some (of_bool (bit (pad_Button (pad_of_sdl c)) i) :: u32)) [0..<14] = map (\<lambda>i. Some (of_bool (bit (bridge_buttons c) i))) [0..<14]"
    by (rule map_cong [OF refl]) (simp add: pad_of_sdl_def bit_simps)
  show ?thesis unfolding controller_values_def bits using hatcodes_bound [OF assms(2)] axis
    by (simp add: pad_of_sdl_def axismapping_def ucast_byte hat_nibble)
qed

text \<open>C1: The state of a game controller travels unchanged from the PC to the host of the pad. Let the serial port deliver the message
  \<^verbatim>\<open>bridge.py\<close> makes of the controller to a configured pad whose receive buffer is empty and whose decoder is at the start of a line. Then the fifteen
  receive interrupts return, \<^verbatim>\<open>Serial_Task\<close> returns, and if the host lets the pad send, the next \<^verbatim>\<open>HID_Task\<close> returns
  having sent exactly one packet, on the IN endpoint, from which a host that has parsed the report descriptor
  of the firmware reads the buttons, the HAT value and the sticks of the controller.\<close>

theorem bridge_to_host:
  assumes "sdl_answers c" and "controller_state c = Inr m"
    and "buffer_ok (joy s)" and "pending (joy s) = []" and "line_rel (q, []) (joy s)" and "serial_host w (io s) m"
    and "USB_DeviceState s = DEVICE_STATE_Configured"
  shows "\<exists>s1 j. rx_interrupts w 15 s = Some s1 \<and> Serial_Task (joy s1) = Inr j \<and>
    (pad_host w (io s1) \<longrightarrow> host_receives u w (s1\<lparr>joy := j\<rparr>) (controller_values c))"
proof -
  have hat: "nat (button_sum c hatmapping) < 15"
    using assms(2) by (simp add: controller_state_def hatcodes_def Let_def split: if_splits)
  have m: "m = bridge_message (pad_of_sdl c)" using controller_state_message [OF assms(1) hat] assms(2) by simp
  let ?j1 = "fold rx_store m (joy s)"
  obtain t j where t: "rx_interrupts w 15 s = Some (s\<lparr>io := io s @ t, joy := ?j1\<rparr>)" and j: "Serial_Task ?j1 = Inr j" "pad_of j = pad_of_sdl c"
    using message_received [OF assms(3-5) assms(6) [unfolded m]] m by blast
  let ?s1 = "s\<lparr>io := io s @ t, joy := ?j1\<rparr>"
  have "host_receives u w (?s1\<lparr>joy := j\<rparr>) (controller_values c)" if "pad_host w (io ?s1)"
    unfolding values_of_sdl [OF assms(1) hat, symmetric] by (rule pad_received) (use that assms(7) j(2) in simp_all)
  then show ?thesis using t j(1) by (intro exI [of _ ?s1] exI [of _ j]) simp
qed

theorem bridge_to_host_witness:
  "\<exists>m s1 j. controller_state example_controller = Inr m \<and>
     rx_interrupts (pad_world m) 15 (pad_configured joystick_init) = Some s1 \<and> Serial_Task (joy s1) = Inr j \<and>
     host_receives zero_locals (pad_world m) (s1\<lparr>joy := j\<rparr>) (replicate 14 (Some 0) @ map Some [0, 192, 128, 128, 128])"
proof -
  have answers: "sdl_answers example_controller" by (simp add: sdl_answers_def example_controller_def)
  obtain m where m: "controller_state example_controller = Inr m"
    using controller_state_message [OF answers] by (simp add: button_sum_hat example_controller_def)
  have "bridge_buttons example_controller = 0"
    by (simp add: bridge_buttons_def button_sum_def buttonmapping_def example_controller_def trigger_deadzone_def)
  then have "controller_values example_controller = replicate 14 (Some 0) @ map Some [0, 192, 128, 128, 128]"
    by (simp add: controller_values_def map_replicate_const button_sum_hat axismapping_def)
      (simp add: example_controller_def hatcodes_def bridge_axis_def axis_deadzone_def)
  then show ?thesis
    using bridge_to_host [OF answers m, of "pad_configured joystick_init" pad0 "pad_world m" zero_locals] buffer_ok_init line_rel_init
      pad_world_serial pad_world_host m by auto
qed

end
